(* ===== verification/Prelude.thy ===== *)
theory Prelude
  imports Main "HOL-Library.Word"
begin

text \<open>
  Shared vocabulary of the development: bytes, results, the generic list searches that the
  Rust iterator chains of the decoders are made of, and the collections that the component
  proofs simplify with.

  A Rust \<open>u8\<close> is a HOL \<^typ>\<open>char\<close> (both have exactly 256 values); a byte slice, a
  \<open>BytesMut\<close>, and the UTF-8 contents of a \<open>str\<close> or \<open>String\<close> are lists of
  bytes. A Rust \<open>Result\<close> is a sum with the error on the left. A panic is \<^const>\<open>None\<close> of
  an option wrapped around the value a function returns.
\<close>

named_theorems step_simps \<open>unfolding one handler or decoding step\<close>
named_theorems byte_simps \<open>evaluation of byte and ASCII operations\<close>

type_synonym byte = char
type_synonym bytes = "byte list"

abbreviation u8 :: "byte \<Rightarrow> nat" where "u8 c \<equiv> of_char c"

abbreviation Err :: "'e \<Rightarrow> 'e + 'a" where "Err \<equiv> Inl"
abbreviation Ok :: "'a \<Rightarrow> 'e + 'a" where "Ok \<equiv> Inr"

definition map_err :: "('e \<Rightarrow> 'f) \<Rightarrow> 'e + 'a \<Rightarrow> 'f + 'a" where
  "map_err f r = (case r of Err e \<Rightarrow> Err (f e) | Ok a \<Rightarrow> Ok a)"

lemma map_err_simps [simp]:
  "map_err f (Err e) = Err (f e)"
  "map_err f (Ok a) = Ok a"
  by (simp_all add: map_err_def)

lemma map_err_Ok_iff [simp]: "map_err f r = Ok a \<longleftrightarrow> r = Ok a"
  by (cases r) simp_all

text \<open>The line terminator and the blanks of the wire format.\<close>

definition CR :: byte where "CR = CHR 0x0D"
definition LF :: byte where "LF = CHR 0x0A"
definition SP :: byte where "SP = CHR 0x20"
definition HT :: byte where "HT = CHR 0x09"
definition COLON :: byte where "COLON = CHR 0x3A"

abbreviation CRLF :: bytes where "CRLF \<equiv> [CR, LF]"

lemmas byte_consts [byte_simps] = CR_def LF_def SP_def HT_def COLON_def

lemma byte_consts_distinct [simp]:
  "CR \<noteq> LF" "CR \<noteq> SP" "CR \<noteq> HT" "CR \<noteq> COLON" "LF \<noteq> CR" "LF \<noteq> SP" "LF \<noteq> HT" "LF \<noteq> COLON"
  "SP \<noteq> CR" "SP \<noteq> LF" "SP \<noteq> HT" "SP \<noteq> COLON" "HT \<noteq> CR" "HT \<noteq> LF" "HT \<noteq> SP" "HT \<noteq> COLON"
  "COLON \<noteq> CR" "COLON \<noteq> LF" "COLON \<noteq> SP" "COLON \<noteq> HT"
  by (simp_all add: byte_consts)

lemma u8_less_256 [simp]: "u8 c < 256"
  by (rule nat_of_char_less_256)

lemma u8_eq_iff: "u8 a = u8 b \<longleftrightarrow> a = b"
  by simp

subsection \<open>Slices\<close>

definition starts_with :: "'a list \<Rightarrow> 'a list \<Rightarrow> bool" where
  "starts_with b p \<longleftrightarrow> take (length p) b = p"

lemma starts_with_Nil [simp]: "starts_with b []"
  by (simp add: starts_with_def)

lemma starts_with_Cons [simp]:
  "starts_with (x # b) (y # p) \<longleftrightarrow> x = y \<and> starts_with b p"
  "\<not> starts_with [] (y # p)"
  by (auto simp: starts_with_def)

lemma starts_with_iff: "starts_with b p \<longleftrightarrow> (\<exists>r. b = p @ r)"
  by (metis append_take_drop_id append_eq_conv_conj starts_with_def)

lemma starts_with_append [simp]: "starts_with (p @ r) p"
  by (simp add: starts_with_def)

lemma starts_with_extend: "starts_with b p \<Longrightarrow> starts_with (b @ x) p"
  by (auto simp: starts_with_iff)

lemma starts_with_long: "length p \<le> length b \<Longrightarrow> starts_with (b @ x) p = starts_with b p"
  by (simp add: starts_with_def)

lemma starts_with_length: "starts_with b p \<Longrightarrow> length p \<le> length b"
  by (auto simp: starts_with_iff)

definition ends_with :: "'a list \<Rightarrow> 'a list \<Rightarrow> bool" where
  "ends_with b p \<longleftrightarrow> length p \<le> length b \<and> drop (length b - length p) b = p"

lemma ends_with_iff: "ends_with b p \<longleftrightarrow> (\<exists>r. b = r @ p)"
proof
  assume "ends_with b p"
  then have "b = take (length b - length p) b @ p"
    by (metis append_take_drop_id ends_with_def)
  then show "\<exists>r. b = r @ p" by blast
qed (auto simp: ends_with_def)

subsection \<open>Searching: Rust's \<open>position\<close>\<close>

fun position :: "('a \<Rightarrow> bool) \<Rightarrow> 'a list \<Rightarrow> nat option" where
  "position P [] = None"
| "position P (x # xs) = (if P x then Some 0 else map_option Suc (position P xs))"

lemma position_None_iff: "position P xs = None \<longleftrightarrow> (\<forall>x \<in> set xs. \<not> P x)"
  by (induction xs) auto

lemma position_Some_iff:
  "position P xs = Some i \<longleftrightarrow> i < length xs \<and> P (xs ! i) \<and> (\<forall>j < i. \<not> P (xs ! j))"
proof (induction xs arbitrary: i)
  case Nil
  then show ?case by simp
next
  case (Cons x xs)
  show ?case
    by (cases i) (auto simp: Cons.IH less_Suc_eq_0_disj)
qed

lemma position_less: "position P xs = Some i \<Longrightarrow> i < length xs"
  by (simp add: position_Some_iff)

lemma position_append_Some:
  "position P xs = Some i \<Longrightarrow> position P (xs @ ys) = Some i"
  by (simp add: position_Some_iff nth_append)

lemma position_append_skip:
  "\<forall>x \<in> set xs. \<not> P x \<Longrightarrow> position P (xs @ ys) = map_option ((+) (length xs)) (position P ys)"
  by (induction xs; cases "position P ys") auto

lemma position_take_extend:
  "position P (take n xs) = Some i \<Longrightarrow> position P (take n (xs @ ys)) = Some i"
  by (simp add: position_append_Some)

lemma position_found:
  "\<lbrakk>\<forall>x \<in> set xs. \<not> P x; P y\<rbrakk> \<Longrightarrow> position P (xs @ y # ys) = Some (length xs)"
  by (simp add: position_append_skip)

text \<open>Rust's \<open>slice::windows(2)\<close>: the pairs of neighbours.\<close>

definition windows2 :: "'a list \<Rightarrow> ('a \<times> 'a) list" where
  "windows2 xs = zip xs (tl xs)"

lemma windows2_simps [simp]:
  "windows2 [] = []" "windows2 [x] = []"
  "windows2 (x # y # xs) = (x, y) # windows2 (y # xs)"
  by (simp_all add: windows2_def)

lemma length_windows2 [simp]: "length (windows2 xs) = length xs - 1"
  by (simp add: windows2_def)

lemma nth_windows2: "i + 1 < length xs \<Longrightarrow> windows2 xs ! i = (xs ! i, xs ! (i + 1))"
  by (simp add: windows2_def nth_tl)

lemma windows2_append:
  "\<exists>w. windows2 (xs @ ys) = windows2 xs @ w"
proof (induction xs rule: induct_list012)
  case 1
  then show ?case by simp
next
  case (2 x)
  then show ?case by simp
next
  case (3 x y zs)
  then show ?case by simp
qed

lemma find_unique:
  "distinct (map f xs) \<Longrightarrow> x \<in> set xs \<Longrightarrow> find (\<lambda>y. f y = f x) xs = Some x"
  by (induction xs) auto

end
