(* ===== verification/Uri.thy ===== *)
theory Uri
  imports Prelude
begin

text \<open>
  Request URIs: \<^verbatim>\<open>rtsp-2/src/uri/request.rs\<close>. Parsing and printing of the generic syntax is
  the third-party crate \<open>uriparse\<close>: its values (authorities, paths, queries, errors) are of an
  opaque type, and the functions the program calls are the fields of the parameter \<open>U\<close>. What is
  modelled is the layer on top: which references are request URIs, and that every operation on a
  request URI keeps it one. A panic (\<open>expect\<close>, \<open>panic!\<close>) is \<^const>\<open>None\<close>.
\<close>

datatype Scheme = RTSP | RTSPS | RTSPU | SchemeOther bytes

datatype Host = RegisteredName bytes | IPAddress bytes

text \<open>The five parts of a \<open>URIReference\<close>; of the fragment only its presence matters here.\<close>

record 'u uri_reference =
  ref_scheme :: "Scheme option"
  ref_authority :: "'u option"
  ref_path :: 'u
  ref_query :: "'u option"
  ref_has_fragment :: bool

datatype 'u URIReferenceError =
    RefAuthority 'u | RefFragment 'u | RefMissingPath | RefPath 'u | RefQuery 'u | RefScheme 'u
  | RefOther

record 'u uriparse_ops =
  up_try_from :: "bytes \<Rightarrow> 'u URIReferenceError + 'u uri_reference"
  up_from_parts :: "'u uri_reference \<Rightarrow> 'u URIReferenceError + 'u uri_reference"
  up_host :: "'u \<Rightarrow> Host"
  up_port :: "'u \<Rightarrow> nat option"
  up_set_port :: "'u \<Rightarrow> nat option \<Rightarrow> 'u"
  up_authority_is_normalized :: "'u \<Rightarrow> bool"
  up_authority_normalize :: "'u \<Rightarrow> 'u"
  up_path_is_normalized :: "'u \<Rightarrow> bool"
  up_path_normalize :: "'u \<Rightarrow> 'u"
  up_query_is_normalized :: "'u \<Rightarrow> bool"
  up_query_normalize :: "'u \<Rightarrow> 'u"
  up_set_absolute :: "'u \<Rightarrow> 'u"
  up_segments :: "'u \<Rightarrow> bytes list"
  up_scheme_str :: "Scheme \<Rightarrow> bytes"
  up_authority_str :: "'u \<Rightarrow> bytes"
  up_path_str :: "'u \<Rightarrow> bytes"
  up_query_str :: "'u \<Rightarrow> bytes"
  up_asterisk_path :: 'u

record 'u components =
  scheme_part :: Scheme
  authority_part :: 'u
  path_part :: 'u
  query_part :: "'u option"

text \<open>\<open>components: Option<Components>\<close>; \<^const>\<open>None\<close> is the asterisk.\<close>

type_synonym 'u URI = "'u components option"

datatype 'u URIError =
    UriAuthority 'u | UriEmptyHost | UriFragmentNotAllowed | UriInvalidRelativeReference
  | UriMissingAuthority | UriMissingPath | UriMissingScheme | UriNonRTSPScheme
  | UriPath 'u | UriQuery 'u | UriScheme 'u

definition RTSP_DEFAULT_PORT :: nat where "RTSP_DEFAULT_PORT = 554"
definition RTSPS_DEFAULT_PORT :: nat where "RTSPS_DEFAULT_PORT = 332"
definition RTSPU_DEFAULT_PORT :: nat where "RTSPU_DEFAULT_PORT = 554"

definition uri_asterisk :: "'u URI" where "uri_asterisk = None"

definition uri_is_asterisk :: "'u URI \<Rightarrow> bool" where "uri_is_asterisk uri \<longleftrightarrow> uri = None"

definition uri_authority :: "'u URI \<Rightarrow> 'u option" where
  "uri_authority uri = map_option authority_part uri"

definition uri_scheme :: "'u URI \<Rightarrow> Scheme option" where
  "uri_scheme uri = map_option scheme_part uri"

definition uri_path :: "'u uriparse_ops \<Rightarrow> 'u URI \<Rightarrow> 'u" where
  "uri_path U uri = (case uri of Some components \<Rightarrow> path_part components | None \<Rightarrow> up_asterisk_path U)"

definition uri_query :: "'u URI \<Rightarrow> 'u option" where
  "uri_query uri = (case uri of Some components \<Rightarrow> query_part components | None \<Rightarrow> None)"

definition uri_port :: "'u uriparse_ops \<Rightarrow> 'u URI \<Rightarrow> nat option" where
  "uri_port U uri = (case uri of Some components \<Rightarrow> up_port U (authority_part components) | None \<Rightarrow> None)"

definition uri_host :: "'u uriparse_ops \<Rightarrow> 'u URI \<Rightarrow> Host option" where
  "uri_host U uri = map_option (\<lambda>components. up_host U (authority_part components)) uri"

text \<open>\<open>default_port\<close>: the outer option is the panic on an unexpected scheme.\<close>

definition default_port :: "'u URI \<Rightarrow> nat option option" where
  "default_port uri =
     (case uri_scheme uri of
        None \<Rightarrow> Some None
      | Some RTSP \<Rightarrow> Some (Some RTSP_DEFAULT_PORT)
      | Some RTSPS \<Rightarrow> Some (Some RTSPS_DEFAULT_PORT)
      | Some RTSPU \<Rightarrow> Some (Some RTSPU_DEFAULT_PORT)
      | Some (SchemeOther _) \<Rightarrow> None)"

definition uri_into_parts :: "'u URI \<Rightarrow> (Scheme \<times> 'u \<times> 'u \<times> 'u option) option" where
  "uri_into_parts uri =
     map_option (\<lambda>c. (scheme_part c, authority_part c, path_part c, query_part c)) uri"

subsection \<open>From references\<close>

text \<open>\<open>TryFrom<URIReferenceError> for URIError\<close>; \<^const>\<open>None\<close> is its \<open>Err(())\<close>.\<close>

fun uri_error_try_from :: "'u URIReferenceError \<Rightarrow> 'u URIError option" where
  "uri_error_try_from (RefAuthority e) = Some (UriAuthority e)"
| "uri_error_try_from (RefFragment _) = Some UriFragmentNotAllowed"
| "uri_error_try_from RefMissingPath = Some UriMissingPath"
| "uri_error_try_from (RefPath e) = Some (UriPath e)"
| "uri_error_try_from (RefQuery e) = Some (UriQuery e)"
| "uri_error_try_from (RefScheme e) = Some (UriScheme e)"
| "uri_error_try_from RefOther = None"

definition rtsp_scheme :: "Scheme \<Rightarrow> bool" where
  "rtsp_scheme s \<longleftrightarrow> s = RTSP \<or> s = RTSPS \<or> s = RTSPU"

definition host_is_empty :: "Host \<Rightarrow> bool" where
  "host_is_empty h = (case h of RegisteredName name \<Rightarrow> name = [] | _ \<Rightarrow> False)"

definition uri_try_from_reference :: "'u uriparse_ops \<Rightarrow> 'u uri_reference \<Rightarrow> ('u URIError + 'u URI) option" where
  "uri_try_from_reference U value =
     (if ref_has_fragment value then Some (Err UriFragmentNotAllowed)
      else if ref_scheme value \<noteq> None \<and> ref_authority value = None then Some (Err UriMissingAuthority)
      else if ref_scheme value = None \<and> ref_authority value \<noteq> None then Some (Err UriMissingScheme)
      else case ref_scheme value of
        None \<Rightarrow>
          (let segments = up_segments U (ref_path value) in
           if length segments \<noteq> 1 \<or> segments ! 0 \<noteq> ''*'' \<or> ref_query value \<noteq> None
           then Some (Err UriInvalidRelativeReference)
           else Some (Ok None))
      | Some scheme \<Rightarrow>
          if scheme \<noteq> RTSP \<and> scheme \<noteq> RTSPS \<and> scheme \<noteq> RTSPU then Some (Err UriNonRTSPScheme)
          else case ref_authority value of
            None \<Rightarrow> None
          | Some authority \<Rightarrow>
              if host_is_empty (up_host U authority) then Some (Err UriEmptyHost)
              else Some (Ok (Some \<lparr>scheme_part = scheme, authority_part = authority,
                                   path_part = ref_path value, query_part = ref_query value\<rparr>)))"

definition uri_try_from_result ::
  "'u uriparse_ops \<Rightarrow> 'u URIReferenceError + 'u uri_reference \<Rightarrow> ('u URIError + 'u URI) option" where
  "uri_try_from_result U r =
     (case r of
        Err error \<Rightarrow> map_option Err (uri_error_try_from error)
      | Ok uri_reference \<Rightarrow> uri_try_from_reference U uri_reference)"

definition uri_try_from :: "'u uriparse_ops \<Rightarrow> bytes \<Rightarrow> ('u URIError + 'u URI) option" where
  "uri_try_from U value = uri_try_from_result U (up_try_from U value)"

definition uri_display :: "'u uriparse_ops \<Rightarrow> 'u URI \<Rightarrow> bytes" where
  "uri_display U uri =
     (case uri of
        Some c \<Rightarrow>
          up_scheme_str U (scheme_part c) @ ''://'' @ up_authority_str U (authority_part c)
            @ up_path_str U (path_part c)
            @ (case query_part c of Some query \<Rightarrow> ''?'' @ up_query_str U query | None \<Rightarrow> [])
      | None \<Rightarrow> ''*'')"

text \<open>\<open>From<URI> for URIReference\<close>, with its \<open>expect\<close>.\<close>

definition uri_into_reference :: "'u uriparse_ops \<Rightarrow> 'u URI \<Rightarrow> 'u uri_reference option" where
  "uri_into_reference U uri =
     (case up_from_parts U
        (case uri of
           Some c \<Rightarrow> \<lparr>ref_scheme = Some (scheme_part c), ref_authority = Some (authority_part c),
                      ref_path = path_part c, ref_query = query_part c, ref_has_fragment = False\<rparr>
         | None \<Rightarrow> \<lparr>ref_scheme = None, ref_authority = None, ref_path = up_asterisk_path U,
                    ref_query = None, ref_has_fragment = False\<rparr>) of
        Err _ \<Rightarrow> None
      | Ok r \<Rightarrow> Some r)"

subsection \<open>The builder\<close>

record 'u uri_builder =
  ub_authority :: "'u option"
  ub_path :: "'u option"
  ub_query :: "'u option"
  ub_scheme :: "Scheme option"

definition uri_builder_new :: "'u uri_builder" where
  "uri_builder_new = \<lparr>ub_authority = None, ub_path = None, ub_query = None, ub_scheme = None\<rparr>"

definition uri_build :: "'u uriparse_ops \<Rightarrow> 'u uri_builder \<Rightarrow> ('u URIError + 'u URI) option" where
  "uri_build U b =
     (case ub_scheme b of
        None \<Rightarrow> Some (Err UriMissingScheme)
      | Some scheme \<Rightarrow>
     (case ub_authority b of
        None \<Rightarrow> Some (Err UriMissingAuthority)
      | Some authority \<Rightarrow>
     (case ub_path b of
        None \<Rightarrow> Some (Err UriMissingPath)
      | Some path \<Rightarrow>
          uri_try_from_result U
            (up_from_parts U \<lparr>ref_scheme = Some scheme, ref_authority = Some authority,
               ref_path = path, ref_query = ub_query b, ref_has_fragment = False\<rparr>))))"

definition uri_from_parts ::
  "'u uriparse_ops \<Rightarrow> Scheme \<Rightarrow> 'u \<Rightarrow> 'u \<Rightarrow> 'u option \<Rightarrow> ('u URIError + 'u URI) option" where
  "uri_from_parts U scheme authority path query =
     uri_build U (uri_builder_new\<lparr>ub_scheme := Some scheme, ub_authority := Some authority,
       ub_path := Some path, ub_query := query\<rparr>)"

definition uri_into_builder :: "'u URI \<Rightarrow> 'u uri_builder option" where
  "uri_into_builder uri =
     (if uri_is_asterisk uri then None
      else map_option (\<lambda>(scheme, authority, path, query).
             uri_builder_new\<lparr>ub_scheme := Some scheme, ub_authority := Some authority,
               ub_path := Some path, ub_query := query\<rparr>) (uri_into_parts uri))"

subsection \<open>Updating in place\<close>

definition set_authority :: "'u uriparse_ops \<Rightarrow> 'u \<Rightarrow> 'u URI \<Rightarrow> 'u URIError + 'u URI" where
  "set_authority U authority uri =
     (if host_is_empty (up_host U authority) then Err UriEmptyHost
      else Ok (map_option (\<lambda>c. c\<lparr>authority_part := authority\<rparr>) uri))"

definition set_path :: "'u uriparse_ops \<Rightarrow> 'u \<Rightarrow> 'u URI \<Rightarrow> 'u URI" where
  "set_path U path uri = map_option (\<lambda>c. c\<lparr>path_part := up_set_absolute U path\<rparr>) uri"

definition set_query :: "'u option \<Rightarrow> 'u URI \<Rightarrow> 'u URI" where
  "set_query query uri = map_option (\<lambda>c. c\<lparr>query_part := query\<rparr>) uri"

definition set_scheme :: "Scheme \<Rightarrow> 'u URI \<Rightarrow> 'u URIError + 'u URI" where
  "set_scheme scheme uri =
     (if scheme \<noteq> RTSP \<and> scheme \<noteq> RTSPS \<and> scheme \<noteq> RTSPU then Err UriNonRTSPScheme
      else Ok (map_option (\<lambda>c. c\<lparr>scheme_part := scheme\<rparr>) uri))"

text \<open>The mapping functions panic when the mapped part is rejected.\<close>

definition map_authority :: "'u uriparse_ops \<Rightarrow> ('u \<Rightarrow> 'u) \<Rightarrow> 'u URI \<Rightarrow> 'u URI option" where
  "map_authority U mapper uri =
     (case uri of
        Some c \<Rightarrow> (case set_authority U (mapper (authority_part c)) uri of Err _ \<Rightarrow> None | Ok u \<Rightarrow> Some u)
      | None \<Rightarrow> Some uri)"

definition map_path :: "'u uriparse_ops \<Rightarrow> ('u \<Rightarrow> 'u) \<Rightarrow> 'u URI \<Rightarrow> 'u URI" where
  "map_path U mapper uri =
     (case uri of Some c \<Rightarrow> set_path U (mapper (path_part c)) uri | None \<Rightarrow> uri)"

definition map_query :: "('u option \<Rightarrow> 'u option) \<Rightarrow> 'u URI \<Rightarrow> 'u URI" where
  "map_query mapper uri =
     (case uri of Some c \<Rightarrow> set_query (mapper (query_part c)) uri | None \<Rightarrow> uri)"

definition map_scheme :: "(Scheme \<Rightarrow> Scheme) \<Rightarrow> 'u URI \<Rightarrow> 'u URI option" where
  "map_scheme mapper uri =
     (case uri of
        Some c \<Rightarrow> (case set_scheme (mapper (scheme_part c)) uri of Err _ \<Rightarrow> None | Ok u \<Rightarrow> Some u)
      | None \<Rightarrow> Some uri)"

text \<open>
  \<open>normalize\<close>: the parts first, then the port is dropped when it is the default of the scheme.
\<close>

definition uri_normalize :: "'u uriparse_ops \<Rightarrow> 'u URI \<Rightarrow> 'u URI option" where
  "uri_normalize U uri =
     (case default_port uri of
        None \<Rightarrow> None
      | Some dport \<Rightarrow>
     (case uri of
        None \<Rightarrow> Some uri
      | Some c \<Rightarrow>
          (let c = c\<lparr>authority_part := up_authority_normalize U (authority_part c),
                     path_part := up_path_normalize U (path_part c),
                     query_part := map_option (up_query_normalize U) (query_part c)\<rparr>
           in case up_port U (authority_part c) of
                None \<Rightarrow> Some (Some c)
              | Some port \<Rightarrow>
                  (case dport of
                     None \<Rightarrow> None
                   | Some d \<Rightarrow>
                       Some (Some (if port = d
                         then c\<lparr>authority_part := up_set_port U (authority_part c) None\<rparr> else c))))))"

definition uri_is_normalized :: "'u uriparse_ops \<Rightarrow> 'u URI \<Rightarrow> bool option" where
  "uri_is_normalized U uri =
     (case uri of
        None \<Rightarrow> Some True
      | Some c \<Rightarrow>
          (let rest = (if (case query_part c of Some q \<Rightarrow> \<not> up_query_is_normalized U q | None \<Rightarrow> False)
                       then False
                       else up_authority_is_normalized U (authority_part c)
                            \<and> up_path_is_normalized U (path_part c))
           in case up_port U (authority_part c) of
                None \<Rightarrow> Some rest
              | Some port \<Rightarrow>
                  (case default_port uri of
                     Some (Some d) \<Rightarrow> Some (if port = d then False else rest)
                   | _ \<Rightarrow> None)))"

subsection \<open>What a request URI is\<close>

fun uri_valid :: "'u uriparse_ops \<Rightarrow> 'u URI \<Rightarrow> bool" where
  "uri_valid U None \<longleftrightarrow> True"
| "uri_valid U (Some c) \<longleftrightarrow>
     rtsp_scheme (scheme_part c) \<and> \<not> host_is_empty (up_host U (authority_part c))"

lemma uri_try_from_reference_total: "uri_try_from_reference U r \<noteq> None"
  by (auto simp: uri_try_from_reference_def Let_def split: option.splits)

lemma uri_try_from_reference_Ok:
  "uri_try_from_reference U r = Some (Ok u) \<longleftrightarrow>
     \<not> ref_has_fragment r
     \<and> (case u of
          None \<Rightarrow> ref_scheme r = None \<and> ref_authority r = None \<and> ref_query r = None
                    \<and> up_segments U (ref_path r) = [''*'']
        | Some c \<Rightarrow> ref_scheme r = Some (scheme_part c) \<and> ref_authority r = Some (authority_part c)
                    \<and> ref_path r = path_part c \<and> ref_query r = query_part c \<and> uri_valid U u)"
  by (cases u; cases "up_segments U (ref_path r)")
     (auto simp: uri_try_from_reference_def rtsp_scheme_def Let_def split: option.splits)

lemma uri_try_from_reference_valid: "uri_try_from_reference U r = Some (Ok u) \<Longrightarrow> uri_valid U u"
  by (cases u) (auto simp: uri_try_from_reference_Ok)

lemma uri_try_from_result_valid: "uri_try_from_result U r = Some (Ok u) \<Longrightarrow> uri_valid U u"
  by (auto simp: uri_try_from_result_def uri_try_from_reference_valid split: sum.splits)

lemma uri_try_from_valid: "uri_try_from U v = Some (Ok u) \<Longrightarrow> uri_valid U u"
  by (auto simp: uri_try_from_def uri_try_from_result_valid)

text \<open>The only panic of the parser is a reference error that has no counterpart.\<close>

lemma uri_error_try_from_None: "uri_error_try_from e = None \<longleftrightarrow> e = RefOther"
  by (cases e) simp_all

lemma uri_try_from_panic: "uri_try_from U v = None \<longleftrightarrow> up_try_from U v = Err RefOther"
  by (auto simp: uri_try_from_def uri_try_from_result_def uri_error_try_from_None
      uri_try_from_reference_total split: sum.splits)

lemma uri_ops_valid:
  "uri_valid U uri_asterisk"
  "uri_build U b = Some (Ok u) \<Longrightarrow> uri_valid U u"
  "uri_valid U u \<Longrightarrow> set_authority U a u = Ok u' \<Longrightarrow> uri_valid U u'"
  "uri_valid U u \<Longrightarrow> uri_valid U (set_path U p u)"
  "uri_valid U u \<Longrightarrow> uri_valid U (set_query q u)"
  "uri_valid U u \<Longrightarrow> set_scheme s u = Ok u' \<Longrightarrow> uri_valid U u'"
  by (auto simp: uri_asterisk_def uri_build_def set_authority_def set_path_def set_query_def
      set_scheme_def rtsp_scheme_def uri_try_from_result_valid split: option.splits if_splits;
      cases u; auto)+

lemma default_port_total: "uri_valid U u \<Longrightarrow> default_port u \<noteq> None"
  by (cases u) (auto simp: default_port_def uri_scheme_def rtsp_scheme_def)

lemma default_port_components:
  "uri_valid U (Some c) \<Longrightarrow> \<exists>d. default_port (Some c) = Some (Some d)"
  by (auto simp: default_port_def uri_scheme_def rtsp_scheme_def)

text \<open>
  The documented behaviour of the normalising functions: normalised parts are normalised, and
  neither normalising nor changing the port touches the host's emptiness.
\<close>

definition uri_normalize_laws :: "'u uriparse_ops \<Rightarrow> bool" where
  "uri_normalize_laws U \<longleftrightarrow>
     (\<forall>a. up_authority_is_normalized U (up_authority_normalize U a))
     \<and> (\<forall>p. up_path_is_normalized U (up_path_normalize U p))
     \<and> (\<forall>q. up_query_is_normalized U (up_query_normalize U q))
     \<and> (\<forall>a. up_authority_is_normalized U a \<longrightarrow> up_authority_is_normalized U (up_set_port U a None))
     \<and> (\<forall>a. up_port U (up_set_port U a None) = None)
     \<and> (\<forall>a. host_is_empty (up_host U (up_authority_normalize U a)) = host_is_empty (up_host U a))
     \<and> (\<forall>a. host_is_empty (up_host U (up_set_port U a None)) = host_is_empty (up_host U a))"

lemma uri_normalize_result:
  assumes "uri_normalize_laws U" "uri_valid U u"
  shows "\<exists>u'. uri_normalize U u = Some u' \<and> uri_valid U u' \<and> uri_is_normalized U u' = Some True"
proof (cases u)
  case None
  then show ?thesis
    by (simp add: uri_normalize_def uri_is_normalized_def default_port_def uri_scheme_def)
next
  case (Some c)
  with assms(2) obtain d where d: "default_port (Some c) = Some (Some d)"
    using default_port_components by blast
  let ?c = "c\<lparr>authority_part := up_authority_normalize U (authority_part c),
              path_part := up_path_normalize U (path_part c),
              query_part := map_option (up_query_normalize U) (query_part c)\<rparr>"
  let ?r = "?c\<lparr>authority_part := up_set_port U (authority_part ?c) None\<rparr>"
  show ?thesis
  proof (cases "up_port U (authority_part ?c) = Some d")
    case True
    then have "uri_normalize U u = Some (Some ?r)" using d Some by (simp add: uri_normalize_def)
    moreover have "uri_is_normalized U (Some ?r) = Some True"
      using assms(1) by (auto simp: uri_is_normalized_def uri_normalize_laws_def split: option.splits)
    ultimately show ?thesis using assms Some by (auto simp: uri_normalize_laws_def)
  next
    case False
    then have "uri_normalize U u = Some (Some ?c)"
      using d Some by (auto simp: uri_normalize_def Let_def split: option.splits)
    moreover have "uri_is_normalized U (Some ?c) = Some True"
      using assms(1) False d
      by (auto simp: uri_is_normalized_def uri_normalize_laws_def default_port_def uri_scheme_def
          split: option.splits)
    ultimately show ?thesis using assms Some by (auto simp: uri_normalize_laws_def)
  qed
qed

text \<open>
  Functions to instantiate the parameter: the asterisk and \<open>rtsp://\<close> references whose authority is
  the rest of the text, with nothing to normalise.
\<close>

definition plain_uris :: "bytes uriparse_ops" where
  "plain_uris = \<lparr>
     up_try_from = (\<lambda>v.
       if v = ''*'' then Ok \<lparr>ref_scheme = None, ref_authority = None, ref_path = v, ref_query = None,
                           ref_has_fragment = False\<rparr>
       else if starts_with v ''rtsp://''
         then Ok \<lparr>ref_scheme = Some RTSP, ref_authority = Some (drop 7 v), ref_path = [],
                  ref_query = None, ref_has_fragment = False\<rparr>
       else Err RefMissingPath),
     up_from_parts = Ok,
     up_host = RegisteredName,
     up_port = (\<lambda>_. None),
     up_set_port = (\<lambda>a _. a),
     up_authority_is_normalized = (\<lambda>_. True),
     up_authority_normalize = (\<lambda>a. a),
     up_path_is_normalized = (\<lambda>_. True),
     up_path_normalize = (\<lambda>p. p),
     up_query_is_normalized = (\<lambda>_. True),
     up_query_normalize = (\<lambda>q. q),
     up_set_absolute = (\<lambda>p. p),
     up_segments = (\<lambda>p. [p]),
     up_scheme_str = (\<lambda>s. case s of RTSP \<Rightarrow> ''rtsp'' | RTSPS \<Rightarrow> ''rtsps'' | RTSPU \<Rightarrow> ''rtspu'' | SchemeOther b \<Rightarrow> b),
     up_authority_str = (\<lambda>a. a),
     up_path_str = (\<lambda>p. p),
     up_query_str = (\<lambda>q. q),
     up_asterisk_path = ''*''\<rparr>"

lemma plain_uris_laws: "uri_normalize_laws plain_uris"
  by (simp add: uri_normalize_laws_def plain_uris_def)

lemma plain_uris_errors: "up_try_from plain_uris v \<noteq> Err RefOther"
  by (simp add: plain_uris_def)

subsection \<open>Properties\<close>

text \<open>The request URIs a program can get hold of.\<close>

inductive uri_built :: "'u uriparse_ops \<Rightarrow> 'u URI \<Rightarrow> bool" for U where
  asterisk: "uri_built U uri_asterisk"
| parse: "uri_try_from U v = Some (Ok u) \<Longrightarrow> uri_built U u"
| convert: "uri_try_from_reference U r = Some (Ok u) \<Longrightarrow> uri_built U u"
| build: "uri_build U b = Some (Ok u) \<Longrightarrow> uri_built U u"
| authority: "uri_built U u \<Longrightarrow> set_authority U a u = Ok u' \<Longrightarrow> uri_built U u'"
| path: "uri_built U u \<Longrightarrow> uri_built U (set_path U p u)"
| query: "uri_built U u \<Longrightarrow> uri_built U (set_query q u)"
| scheme: "uri_built U u \<Longrightarrow> set_scheme s u = Ok u' \<Longrightarrow> uri_built U u'"
| mapped: "uri_built U u \<Longrightarrow> map_authority U f u = Some u' \<Longrightarrow> uri_built U u'"
| normalized: "uri_built U u \<Longrightarrow> uri_normalize U u = Some u' \<Longrightarrow> uri_built U u'"

inductive_cases uri_built_componentsE: "uri_built U (Some c)"

lemma uri_normalize_valid:
  assumes "uri_normalize_laws U" "uri_valid U u" "uri_normalize U u = Some u'"
  shows "uri_valid U u'"
  using uri_normalize_result [OF assms(1,2)] assms(3) by auto

lemma map_authority_valid: "uri_valid U u \<Longrightarrow> map_authority U f u = Some u' \<Longrightarrow> uri_valid U u'"
  by (cases u) (auto simp: map_authority_def simp del: uri_valid.simps(2) split: sum.splits dest: uri_ops_valid(3))

lemma uri_built_valid: "uri_built U u \<Longrightarrow> uri_normalize_laws U \<Longrightarrow> uri_valid U u"
  by (induction rule: uri_built.induct)
     (auto intro: uri_ops_valid uri_try_from_valid uri_try_from_reference_valid uri_normalize_valid
        map_authority_valid)

text \<open>
  C30. Every request URI that any sequence of parsing, building, updating and normalising produces
  is the asterisk or has one of the three RTSP schemes and a host that is not empty; on it
  \<open>default_port\<close> does not panic, and normalising succeeds with a normalised request URI.
\<close>

theorem uri_built_safe:
  assumes "uri_built U u" "uri_normalize_laws U"
  shows "uri_valid U u \<and> default_port u \<noteq> None
    \<and> (\<exists>u'. uri_normalize U u = Some u' \<and> uri_valid U u' \<and> uri_is_normalized U u' = Some True)"
  using uri_built_valid [OF assms] default_port_total uri_normalize_result [OF assms(2)] by blast

lemma uri_built_safe_witness:
  "\<exists>u u'. uri_try_from plain_uris ''rtsp://example.com'' = Some (Ok u) \<and> uri_normalize plain_uris u = Some u'
     \<and> uri_is_normalized plain_uris u' = Some True"
proof -
  have "uri_try_from plain_uris ''rtsp://example.com'' = Some (Ok (Some \<lparr>scheme_part = RTSP,
      authority_part = ''example.com'', path_part = [], query_part = None\<rparr>))" by code_simp
  with uri_built_safe [OF uri_built.parse [OF this] plain_uris_laws] show ?thesis by blast
qed

text \<open>
  A reference is accepted as a request URI exactly when it has no fragment and is either the
  relative reference \<open>*\<close> without a query, or has a scheme of the three, an authority and a host
  that is not empty; the parts of the result are the parts of the reference. The checks never
  panic.
\<close>

theorem uri_reference_accept_exact:
  "uri_try_from_reference U r \<noteq> None
   \<and> (uri_try_from_reference U r = Some (Ok u) \<longleftrightarrow>
       \<not> ref_has_fragment r
       \<and> (case u of
            None \<Rightarrow> ref_scheme r = None \<and> ref_authority r = None \<and> ref_query r = None
                      \<and> up_segments U (ref_path r) = [''*'']
          | Some c \<Rightarrow> ref_scheme r = Some (scheme_part c) \<and> ref_authority r = Some (authority_part c)
                      \<and> ref_path r = path_part c \<and> ref_query r = query_part c
                      \<and> (scheme_part c = RTSP \<or> scheme_part c = RTSPS \<or> scheme_part c = RTSPU)
                      \<and> \<not> host_is_empty (up_host U (authority_part c))))"
  using uri_try_from_reference_total [of U r] uri_try_from_reference_Ok [of U r u]
  by (cases u) (simp_all add: rtsp_scheme_def)

end
