(* ===== verification/UriParts.thy ===== *)
theory UriParts
  imports Uri
begin

text \<open>
  The parts of a request URI that may be absent, and the setters of the builder:
  \<^verbatim>\<open>rtsp-2/src/uri/request.rs\<close>. User names and passwords of the third-party \<open>uriparse\<close> are read by
  the parameter \<open>read\<close>, the functions of an authority of the same names.
\<close>

definition uri_has_authority :: "'u URI \<Rightarrow> bool" where
  "uri_has_authority uri \<longleftrightarrow> uri \<noteq> None"

definition uri_has_host :: "'u URI \<Rightarrow> bool" where
  "uri_has_host uri \<longleftrightarrow> uri \<noteq> None"

definition uri_has_query :: "'u URI \<Rightarrow> bool" where
  "uri_has_query uri = (case uri of Some components \<Rightarrow> query_part components \<noteq> None | None \<Rightarrow> False)"

definition uri_has_password :: "('u \<Rightarrow> bool) \<Rightarrow> 'u URI \<Rightarrow> bool" where
  "uri_has_password has uri = (case uri of Some components \<Rightarrow> has (authority_part components) | None \<Rightarrow> False)"

definition uri_has_port :: "('u \<Rightarrow> bool) \<Rightarrow> 'u URI \<Rightarrow> bool" where
  "uri_has_port has uri = (case uri of Some components \<Rightarrow> has (authority_part components) | None \<Rightarrow> False)"

definition uri_has_username :: "('u \<Rightarrow> bool) \<Rightarrow> 'u URI \<Rightarrow> bool" where
  "uri_has_username has uri = (case uri of Some components \<Rightarrow> has (authority_part components) | None \<Rightarrow> False)"

definition uri_password :: "('u \<Rightarrow> 'w option) \<Rightarrow> 'u URI \<Rightarrow> 'w option" where
  "uri_password read uri = (case uri of Some components \<Rightarrow> read (authority_part components) | None \<Rightarrow> None)"

definition uri_username :: "('u \<Rightarrow> 'w option) \<Rightarrow> 'u URI \<Rightarrow> 'w option" where
  "uri_username read uri = (case uri of Some components \<Rightarrow> read (authority_part components) | None \<Rightarrow> None)"

subsection \<open>The builder\<close>

definition builder_authority :: "'u \<Rightarrow> 'u uri_builder \<Rightarrow> 'u uri_builder" where
  "builder_authority authority b = b\<lparr>ub_authority := Some authority\<rparr>"

definition builder_path :: "'u \<Rightarrow> 'u uri_builder \<Rightarrow> 'u uri_builder" where
  "builder_path path b = b\<lparr>ub_path := Some path\<rparr>"

definition builder_query :: "'u option \<Rightarrow> 'u uri_builder \<Rightarrow> 'u uri_builder" where
  "builder_query query b = b\<lparr>ub_query := query\<rparr>"

definition builder_scheme :: "Scheme \<Rightarrow> 'u uri_builder \<Rightarrow> 'u uri_builder" where
  "builder_scheme scheme b = b\<lparr>ub_scheme := Some scheme\<rparr>"

subsection \<open>Facts\<close>

text \<open>An absent part is reported as absent, and only the asterisk is without authority.\<close>

lemma uri_parts_present:
  "uri_has_authority uri \<longleftrightarrow> uri_authority uri \<noteq> None" "uri_has_authority uri \<longleftrightarrow> \<not> uri_is_asterisk uri"
  "uri_has_host uri \<longleftrightarrow> uri_host U uri \<noteq> None" "uri_has_query uri \<longleftrightarrow> uri_query uri \<noteq> None"
  "(\<And>a. has a \<longleftrightarrow> up_port U a \<noteq> None) \<Longrightarrow> uri_has_port has uri \<longleftrightarrow> uri_port U uri \<noteq> None"
  "(\<And>a. has a \<longleftrightarrow> read a \<noteq> None) \<Longrightarrow> uri_has_password has uri \<longleftrightarrow> uri_password read uri \<noteq> None"
  "(\<And>a. has a \<longleftrightarrow> read a \<noteq> None) \<Longrightarrow> uri_has_username has uri \<longleftrightarrow> uri_username read uri \<noteq> None"
  by (auto simp: uri_has_authority_def uri_authority_def uri_is_asterisk_def uri_has_host_def uri_host_def uri_has_query_def
      uri_query_def uri_has_port_def uri_port_def uri_has_password_def uri_password_def uri_has_username_def
      uri_username_def split: option.split)

text \<open>Setting all parts is building from them, and a request URI is rebuilt by setting its parts.\<close>

lemma builder_from_parts:
  "uri_build U (builder_query query (builder_path path (builder_authority authority (builder_scheme scheme uri_builder_new)))) =
     uri_from_parts U scheme authority path query"
  by (simp add: uri_from_parts_def builder_query_def builder_path_def builder_authority_def builder_scheme_def uri_builder_new_def)

lemma builder_missing:
  "uri_build U (builder_path path (builder_authority authority uri_builder_new)) = Some (Err UriMissingScheme)"
  "uri_build U (builder_path path (builder_scheme scheme uri_builder_new)) = Some (Err UriMissingAuthority)"
  "uri_build U (builder_authority authority (builder_scheme scheme uri_builder_new)) = Some (Err UriMissingPath)"
  by (simp_all add: uri_build_def builder_path_def builder_authority_def builder_scheme_def uri_builder_new_def)

end
