(* ===== verification/Std.thy ===== *)
theory Std
  imports Prelude
begin

text \<open>
  The parts of the Rust standard library that the program computes with: ASCII case on bytes,
  decimal printing and \<open>str::parse\<close> of unsigned integers, and UTF-8 validation
  (\<open>str::from_utf8\<close> followed by \<open>str::chars\<close>).
\<close>

subsection \<open>ASCII case\<close>

definition is_ascii :: "byte \<Rightarrow> bool" where
  "is_ascii c \<longleftrightarrow> u8 c < 128"

definition to_ascii_uppercase :: "byte \<Rightarrow> byte" where
  "to_ascii_uppercase c = (if 97 \<le> u8 c \<and> u8 c \<le> 122 then char_of (u8 c - 32) else c)"

definition to_ascii_lowercase :: "byte \<Rightarrow> byte" where
  "to_ascii_lowercase c = (if 65 \<le> u8 c \<and> u8 c \<le> 90 then char_of (u8 c + 32) else c)"

abbreviation upper :: "bytes \<Rightarrow> bytes" where "upper \<equiv> map to_ascii_uppercase"
abbreviation lower :: "bytes \<Rightarrow> bytes" where "lower \<equiv> map to_ascii_lowercase"

definition eq_ignore_ascii_case :: "bytes \<Rightarrow> bytes \<Rightarrow> bool" where
  "eq_ignore_ascii_case a b \<longleftrightarrow> lower a = lower b"

lemmas ascii_case_defs [byte_simps] =
  is_ascii_def to_ascii_uppercase_def to_ascii_lowercase_def eq_ignore_ascii_case_def char_of_def

lemma u8_upper: "u8 (to_ascii_uppercase c) = (if 97 \<le> u8 c \<and> u8 c \<le> 122 then u8 c - 32 else u8 c)"
  by (auto simp: to_ascii_uppercase_def of_char_of less_imp_diff_less)

lemma u8_lower: "u8 (to_ascii_lowercase c) = (if 65 \<le> u8 c \<and> u8 c \<le> 90 then u8 c + 32 else u8 c)"
  by (simp add: to_ascii_lowercase_def of_char_of)

lemma upper_upper [simp]: "to_ascii_uppercase (to_ascii_uppercase c) = to_ascii_uppercase c"
  unfolding u8_eq_iff [symmetric] u8_upper by auto

lemma lower_lower [simp]: "to_ascii_lowercase (to_ascii_lowercase c) = to_ascii_lowercase c"
  unfolding u8_eq_iff [symmetric] u8_lower by auto

lemma lower_upper [simp]: "to_ascii_lowercase (to_ascii_uppercase c) = to_ascii_lowercase c"
  unfolding u8_eq_iff [symmetric] u8_lower u8_upper by auto

lemma upper_lower [simp]: "to_ascii_uppercase (to_ascii_lowercase c) = to_ascii_uppercase c"
  unfolding u8_eq_iff [symmetric] u8_lower u8_upper by auto

lemma map_upper_upper [simp]: "upper (upper s) = upper s"
  by (simp add: comp_def)

lemma map_lower_lower [simp]: "lower (lower s) = lower s"
  by (simp add: comp_def)

lemma map_lower_upper [simp]: "lower (upper s) = lower s"
  by (simp add: comp_def)

lemma map_upper_lower [simp]: "upper (lower s) = upper s"
  by (simp add: comp_def)

lemma eq_ignore_ascii_case_refl [simp]: "eq_ignore_ascii_case a a"
  by (simp add: eq_ignore_ascii_case_def)

lemma eq_ignore_ascii_case_sym: "eq_ignore_ascii_case a b \<longleftrightarrow> eq_ignore_ascii_case b a"
  by (auto simp: eq_ignore_ascii_case_def)

lemma eq_ignore_ascii_case_trans:
  "eq_ignore_ascii_case a b \<Longrightarrow> eq_ignore_ascii_case b c \<Longrightarrow> eq_ignore_ascii_case a c"
  by (simp add: eq_ignore_ascii_case_def)

subsection \<open>Decimal numbers\<close>

fun decimal :: "nat \<Rightarrow> bytes" where
  "decimal n = (if n < 10 then [char_of (48 + n)] else decimal (n div 10) @ [char_of (48 + n mod 10)])"

declare decimal.simps [simp del]

definition to_digit :: "byte \<Rightarrow> nat option" where
  "to_digit c = (if 48 \<le> u8 c \<and> u8 c \<le> 57 then Some (u8 c - 48) else None)"

datatype int_error_kind = IntEmpty | IntInvalidDigit | IntPosOverflow

text \<open>
  \<open>from_str_radix(s, 10)\<close> of an unsigned type whose largest value is \<open>mx\<close>: the empty string
  and a lone sign are rejected, one leading plus sign is skipped, and every digit is checked
  before the multiplication and the addition are checked for overflow.
\<close>

fun parse_digits :: "nat \<Rightarrow> nat \<Rightarrow> bytes \<Rightarrow> int_error_kind + nat" where
  "parse_digits mx acc [] = Ok acc"
| "parse_digits mx acc (c # cs) =
     (case to_digit c of
        None \<Rightarrow> Err IntInvalidDigit
      | Some d \<Rightarrow> if acc * 10 + d > mx then Err IntPosOverflow else parse_digits mx (acc * 10 + d) cs)"

definition parse_uint :: "nat \<Rightarrow> bytes \<Rightarrow> int_error_kind + nat" where
  "parse_uint mx s =
     (if s = [] then Err IntEmpty
      else if s = ''+'' \<or> s = ''-'' then Err IntInvalidDigit
      else parse_digits mx 0 (if hd s = CHR ''+'' then tl s else s))"

abbreviation u32_max :: nat where "u32_max \<equiv> 4294967295"
abbreviation u64_max :: nat where "u64_max \<equiv> 18446744073709551615"

lemma to_digit_char_of: "d < 10 \<Longrightarrow> to_digit (char_of (48 + d)) = Some d"
  by (simp add: to_digit_def of_char_of)

lemma parse_digits_append:
  "parse_digits mx acc (xs @ ys) =
     (case parse_digits mx acc xs of Err e \<Rightarrow> Err e | Ok a \<Rightarrow> parse_digits mx a ys)"
  by (induction xs arbitrary: acc) (auto split: option.splits)

lemma decimal_nonempty [simp]: "decimal n \<noteq> []"
  by (subst decimal.simps) simp

lemma decimal_digits: "c \<in> set (decimal n) \<Longrightarrow> 48 \<le> u8 c \<and> u8 c \<le> 57"
proof (induction n rule: decimal.induct)
  case (1 n)
  show ?case
  proof (cases "n < 10")
    case True
    with "1.prems" show ?thesis by (simp add: decimal.simps [of n] of_char_of)
  next
    case False
    have "n mod 10 < 10" by simp
    with False "1" show ?thesis by (auto simp: decimal.simps [of n] of_char_of)
  qed
qed

lemma parse_digits_decimal: "n \<le> mx \<Longrightarrow> parse_digits mx 0 (decimal n) = Ok n"
proof (induction n rule: decimal.induct)
  case (1 n)
  show ?case
  proof (cases "n < 10")
    case True
    with "1.prems" show ?thesis by (simp add: decimal.simps [of n] to_digit_char_of)
  next
    case False
    with "1" have "parse_digits mx 0 (decimal (n div 10)) = Ok (n div 10)" by simp
    moreover have "n div 10 * 10 + n mod 10 = n" by (rule div_mult_mod_eq)
    ultimately show ?thesis using False "1.prems"
      by (simp add: decimal.simps [of n] parse_digits_append to_digit_char_of)
  qed
qed

text \<open>Printing a number and parsing it gives it back, for every number that fits.\<close>

lemma parse_uint_decimal: "n \<le> mx \<Longrightarrow> parse_uint mx (decimal n) = Ok n"
proof -
  assume le: "n \<le> mx"
  have dig: "48 \<le> u8 c" if "c \<in> set (decimal n)" for c
    using decimal_digits [OF that] by simp
  have "CHR ''+'' \<notin> set (decimal n)" "CHR ''-'' \<notin> set (decimal n)"
    using dig [of "CHR ''+''"] dig [of "CHR ''-''"] by auto
  moreover from this have "hd (decimal n) \<noteq> CHR ''+''"
    using list.set_sel(1) [OF decimal_nonempty] by metis
  ultimately show ?thesis
    using le by (auto simp: parse_uint_def parse_digits_decimal)
qed

lemma parse_digits_bound: "parse_digits mx acc s = Ok n \<Longrightarrow> acc \<le> mx \<Longrightarrow> n \<le> mx"
  by (induction s arbitrary: acc) (auto split: option.splits if_splits)

lemma parse_uint_bound: "parse_uint mx s = Ok n \<Longrightarrow> n \<le> mx"
  by (auto simp: parse_uint_def split: if_splits dest: parse_digits_bound)

subsection \<open>UTF-8\<close>

definition is_cont :: "byte \<Rightarrow> bool" where
  "is_cont c \<longleftrightarrow> 128 \<le> u8 c \<and> u8 c \<le> 191"

text \<open>
  \<open>utf8_chars\<close> is \<open>str::from_utf8\<close> followed by \<open>chars\<close>: \<^const>\<open>None\<close> when the bytes are not
  UTF-8 (overlong forms, surrogates and values above 10FFFF included), otherwise the list of
  code points.
\<close>

fun utf8_chars :: "bytes \<Rightarrow> nat list option" where
  "utf8_chars [] = Some []"
| "utf8_chars (a # r) =
     (let x = u8 a in
      if x < 128 then map_option ((#) x) (utf8_chars r)
      else if x < 194 then None
      else if x < 224 then
        (case r of
           b # r' \<Rightarrow>
             if is_cont b
             then map_option ((#) ((x - 192) * 64 + (u8 b - 128))) (utf8_chars r')
             else None
         | _ \<Rightarrow> None)
      else if x < 240 then
        (case r of
           b # c # r' \<Rightarrow>
             if is_cont b \<and> is_cont c \<and> (x = 224 \<longrightarrow> 160 \<le> u8 b) \<and> (x = 237 \<longrightarrow> u8 b < 160)
             then map_option ((#) ((x - 224) * 4096 + (u8 b - 128) * 64 + (u8 c - 128)))
                    (utf8_chars r')
             else None
         | _ \<Rightarrow> None)
      else if x < 245 then
        (case r of
           b # c # d # r' \<Rightarrow>
             if is_cont b \<and> is_cont c \<and> is_cont d \<and> (x = 240 \<longrightarrow> 144 \<le> u8 b)
                \<and> (x = 244 \<longrightarrow> u8 b < 144)
             then map_option ((#) ((x - 240) * 262144 + (u8 b - 128) * 4096
                    + (u8 c - 128) * 64 + (u8 d - 128))) (utf8_chars r')
             else None
         | _ \<Rightarrow> None)
      else None)"

declare utf8_chars.simps(2) [simp del]

lemma utf8_chars_ascii: "\<forall>c \<in> set s. is_ascii c \<Longrightarrow> utf8_chars s = Some (map u8 s)"
  by (induction s) (simp_all add: utf8_chars.simps(2) is_ascii_def)

lemma utf8_chars_ascii_Cons [simp]:
  "u8 a < 128 \<Longrightarrow> utf8_chars (a # r) = map_option ((#) (u8 a)) (utf8_chars r)"
  by (simp add: utf8_chars.simps(2))

text \<open>The characters of a \<open>str\<close>, whose bytes are UTF-8 by its type.\<close>

definition chars :: "bytes \<Rightarrow> nat list" where
  "chars s = (case utf8_chars s of Some cs \<Rightarrow> cs | None \<Rightarrow> [])"

lemma cont_not_ascii: "is_cont b \<Longrightarrow> \<not> u8 b < 128"
  by (simp add: is_cont_def)

lemma code_point_bounds:
  fixes x :: nat
  shows "194 \<le> x \<Longrightarrow> 128 \<le> (x - 192) * 64 + b"
    "224 \<le> x \<Longrightarrow> (x = 224 \<longrightarrow> 160 \<le> b) \<Longrightarrow> 128 \<le> (x - 224) * 4096 + (b - 128) * 64 + c"
    "240 \<le> x \<Longrightarrow> (x = 240 \<longrightarrow> 144 \<le> b)
       \<Longrightarrow> 128 \<le> (x - 240) * 262144 + (b - 128) * 4096 + c * 64 + d"
  by (cases "x = 224"; cases "x = 240"; simp)+

text \<open>A character that is not ASCII takes its first byte and continuation bytes.\<close>

lemma utf8_chars_multi:
  assumes "utf8_chars (a # r) = Some cs" "\<not> u8 a < 128"
  shows "\<exists>k p r' cs'. r = p @ r' \<and> (\<forall>c \<in> set p. \<not> u8 c < 128) \<and> utf8_chars r' = Some cs'
    \<and> cs = k # cs' \<and> \<not> k < 128"
proof -
  note bounds = code_point_bounds [THEN leD] cont_not_ascii
  from assms consider
      (two) b r' cs' where "r = b # r'" "utf8_chars r' = Some cs'" "is_cont b"
        "cs = ((u8 a - 192) * 64 + (u8 b - 128)) # cs'" "194 \<le> u8 a"
    | (three) b c r' cs' where "r = b # c # r'" "utf8_chars r' = Some cs'" "is_cont b" "is_cont c"
        "cs = ((u8 a - 224) * 4096 + (u8 b - 128) * 64 + (u8 c - 128)) # cs'"
        "224 \<le> u8 a" "u8 a = 224 \<longrightarrow> 160 \<le> u8 b"
    | (four) b c d r' cs' where "r = b # c # d # r'" "utf8_chars r' = Some cs'"
        "is_cont b" "is_cont c" "is_cont d"
        "cs = ((u8 a - 240) * 262144 + (u8 b - 128) * 4096 + (u8 c - 128) * 64 + (u8 d - 128)) # cs'"
        "240 \<le> u8 a" "u8 a = 240 \<longrightarrow> 144 \<le> u8 b"
    by (subst (asm) utf8_chars.simps)
       (auto simp: Let_def split: if_splits list.splits)
  then show ?thesis
  proof cases
    case two
    then show ?thesis
      by - (rule exI [of _ "hd cs"], rule exI [of _ "[b]"], simp add: bounds)
  next
    case three
    then show ?thesis
      by - (rule exI [of _ "hd cs"], rule exI [of _ "[b, c]"], simp add: bounds)
  next
    case four
    then show ?thesis
      by - (rule exI [of _ "hd cs"], rule exI [of _ "[b, c, d]"], simp add: bounds)
  qed
qed

text \<open>The characters below 128 of a valid string are its bytes below 128.\<close>

lemma utf8_chars_ascii_bytes:
  "utf8_chars s = Some cs \<Longrightarrow>
     (\<forall>x \<in> set cs. x < 128 \<longrightarrow> P x) \<longleftrightarrow> (\<forall>c \<in> set s. u8 c < 128 \<longrightarrow> P (u8 c))"
proof (induction s arbitrary: cs rule: length_induct)
  case (1 s)
  show ?case
  proof (cases s)
    case Nil
    with 1 show ?thesis by simp
  next
    case (Cons a r)
    show ?thesis
    proof (cases "u8 a < 128")
      case True
      with 1 Cons show ?thesis by fastforce
    next
      case False
      with "1.prems" Cons obtain k p r' cs' where split: "r = p @ r'" "\<forall>c \<in> set p. \<not> u8 c < 128"
        "utf8_chars r' = Some cs'" "cs = k # cs'" "\<not> k < 128"
        using utf8_chars_multi [of a r cs] by blast
      with "1.IH" Cons have "(\<forall>x \<in> set cs'. x < 128 \<longrightarrow> P x) \<longleftrightarrow> (\<forall>c \<in> set r'. u8 c < 128 \<longrightarrow> P (u8 c))"
        by simp
      with split Cons False show ?thesis by auto
    qed
  qed
qed

end
