(* ===== verification/Syntax.thy ===== *)
theory Syntax
  imports Std
begin

text \<open>
  The lexical helpers of \<^verbatim>\<open>rtsp-2/src/syntax.rs\<close>: the token character table, the token test
  and the two families of whitespace trimming (on byte slices and on strings). The loops of the
  source run until a pass leaves the length unchanged; here they carry that length (\<open>old\<close>) as
  an argument, and both families are shown to compute the same stripping function.
\<close>

subsection \<open>Tokens\<close>

definition TOKEN_CHAR_MAP :: "nat list" where
  "TOKEN_CHAR_MAP = [
    0, 0, 0, 0, 0, 0, 0, 0, 0, 0, 0, 0, 0, 0, 0, 0,
    0, 0, 0, 0, 0, 0, 0, 0, 0, 0, 0, 0, 0, 0, 0, 0,
    0, 33, 0, 35, 36, 37, 38, 39, 0, 0, 42, 43, 0, 45, 46, 0,
    48, 49, 50, 51, 52, 53, 54, 55, 56, 57, 0, 0, 0, 0, 0, 0,
    0, 65, 66, 67, 68, 69, 70, 71, 72, 73, 74, 75, 76, 77, 78, 79,
    80, 81, 82, 83, 84, 85, 86, 87, 88, 89, 90, 0, 0, 0, 94, 95,
    0, 97, 98, 99, 100, 101, 102, 103, 104, 105, 106, 107, 108, 109, 110, 111,
    112, 113, 114, 115, 116, 117, 118, 119, 120, 121, 122, 0, 124, 0, 126, 0,
    0, 0, 0, 0, 0, 0, 0, 0, 0, 0, 0, 0, 0, 0, 0, 0,
    0, 0, 0, 0, 0, 0, 0, 0, 0, 0, 0, 0, 0, 0, 0, 0,
    0, 0, 0, 0, 0, 0, 0, 0, 0, 0, 0, 0, 0, 0, 0, 0,
    0, 0, 0, 0, 0, 0, 0, 0, 0, 0, 0, 0, 0, 0, 0, 0,
    0, 0, 0, 0, 0, 0, 0, 0, 0, 0, 0, 0, 0, 0, 0, 0,
    0, 0, 0, 0, 0, 0, 0, 0, 0, 0, 0, 0, 0, 0, 0, 0,
    0, 0, 0, 0, 0, 0, 0, 0, 0, 0, 0, 0, 0, 0, 0, 0,
    0, 0, 0, 0, 0, 0, 0, 0, 0, 0, 0, 0, 0, 0, 0, 0]"

fun is_token_loop :: "bytes \<Rightarrow> bool" where
  "is_token_loop [] = True"
| "is_token_loop (b # bs) = (if TOKEN_CHAR_MAP ! u8 b = 0 then False else is_token_loop bs)"

definition is_token :: "bytes \<Rightarrow> bool" where
  "is_token token = (if token = [] then False else is_token_loop token)"

text \<open>The character class of the table, as ranges.\<close>

definition token_value :: "nat \<Rightarrow> bool" where
  "token_value x \<longleftrightarrow>
     x = 33 \<or> (35 \<le> x \<and> x \<le> 39) \<or> x = 42 \<or> x = 43 \<or> x = 45 \<or> x = 46 \<or> (48 \<le> x \<and> x \<le> 57)
     \<or> (65 \<le> x \<and> x \<le> 90) \<or> x = 94 \<or> x = 95 \<or> (97 \<le> x \<and> x \<le> 122) \<or> x = 124 \<or> x = 126"

definition token_char :: "byte \<Rightarrow> bool" where
  "token_char c \<longleftrightarrow> token_value (u8 c)"

text \<open>The class written in the grammar that the comments of \<^verbatim>\<open>method.rs\<close> quote.\<close>

definition rfc_token_char :: "byte \<Rightarrow> bool" where
  "rfc_token_char c \<longleftrightarrow>
     (let x = u8 c in
      x = 33 \<or> (35 \<le> x \<and> x \<le> 39) \<or> x = 42 \<or> x = 43 \<or> x = 45 \<or> x = 46 \<or> (48 \<le> x \<and> x \<le> 57)
      \<or> (65 \<le> x \<and> x \<le> 90) \<or> (94 \<le> x \<and> x \<le> 122) \<or> x = 124 \<or> x = 126)"

lemmas numeral_comparison = eq_numeral_simps le_numeral_simps Suc_numeral One_nat_def [symmetric]
  rel_simps add_num_simps not_numeral_le_zero zero_neq_numeral numeral_One [symmetric]

lemma length_token_table: "length TOKEN_CHAR_MAP = 256"
  unfolding TOKEN_CHAR_MAP_def
  by (simp only: length_Cons list.size(3) numeral_comparison)

fun table_from :: "nat \<Rightarrow> nat list \<Rightarrow> bool" where
  "table_from n [] = True"
| "table_from n (v # vs) = (if v = (if token_value n then n else 0) then table_from (Suc n) vs else False)"

lemma token_table_ranges: "table_from 0 TOKEN_CHAR_MAP"
  unfolding TOKEN_CHAR_MAP_def
  by (simp only: table_from.simps token_value_def simp_thms if_True if_False numeral_comparison)

lemma table_from_nth:
  "table_from n vs \<Longrightarrow> i < length vs \<Longrightarrow> vs ! i = (if token_value (n + i) then n + i else 0)"
  by (induction n vs arbitrary: i rule: table_from.induct)
     (auto simp: nth_Cons split: if_splits nat.splits)

lemma token_table_nth: "TOKEN_CHAR_MAP ! u8 c = (if token_char c then u8 c else 0)"
  using table_from_nth [OF token_table_ranges, of "u8 c"]
  by (simp add: token_char_def length_token_table)

lemma token_table [simp]: "TOKEN_CHAR_MAP ! u8 c = 0 \<longleftrightarrow> \<not> token_char c"
  by (auto simp: token_table_nth token_char_def token_value_def)

lemma is_token_iff: "is_token s \<longleftrightarrow> s \<noteq> [] \<and> (\<forall>c \<in> set s. token_char c)"
proof -
  have "is_token_loop s \<longleftrightarrow> (\<forall>c \<in> set s. token_char c)" by (induction s) auto
  then show ?thesis by (simp add: is_token_def)
qed

lemma token_char_ascii: "token_char c \<Longrightarrow> is_ascii c"
  by (auto simp: token_char_def token_value_def is_ascii_def)

lemma token_value_letters:
  "97 \<le> x \<Longrightarrow> x \<le> 122 \<Longrightarrow> token_value x" "65 \<le> x \<Longrightarrow> x \<le> 90 \<Longrightarrow> token_value x"
  by (simp_all add: token_value_def)

lemma token_value_shifted:
  "97 \<le> x \<Longrightarrow> x \<le> 122 \<Longrightarrow> token_value (x - 32)" "65 \<le> x \<Longrightarrow> x \<le> 90 \<Longrightarrow> token_value (x + 32)"
  by (rule token_value_letters; arith)+

lemma token_char_upper [simp]: "token_char (to_ascii_uppercase c) \<longleftrightarrow> token_char c"
  by (simp add: token_char_def u8_upper token_value_letters token_value_shifted)

lemma token_char_lower [simp]: "token_char (to_ascii_lowercase c) \<longleftrightarrow> token_char c"
  by (simp add: token_char_def u8_lower token_value_letters token_value_shifted)

lemma token_char_delims [simp]:
  "\<not> token_char SP" "\<not> token_char HT" "\<not> token_char CR" "\<not> token_char LF" "\<not> token_char COLON"
  by (simp_all add: token_char_def token_value_def byte_consts)

lemma is_token_upper [simp]: "is_token (upper s) \<longleftrightarrow> is_token s"
  by (simp add: is_token_iff)

lemma is_token_lower [simp]: "is_token (lower s) \<longleftrightarrow> is_token s"
  by (simp add: is_token_iff)

lemma token_no_delims:
  "is_token s \<Longrightarrow> SP \<notin> set s" "is_token s \<Longrightarrow> HT \<notin> set s" "is_token s \<Longrightarrow> CR \<notin> set s"
  "is_token s \<Longrightarrow> LF \<notin> set s" "is_token s \<Longrightarrow> COLON \<notin> set s"
  using token_char_delims by (auto simp: is_token_iff)

subsection \<open>Trimming byte slices\<close>

definition is_blank :: "byte \<Rightarrow> bool" where
  "is_blank c \<longleftrightarrow> c = SP \<or> c = HT"

definition trim_left_pass :: "bytes \<Rightarrow> bytes" where
  "trim_left_pass value =
     (let value = (if starts_with value CRLF then drop 2 value else value)
      in if starts_with value [SP] \<or> starts_with value [HT] then drop 1 value else value)"

function trim_left_loop :: "nat \<Rightarrow> bytes \<Rightarrow> bytes" where
  "trim_left_loop old value =
     (if length value \<noteq> old then trim_left_loop (length value) (trim_left_pass value) else value)"
  by pat_completeness auto
termination
  by (relation "measure (\<lambda>(old, v). 2 * length v + (if length v = old then 0 else 1))")
     (auto simp: trim_left_pass_def Let_def)

definition trim_bytes_whitespace_left :: "bytes \<Rightarrow> bytes" where
  "trim_bytes_whitespace_left value = trim_left_loop 0 value"

definition trim_right_pass :: "bytes \<Rightarrow> bytes" where
  "trim_right_pass value =
     (let value = (if ends_with value CRLF then take (length value - 2) value else value)
      in if ends_with value [SP] \<or> ends_with value [HT] then take (length value - 1) value else value)"

function trim_right_loop :: "nat \<Rightarrow> bytes \<Rightarrow> bytes" where
  "trim_right_loop old value =
     (if length value \<noteq> old then trim_right_loop (length value) (trim_right_pass value) else value)"
  by pat_completeness auto
termination
  by (relation "measure (\<lambda>(old, v). 2 * length v + (if length v = old then 0 else 1))")
     (auto simp: trim_right_pass_def Let_def ends_with_def)

definition trim_bytes_whitespace_right :: "bytes \<Rightarrow> bytes" where
  "trim_bytes_whitespace_right value = trim_right_loop 0 value"

definition trim_bytes_whitespace :: "bytes \<Rightarrow> bytes" where
  "trim_bytes_whitespace value = trim_bytes_whitespace_right (trim_bytes_whitespace_left value)"

subsection \<open>Trimming strings\<close>

text \<open>\<open>str::trim_start_matches\<close> with a string pattern and with a character predicate.\<close>

fun trim_start_pair :: "byte \<Rightarrow> byte \<Rightarrow> bytes \<Rightarrow> bytes" where
  "trim_start_pair a b (c # d # r) = (if c = a \<and> d = b then trim_start_pair a b r else c # d # r)"
| "trim_start_pair a b s = s"

definition trim_start_crlf :: "bytes \<Rightarrow> bytes" where
  "trim_start_crlf s = trim_start_pair CR LF s"

definition trim_start_blank :: "bytes \<Rightarrow> bytes" where
  "trim_start_blank s = dropWhile is_blank s"

definition trim_end_crlf :: "bytes \<Rightarrow> bytes" where
  "trim_end_crlf s = rev (trim_start_pair LF CR (rev s))"

definition trim_end_blank :: "bytes \<Rightarrow> bytes" where
  "trim_end_blank s = rev (dropWhile is_blank (rev s))"

lemma length_trim_start_pair: "length (trim_start_pair a b s) \<le> length s"
  by (induction a b s rule: trim_start_pair.induct) auto

lemma length_trim_pass:
  "length (trim_start_blank (trim_start_crlf s)) \<le> length s"
  "length (trim_end_blank (trim_end_crlf s)) \<le> length s"
  using length_trim_start_pair [of CR LF s] length_trim_start_pair [of LF CR "rev s"]
  by (auto simp: trim_start_blank_def trim_end_blank_def trim_end_crlf_def trim_start_crlf_def
      intro: order_trans [OF length_dropWhile_le])

function trim_str_left_loop :: "nat \<Rightarrow> bytes \<Rightarrow> bytes" where
  "trim_str_left_loop old string =
     (if length string \<noteq> old
      then trim_str_left_loop (length string) (trim_start_blank (trim_start_crlf string))
      else string)"
  by pat_completeness auto
termination
proof (relation "measure (\<lambda>(old, v). 2 * length v + (if length v = old then 0 else 1))")
  fix old :: nat and s :: bytes
  assume "length s \<noteq> old"
  then show "((length s, trim_start_blank (trim_start_crlf s)), (old, s))
    \<in> measure (\<lambda>(old, v). 2 * length v + (if length v = old then 0 else 1))"
    using length_trim_pass(1) [of s] by auto
qed simp

definition trim_whitespace_left :: "bytes \<Rightarrow> bytes" where
  "trim_whitespace_left string = trim_str_left_loop 0 string"

function trim_str_right_loop :: "nat \<Rightarrow> bytes \<Rightarrow> bytes" where
  "trim_str_right_loop old string =
     (if length string \<noteq> old
      then trim_str_right_loop (length string) (trim_end_blank (trim_end_crlf string))
      else string)"
  by pat_completeness auto
termination
proof (relation "measure (\<lambda>(old, v). 2 * length v + (if length v = old then 0 else 1))")
  fix old :: nat and s :: bytes
  assume "length s \<noteq> old"
  then show "((length s, trim_end_blank (trim_end_crlf s)), (old, s))
    \<in> measure (\<lambda>(old, v). 2 * length v + (if length v = old then 0 else 1))"
    using length_trim_pass(2) [of s] by auto
qed simp

definition trim_whitespace_right :: "bytes \<Rightarrow> bytes" where
  "trim_whitespace_right string = trim_str_right_loop 0 string"

definition trim_whitespace :: "bytes \<Rightarrow> bytes" where
  "trim_whitespace string = trim_whitespace_right (trim_whitespace_left string)"

declare trim_left_loop.simps [simp del] trim_right_loop.simps [simp del]
  trim_str_left_loop.simps [simp del] trim_str_right_loop.simps [simp del]

subsection \<open>What trimming computes\<close>

text \<open>
  The reference: \<open>strip a b\<close> removes blanks and the two-byte sequence \<open>a b\<close> from the front for
  as long as it can. The left trims are \<open>strip CR LF\<close>, the right trims are \<open>strip LF CR\<close> on the
  reversed slice.
\<close>

fun strip :: "byte \<Rightarrow> byte \<Rightarrow> bytes \<Rightarrow> bytes" where
  "strip a b [] = []"
| "strip a b [c] = (if is_blank c then [] else [c])"
| "strip a b (c # d # r) =
     (if c = a \<and> d = b then strip a b r else if is_blank c then strip a b (d # r) else c # d # r)"

definition strip_left :: "bytes \<Rightarrow> bytes" where
  "strip_left s = strip CR LF s"

definition strip_right :: "bytes \<Rightarrow> bytes" where
  "strip_right s = rev (strip LF CR (rev s))"

lemma is_blank_simps [simp]: "is_blank SP" "is_blank HT" "\<not> is_blank CR" "\<not> is_blank LF"
  by (simp_all add: is_blank_def)

lemma starts_with_blank: "starts_with s [SP] \<or> starts_with s [HT] \<longleftrightarrow> s \<noteq> [] \<and> is_blank (hd s)"
  by (cases s) (auto simp: is_blank_def)

text \<open>One pass of a left trim, for a terminator \<open>a b\<close>.\<close>

definition strip_pass :: "byte \<Rightarrow> byte \<Rightarrow> bytes \<Rightarrow> bytes" where
  "strip_pass a b s =
     (let s = (if starts_with s [a, b] then drop 2 s else s)
      in if s \<noteq> [] \<and> is_blank (hd s) then tl s else s)"

lemma strip_blank [simp]:
  "\<not> is_blank a \<Longrightarrow> is_blank c \<Longrightarrow> strip a b (c # s) = strip a b s"
  by (cases s) auto

lemma strip_strip_pass:
  assumes "\<not> is_blank a"
  shows "strip a b (strip_pass a b s) = strip a b s"
  using assms
  by (cases "(a, b, s)" rule: strip.cases) (auto simp: strip_pass_def neq_Nil_conv Let_def)

lemma strip_pass_fixed:
  "length (strip_pass a b s) = length s \<Longrightarrow> strip a b s = s"
  by (cases "(a, b, s)" rule: strip.cases)
     (auto simp: strip_pass_def Let_def split: if_splits)

lemma strip_loop_step:
  assumes "\<not> is_blank a" "length s = old \<longrightarrow> strip a b s = s"
  shows "length s = old \<Longrightarrow> strip a b s = s"
    "length (strip_pass a b s) = length s \<longrightarrow> strip a b (strip_pass a b s) = strip_pass a b s"
proof -
  show "strip a b s = s" if "length s = old" using assms(2) that by simp
  have "strip_pass a b s = s" if "length (strip_pass a b s) = length s"
    using that starts_with_length [of s "[a, b]"]
    by (cases s) (auto simp: strip_pass_def Let_def split: if_splits)
  then show "length (strip_pass a b s) = length s
      \<longrightarrow> strip a b (strip_pass a b s) = strip_pass a b s"
    using strip_pass_fixed by metis
qed

lemma trim_left_pass_eq: "trim_left_pass s = strip_pass CR LF s"
  unfolding trim_left_pass_def strip_pass_def starts_with_blank by (simp add: drop_Suc Let_def)

lemma trim_left_loop_strip:
  "(length s = old \<longrightarrow> strip CR LF s = s) \<Longrightarrow> trim_left_loop old s = strip CR LF s"
proof (induction old s rule: trim_left_loop.induct)
  case (1 old s)
  show ?case
  proof (cases "length s = old")
    case True
    with 1 show ?thesis by (simp add: trim_left_loop.simps [of old s])
  next
    case False
    have "length (strip_pass CR LF s) = length s \<longrightarrow>
        strip CR LF (strip_pass CR LF s) = strip_pass CR LF s"
      using strip_loop_step(2) [OF _ "1.prems"] by simp
    with False 1 show ?thesis
      by (simp add: trim_left_loop.simps [of old s] trim_left_pass_eq strip_strip_pass)
  qed
qed

lemma trim_bytes_whitespace_left_eq: "trim_bytes_whitespace_left s = strip_left s"
  by (simp add: trim_bytes_whitespace_left_def strip_left_def trim_left_loop_strip)

lemma ends_with_rev: "ends_with s p = starts_with (rev s) (rev p)"
  by (auto simp: ends_with_iff starts_with_iff) (metis rev_append rev_rev_ident)

lemma trim_right_pass_eq: "rev (trim_right_pass s) = strip_pass LF CR (rev s)"
proof -
  have rev_cut: "rev (take (length t - n) t) = drop n (rev t)" for t :: bytes and n
    by (simp add: drop_rev)
  have "rev (if ends_with t [SP] \<or> ends_with t [HT] then take (length t - 1) t else t)
      = (if rev t \<noteq> [] \<and> is_blank (hd (rev t)) then tl (rev t) else rev t)" for t
    unfolding ends_with_rev using starts_with_blank [of "rev t"] rev_cut [of t 1]
    by (simp add: drop_Suc)
  moreover have "rev (if ends_with s CRLF then take (length s - 2) s else s)
      = (if starts_with (rev s) [LF, CR] then drop 2 (rev s) else rev s)"
    unfolding ends_with_rev using rev_cut [of s 2] by simp
  ultimately show ?thesis
    unfolding trim_right_pass_def strip_pass_def Let_def by (simp only:)
qed

lemma trim_right_loop_strip:
  "(length s = old \<longrightarrow> strip LF CR (rev s) = rev s) \<Longrightarrow> rev (trim_right_loop old s) = strip LF CR (rev s)"
proof (induction old s rule: trim_right_loop.induct)
  case (1 old s)
  show ?case
  proof (cases "length s = old")
    case True
    with 1 show ?thesis by (simp add: trim_right_loop.simps [of old s])
  next
    case False
    have "length (strip_pass LF CR (rev s)) = length (rev s) \<longrightarrow>
        strip LF CR (strip_pass LF CR (rev s)) = strip_pass LF CR (rev s)"
      using strip_loop_step(2) [of LF "rev s" old CR] "1.prems" by simp
    then have "length (trim_right_pass s) = length s \<longrightarrow>
        strip LF CR (rev (trim_right_pass s)) = rev (trim_right_pass s)"
      by (metis length_rev trim_right_pass_eq)
    with "1.IH" False
    have "rev (trim_right_loop (length s) (trim_right_pass s)) = strip LF CR (rev (trim_right_pass s))"
      by blast
    then show ?thesis using False
      by (simp add: trim_right_loop.simps [of old s] trim_right_pass_eq strip_strip_pass)
  qed
qed

lemma trim_bytes_whitespace_right_eq: "trim_bytes_whitespace_right s = strip_right s"
  using trim_right_loop_strip [of s 0]
  by (simp add: trim_bytes_whitespace_right_def strip_right_def rev_swap)

text \<open>The loops over strings take off more in one pass, and reach the same result.\<close>

lemma strip_trim_start_pair: "strip a b (trim_start_pair a b s) = strip a b s"
  by (induction a b s rule: trim_start_pair.induct) auto

lemma strip_dropWhile_blank: "\<not> is_blank a \<Longrightarrow> strip a b (dropWhile is_blank s) = strip a b s"
  by (induction s) auto

lemma strip_str_pass:
  "\<not> is_blank a \<Longrightarrow> strip a b (dropWhile is_blank (trim_start_pair a b s)) = strip a b s"
  by (simp add: strip_dropWhile_blank strip_trim_start_pair)

lemma dropWhile_id_length: "length (dropWhile P s) = length s \<Longrightarrow> dropWhile P s = s"
  by (metis append_self_conv2 append_eq_append_conv takeWhile_dropWhile_id)

lemma trim_start_pair_suffix: "\<exists>p. s = p @ trim_start_pair a b s"
proof (induction a b s rule: trim_start_pair.induct)
  case (1 a b c d r)
  then show ?case
    by (cases "c = a \<and> d = b") (auto intro: exI [of _ "c # d # p" for p])
qed auto

lemma strip_str_pass_fixed:
  assumes "length (dropWhile is_blank (trim_start_pair a b s)) = length s"
  shows "dropWhile is_blank (trim_start_pair a b s) = s" "strip a b s = s"
proof -
  let ?t = "trim_start_pair a b s"
  have "length ?t = length s" "length (dropWhile is_blank ?t) = length ?t"
    using assms length_dropWhile_le [of is_blank ?t] length_trim_start_pair [of a b s] by linarith+
  moreover obtain p where "s = p @ ?t" using trim_start_pair_suffix by blast
  ultimately have t: "?t = s" "dropWhile is_blank ?t = ?t"
    by (metis append_self_conv2 append_eq_append_conv, metis dropWhile_id_length)
  then show "dropWhile is_blank ?t = s" by simp
  have "\<not> (\<exists>r. s = a # b # r)"
    using t(1) length_trim_start_pair [of a b] by (metis Suc_n_not_le_n Suc_leD length_Cons trim_start_pair.simps(1))
  with t show "strip a b s = s"
    by (cases "(a, b, s)" rule: strip.cases) (auto simp: dropWhile_eq_self_iff)
qed

lemma trim_str_left_loop_strip:
  "(length s = old \<longrightarrow> strip CR LF s = s) \<Longrightarrow> trim_str_left_loop old s = strip CR LF s"
proof (induction old s rule: trim_str_left_loop.induct)
  case (1 old s)
  show ?case
  proof (cases "length s = old")
    case True
    with 1 show ?thesis by (simp add: trim_str_left_loop.simps [of old s])
  next
    case False
    let ?t = "dropWhile is_blank (trim_start_pair CR LF s)"
    have "length ?t = length s \<longrightarrow> strip CR LF ?t = ?t"
      using strip_str_pass_fixed [of CR LF s] by (metis (no_types))
    with False 1 show ?thesis
      by (simp add: trim_str_left_loop.simps [of old s] trim_start_blank_def trim_start_crlf_def
          strip_str_pass)
  qed
qed

lemma trim_str_right_loop_strip:
  "(length s = old \<longrightarrow> strip LF CR (rev s) = rev s)
     \<Longrightarrow> rev (trim_str_right_loop old s) = strip LF CR (rev s)"
proof (induction old s rule: trim_str_right_loop.induct)
  case (1 old s)
  show ?case
  proof (cases "length s = old")
    case True
    with 1 show ?thesis by (simp add: trim_str_right_loop.simps [of old s])
  next
    case False
    let ?t = "dropWhile is_blank (trim_start_pair LF CR (rev s))"
    have "length ?t = length s \<longrightarrow> strip LF CR ?t = ?t"
      using strip_str_pass_fixed [of LF CR "rev s"] by (metis (no_types) length_rev)
    with False 1 show ?thesis
      by (simp add: trim_str_right_loop.simps [of old s] trim_end_blank_def trim_end_crlf_def
          strip_str_pass)
  qed
qed

lemma trim_whitespace_left_eq: "trim_whitespace_left s = strip_left s"
  by (simp add: trim_whitespace_left_def strip_left_def trim_str_left_loop_strip)

lemma trim_whitespace_right_eq: "trim_whitespace_right s = strip_right s"
  using trim_str_right_loop_strip [of s 0]
  by (simp add: trim_whitespace_right_def strip_right_def rev_swap)

lemmas trim_eqs = trim_bytes_whitespace_left_eq trim_bytes_whitespace_right_eq
  trim_whitespace_left_eq trim_whitespace_right_eq

subsection \<open>Facts about stripping\<close>

lemma strip_split: "\<exists>p. s = p @ strip a b s \<and> set p \<subseteq> {a, b, SP, HT}"
proof (induction a b s rule: strip.induct)
  case (3 a b c d r)
  consider "c = a \<and> d = b" | "\<not> (c = a \<and> d = b)" "is_blank c" | "\<not> (c = a \<and> d = b)" "\<not> is_blank c" by blast
  then show ?case
  proof cases
    case 1
    with "3.IH"(1) obtain p where "r = p @ strip a b r" "set p \<subseteq> {a, b, SP, HT}" by auto
    with 1 show ?thesis by (intro exI [of _ "c # d # p"]) auto
  next
    case 2
    with "3.IH"(2) obtain p where "d # r = p @ strip a b (d # r)" "set p \<subseteq> {a, b, SP, HT}" by auto
    with 2 show ?thesis by (intro exI [of _ "c # p"]) (auto simp: is_blank_def)
  qed (auto intro: exI [of _ "[]"])
qed (auto simp: is_blank_def)

lemma strip_idem: "strip a b (strip a b s) = strip a b s"
  by (induction a b s rule: strip.induct) auto

lemma strip_id: "s = [] \<or> (\<not> is_blank (hd s) \<and> hd s \<noteq> a) \<Longrightarrow> strip a b s = s"
  by (cases "(a, b, s)" rule: strip.cases) auto

lemma strip_left_id: "s = [] \<or> (\<not> is_blank (hd s) \<and> hd s \<noteq> CR) \<Longrightarrow> strip_left s = s"
  by (simp add: strip_left_def strip_id)

lemma strip_right_id: "s = [] \<or> (\<not> is_blank (last s) \<and> last s \<noteq> LF) \<Longrightarrow> strip_right s = s"
  by (auto simp: strip_right_def strip_id hd_rev)

lemma strip_left_blank [simp]: "is_blank c \<Longrightarrow> strip_left (c # s) = strip_left s"
  by (simp add: strip_left_def)

subsection \<open>Properties\<close>

text \<open>
  The byte table accepts a slice as a token exactly when it is not empty and consists of the
  token characters of the documented grammar, the backtick excepted.
\<close>

theorem token_grammar:
  "is_token s \<longleftrightarrow> s \<noteq> [] \<and> list_all (\<lambda>c. rfc_token_char c \<and> u8 c \<noteq> 96) s"
proof -
  have "token_char c \<longleftrightarrow> rfc_token_char c \<and> u8 c \<noteq> 96" for c
    unfolding token_char_def token_value_def rfc_token_char_def Let_def by presburger
  then show ?thesis by (simp add: is_token_iff list_all_iff)
qed

text \<open>
  The loops that trim byte slices and strings by length comparison remove exactly the leading
  (trailing) blanks and line breaks: they equal the recursive reference, and trimming again changes
  nothing.
\<close>

theorem trimming_reference:
  "trim_bytes_whitespace s = strip_right (strip_left s) \<and> trim_whitespace s = strip_right (strip_left s)
   \<and> trim_bytes_whitespace_left (trim_bytes_whitespace_left s) = trim_bytes_whitespace_left s
   \<and> trim_bytes_whitespace_right (trim_bytes_whitespace_right s) = trim_bytes_whitespace_right s"
  by (simp_all add: trim_eqs trim_bytes_whitespace_def trim_whitespace_def strip_left_def strip_right_def
      strip_idem)

end
