(* ===== verification/WireToken.thy ===== *)
theory WireToken
  imports Syntax
begin

text \<open>
  The contract shared by the enumerations of the wire format (versions, methods, header names and
  the transport parameters): \<open>as_str\<close> prints a value, \<open>try_from\<close> parses a byte slice, and
  \<open>valid\<close> is what the private constructors of the source guarantee about a value.
\<close>

locale wire_token =
  fixes as_str :: "'a \<Rightarrow> bytes"
    and try_from :: "bytes \<Rightarrow> 'e + 'a"
    and valid :: "'a \<Rightarrow> bool"
  assumes parse_print: "valid x \<Longrightarrow> try_from (as_str x) = Ok x"
    and parse_valid: "try_from v = Ok x \<Longrightarrow> valid x"
    and print_parse: "try_from v = Ok x \<Longrightarrow> eq_ignore_ascii_case (as_str x) v"
begin

lemma as_str_inject: "valid x \<Longrightarrow> valid y \<Longrightarrow> as_str x = as_str y \<longleftrightarrow> x = y"
  using parse_print by (metis Inr_inject)

lemma reparse: "try_from v = Ok x \<Longrightarrow> try_from (as_str x) = Ok x"
  by (rule parse_print) (rule parse_valid)

lemma valid_iff: "valid x \<longleftrightarrow> (\<exists>v. try_from v = Ok x)"
  using parse_print parse_valid by blast

lemma length_print_parse: "try_from v = Ok x \<Longrightarrow> length (as_str x) = length v"
  using print_parse [of v x] by (metis eq_ignore_ascii_case_def length_map)

end

text \<open>
  The macro that the parsers share (\<open>check_method\<close>, \<open>check_header_name\<close>,
  \<open>check_range_format\<close>): a prefix of the slice, case folded, is the name, and the lengths agree.
\<close>

definition check_folded :: "(byte \<Rightarrow> byte) \<Rightarrow> bytes \<Rightarrow> bytes \<Rightarrow> bool" where
  "check_folded to_case bytes value \<longleftrightarrow>
     (let starts_with = (map to_case (take (length bytes) value) = bytes)
      in starts_with \<and> length value = length bytes)"

lemma check_folded_iff: "check_folded f b v \<longleftrightarrow> map f v = b"
  by (auto simp: check_folded_def Let_def)

end
