(* ===== verification/HeaderName.thy ===== *)
theory HeaderName
  imports WireToken
begin

text \<open>
  Header names: \<^verbatim>\<open>rtsp-2/src/header/name.rs\<close>. The macro \<open>standard_headers!\<close> gives each
  variant a lower case name (\<open>as_str\<close>) and a canonical one; an extension keeps the name it was
  created from and its lower case form, and is compared by the latter.
\<close>

datatype HeaderName =
    HeaderAccept | HeaderAcceptCredentials | HeaderAcceptEncoding | HeaderAcceptLanguage |
    HeaderAcceptRanges | HeaderAllow | HeaderAuthenticationInfo | HeaderAuthorization |
    HeaderBandwidth | HeaderBlocksize | HeaderCacheControl | HeaderConnection |
    HeaderConnectionCredentials | HeaderContentBase | HeaderContentEncoding |
    HeaderContentLanguage | HeaderContentLength | HeaderContentLocation | HeaderContentType |
    HeaderCSeq | HeaderDate | HeaderExpires | HeaderFrom | HeaderIfMatch |
    HeaderIfModifiedSince | HeaderIfNoneMatch | HeaderLastModified | HeaderLocation |
    HeaderMediaProperties | HeaderMediaRange | HeaderMTag | HeaderNotifyReason |
    HeaderPipelinedRequests | HeaderProxyAuthenticate | HeaderProxyAuthenticationInfo |
    HeaderProxyAuthorization | HeaderProxyRequire | HeaderProxySupported | HeaderPublic |
    HeaderRange | HeaderReferrer | HeaderRequestStatus | HeaderRequire | HeaderRetryAfter |
    HeaderRTPInfo | HeaderScale | HeaderSeekStyle | HeaderServer | HeaderSession |
    HeaderSpeed | HeaderSupported | HeaderTerminateReason | HeaderTimestamp | HeaderTransport |
    HeaderUnsupported | HeaderUserAgent | HeaderVia | HeaderWWWAuthenticate |
    HeaderExtension bytes bytes

datatype HeaderNameError = HeaderNameEmpty | HeaderNameInvalidCharacter

primrec header_as_str :: "HeaderName \<Rightarrow> bytes" where
  "header_as_str HeaderAccept = ''accept''"
| "header_as_str HeaderAcceptCredentials = ''accept-credentials''"
| "header_as_str HeaderAcceptEncoding = ''accept-encoding''"
| "header_as_str HeaderAcceptLanguage = ''accept-language''"
| "header_as_str HeaderAcceptRanges = ''accept-ranges''"
| "header_as_str HeaderAllow = ''allow''"
| "header_as_str HeaderAuthenticationInfo = ''authentication-info''"
| "header_as_str HeaderAuthorization = ''authorization''"
| "header_as_str HeaderBandwidth = ''bandwidth''"
| "header_as_str HeaderBlocksize = ''blocksize''"
| "header_as_str HeaderCacheControl = ''cache-control''"
| "header_as_str HeaderConnection = ''connection''"
| "header_as_str HeaderConnectionCredentials = ''connection-credentials''"
| "header_as_str HeaderContentBase = ''content-base''"
| "header_as_str HeaderContentEncoding = ''content-encoding''"
| "header_as_str HeaderContentLanguage = ''content-language''"
| "header_as_str HeaderContentLength = ''content-length''"
| "header_as_str HeaderContentLocation = ''content-location''"
| "header_as_str HeaderContentType = ''content-type''"
| "header_as_str HeaderCSeq = ''cseq''"
| "header_as_str HeaderDate = ''date''"
| "header_as_str HeaderExpires = ''expires''"
| "header_as_str HeaderFrom = ''from''"
| "header_as_str HeaderIfMatch = ''if-match''"
| "header_as_str HeaderIfModifiedSince = ''if-modified-since''"
| "header_as_str HeaderIfNoneMatch = ''if-none-match''"
| "header_as_str HeaderLastModified = ''last-modified''"
| "header_as_str HeaderLocation = ''location''"
| "header_as_str HeaderMediaProperties = ''media-properties''"
| "header_as_str HeaderMediaRange = ''media-range''"
| "header_as_str HeaderMTag = ''mtag''"
| "header_as_str HeaderNotifyReason = ''notify-reason''"
| "header_as_str HeaderPipelinedRequests = ''pipelined-requests''"
| "header_as_str HeaderProxyAuthenticate = ''proxy-authenticate''"
| "header_as_str HeaderProxyAuthenticationInfo = ''proxy-authentication-info''"
| "header_as_str HeaderProxyAuthorization = ''proxy-authorization''"
| "header_as_str HeaderProxyRequire = ''proxy-require''"
| "header_as_str HeaderProxySupported = ''proxy-supported''"
| "header_as_str HeaderPublic = ''public''"
| "header_as_str HeaderRange = ''range''"
| "header_as_str HeaderReferrer = ''referrer''"
| "header_as_str HeaderRequestStatus = ''request-status''"
| "header_as_str HeaderRequire = ''require''"
| "header_as_str HeaderRetryAfter = ''retry-after''"
| "header_as_str HeaderRTPInfo = ''rtp-info''"
| "header_as_str HeaderScale = ''scale''"
| "header_as_str HeaderSeekStyle = ''seek-style''"
| "header_as_str HeaderServer = ''server''"
| "header_as_str HeaderSession = ''session''"
| "header_as_str HeaderSpeed = ''speed''"
| "header_as_str HeaderSupported = ''supported''"
| "header_as_str HeaderTerminateReason = ''terminate-reason''"
| "header_as_str HeaderTimestamp = ''timestamp''"
| "header_as_str HeaderTransport = ''transport''"
| "header_as_str HeaderUnsupported = ''unsupported''"
| "header_as_str HeaderUserAgent = ''user-agent''"
| "header_as_str HeaderVia = ''via''"
| "header_as_str HeaderWWWAuthenticate = ''www-authenticate''"
| "header_as_str (HeaderExtension name name_lowercase) = name_lowercase"

primrec canonical_name :: "HeaderName \<Rightarrow> bytes" where
  "canonical_name HeaderAccept = ''Accept''"
| "canonical_name HeaderAcceptCredentials = ''Accept-Credentials''"
| "canonical_name HeaderAcceptEncoding = ''Accept-Encoding''"
| "canonical_name HeaderAcceptLanguage = ''Accept-Language''"
| "canonical_name HeaderAcceptRanges = ''Accept-Ranges''"
| "canonical_name HeaderAllow = ''Allow''"
| "canonical_name HeaderAuthenticationInfo = ''Authentication-Info''"
| "canonical_name HeaderAuthorization = ''Authorization''"
| "canonical_name HeaderBandwidth = ''Bandwidth''"
| "canonical_name HeaderBlocksize = ''Blocksize''"
| "canonical_name HeaderCacheControl = ''Cache-Control''"
| "canonical_name HeaderConnection = ''Connection''"
| "canonical_name HeaderConnectionCredentials = ''Connection-Credentials''"
| "canonical_name HeaderContentBase = ''Content-Base''"
| "canonical_name HeaderContentEncoding = ''Content-Encoding''"
| "canonical_name HeaderContentLanguage = ''Content-Language''"
| "canonical_name HeaderContentLength = ''Content-Length''"
| "canonical_name HeaderContentLocation = ''Content-Location''"
| "canonical_name HeaderContentType = ''Content-Type''"
| "canonical_name HeaderCSeq = ''CSeq''"
| "canonical_name HeaderDate = ''Date''"
| "canonical_name HeaderExpires = ''Expires''"
| "canonical_name HeaderFrom = ''From''"
| "canonical_name HeaderIfMatch = ''If-Match''"
| "canonical_name HeaderIfModifiedSince = ''If-Modified-Since''"
| "canonical_name HeaderIfNoneMatch = ''If-None-Match''"
| "canonical_name HeaderLastModified = ''Last-Modified''"
| "canonical_name HeaderLocation = ''Location''"
| "canonical_name HeaderMediaProperties = ''Media-Properties''"
| "canonical_name HeaderMediaRange = ''Media-Range''"
| "canonical_name HeaderMTag = ''MTag''"
| "canonical_name HeaderNotifyReason = ''Notify-Reason''"
| "canonical_name HeaderPipelinedRequests = ''Pipelined-Requests''"
| "canonical_name HeaderProxyAuthenticate = ''Proxy-Authenticate''"
| "canonical_name HeaderProxyAuthenticationInfo = ''Proxy-Authentication-Info''"
| "canonical_name HeaderProxyAuthorization = ''Proxy-Authorization''"
| "canonical_name HeaderProxyRequire = ''Proxy-Require''"
| "canonical_name HeaderProxySupported = ''Proxy-Supported''"
| "canonical_name HeaderPublic = ''Public''"
| "canonical_name HeaderRange = ''Range''"
| "canonical_name HeaderReferrer = ''Referrer''"
| "canonical_name HeaderRequestStatus = ''Request-Status''"
| "canonical_name HeaderRequire = ''Require''"
| "canonical_name HeaderRetryAfter = ''Retry-After''"
| "canonical_name HeaderRTPInfo = ''RTP-Info''"
| "canonical_name HeaderScale = ''Scale''"
| "canonical_name HeaderSeekStyle = ''Seek-Style''"
| "canonical_name HeaderServer = ''Server''"
| "canonical_name HeaderSession = ''Session''"
| "canonical_name HeaderSpeed = ''Speed''"
| "canonical_name HeaderSupported = ''Supported''"
| "canonical_name HeaderTerminateReason = ''Terminate-Reason''"
| "canonical_name HeaderTimestamp = ''Timestamp''"
| "canonical_name HeaderTransport = ''Transport''"
| "canonical_name HeaderUnsupported = ''Unsupported''"
| "canonical_name HeaderUserAgent = ''User-Agent''"
| "canonical_name HeaderVia = ''Via''"
| "canonical_name HeaderWWWAuthenticate = ''WWW-Authenticate''"
| "canonical_name (HeaderExtension name name_lowercase) = name"

definition standard_headers :: "HeaderName list" where
  "standard_headers = [
    HeaderAccept, HeaderAcceptCredentials, HeaderAcceptEncoding, HeaderAcceptLanguage,
    HeaderAcceptRanges, HeaderAllow, HeaderAuthenticationInfo, HeaderAuthorization,
    HeaderBandwidth, HeaderBlocksize, HeaderCacheControl, HeaderConnection,
    HeaderConnectionCredentials, HeaderContentBase, HeaderContentEncoding,
    HeaderContentLanguage, HeaderContentLength, HeaderContentLocation, HeaderContentType,
    HeaderCSeq, HeaderDate, HeaderExpires, HeaderFrom, HeaderIfMatch, HeaderIfModifiedSince,
    HeaderIfNoneMatch, HeaderLastModified, HeaderLocation, HeaderMediaProperties,
    HeaderMediaRange, HeaderMTag, HeaderNotifyReason, HeaderPipelinedRequests,
    HeaderProxyAuthenticate, HeaderProxyAuthenticationInfo, HeaderProxyAuthorization,
    HeaderProxyRequire, HeaderProxySupported, HeaderPublic, HeaderRange, HeaderReferrer,
    HeaderRequestStatus, HeaderRequire, HeaderRetryAfter, HeaderRTPInfo, HeaderScale,
    HeaderSeekStyle, HeaderServer, HeaderSession, HeaderSpeed, HeaderSupported,
    HeaderTerminateReason, HeaderTimestamp, HeaderTransport, HeaderUnsupported,
    HeaderUserAgent, HeaderVia, HeaderWWWAuthenticate]"

text \<open>The derived \<open>PartialEq\<close>: variants by name, extensions by their lower case form.\<close>

definition hname_eq :: "HeaderName \<Rightarrow> HeaderName \<Rightarrow> bool" where
  "hname_eq a b =
     (case a of
        HeaderExtension _ l \<Rightarrow>
          (case b of HeaderExtension _ l' \<Rightarrow> eq_ignore_ascii_case l l' | _ \<Rightarrow> False)
      | _ \<Rightarrow> a = b)"

text \<open>Equality with a byte slice or a string.\<close>

definition header_eq_bytes :: "HeaderName \<Rightarrow> bytes \<Rightarrow> bool" where
  "header_eq_bytes h other = eq_ignore_ascii_case (header_as_str h) other"

definition header_extension :: "bytes \<Rightarrow> HeaderNameError + HeaderName" where
  "header_extension name =
     (if name = [] then Err HeaderNameEmpty
      else if \<not> is_token name then Err HeaderNameInvalidCharacter
      else Ok (HeaderExtension name (lower name)))"

definition check_header_name :: "HeaderName \<Rightarrow> bytes \<Rightarrow> bool" where
  "check_header_name header_name value = check_folded to_ascii_lowercase (header_as_str header_name) value"

text \<open>The arms of the \<open>match\<close> on the length: the names tried in order, then the extension.\<close>

definition header_candidates :: "nat \<Rightarrow> HeaderName list" where
  "header_candidates len =
    (if len = 3 then [HeaderVia]
     else if len = 4 then [HeaderCSeq, HeaderDate, HeaderFrom, HeaderMTag]
     else if len = 5 then [HeaderAllow, HeaderRange, HeaderScale, HeaderSpeed]
     else if len = 6 then [HeaderAccept, HeaderPublic, HeaderServer]
     else if len = 7 then [HeaderExpires, HeaderRequire, HeaderSession]
     else if len = 8 then [HeaderIfMatch, HeaderLocation, HeaderReferrer, HeaderRTPInfo]
     else if len = 9 then [HeaderBandwidth, HeaderBlocksize, HeaderSupported, HeaderTimestamp, HeaderTransport]
     else if len = 10 then [HeaderConnection, HeaderSeekStyle, HeaderUserAgent]
     else if len = 11 then [HeaderMediaRange, HeaderRetryAfter, HeaderUnsupported]
     else if len = 12 then [HeaderContentBase, HeaderContentType]
     else if len = 13 then [HeaderAcceptRanges, HeaderAuthorization, HeaderCacheControl, HeaderIfNoneMatch, HeaderLastModified, HeaderNotifyReason, HeaderProxyRequire]
     else if len = 14 then [HeaderContentLength, HeaderRequestStatus]
     else if len = 15 then [HeaderAcceptEncoding, HeaderAcceptLanguage, HeaderProxySupported]
     else if len = 16 then [HeaderContentEncoding, HeaderContentLanguage, HeaderContentLocation, HeaderMediaProperties, HeaderTerminateReason, HeaderWWWAuthenticate]
     else if len = 17 then [HeaderIfModifiedSince]
     else if len = 18 then [HeaderAcceptCredentials, HeaderPipelinedRequests, HeaderProxyAuthenticate]
     else if len = 19 then [HeaderAuthenticationInfo, HeaderProxyAuthorization]
     else if len = 22 then [HeaderConnectionCredentials]
     else if len = 25 then [HeaderProxyAuthenticationInfo]
     else [])"

definition header_try_from :: "bytes \<Rightarrow> HeaderNameError + HeaderName" where
  "header_try_from value =
     (case find (\<lambda>h. check_header_name h value) (header_candidates (length value)) of
        Some h \<Rightarrow> Ok h
      | None \<Rightarrow> header_extension value)"

subsection \<open>Facts\<close>

definition header_valid :: "HeaderName \<Rightarrow> bool" where
  "header_valid h =
     (case h of
        HeaderExtension n l \<Rightarrow>
          is_token n \<and> l = lower n \<and> l \<notin> set (map header_as_str standard_headers)
      | _ \<Rightarrow> True)"

lemma standard_headers_complete: "h \<in> set standard_headers \<or> (\<exists>n l. h = HeaderExtension n l)"
  by (cases h) (simp_all add: standard_headers_def)

lemma standard_not_extension: "HeaderExtension n l \<notin> set standard_headers"
  by (simp add: standard_headers_def)

lemma hname_eq_extension [simp]:
  "hname_eq (HeaderExtension n l) (HeaderExtension n' l') \<longleftrightarrow> eq_ignore_ascii_case l l'"
  by (simp add: hname_eq_def)

lemma header_valid_extension [simp]:
  "header_valid (HeaderExtension n l) \<longleftrightarrow>
     is_token n \<and> l = lower n \<and> l \<notin> set (map header_as_str standard_headers)"
  by (simp add: header_valid_def)

lemma standard_header_valid: "h \<in> set standard_headers \<Longrightarrow> header_valid h"
  by (cases h) (simp_all add: header_valid_def standard_not_extension)

lemma hname_eq_standard:
  "h \<in> set standard_headers \<Longrightarrow> hname_eq h h' \<longleftrightarrow> h = h'"
  "h \<in> set standard_headers \<Longrightarrow> hname_eq h' h \<longleftrightarrow> h' = h"
proof -
  show "h \<in> set standard_headers \<Longrightarrow> hname_eq h h' \<longleftrightarrow> h = h'"
    by (cases h) (simp_all add: hname_eq_def standard_not_extension)
  show "hname_eq h' h \<longleftrightarrow> h' = h" if h: "h \<in> set standard_headers"
  proof (cases "h' \<in> set standard_headers")
    case True
    then show ?thesis
      by (cases h' rule: HeaderName.exhaust) (simp_all add: hname_eq_def standard_not_extension)
  next
    case False
    then obtain n l where "h' = HeaderExtension n l" using standard_headers_complete by blast
    with h show ?thesis
      by (cases h rule: HeaderName.exhaust) (simp_all add: hname_eq_def standard_not_extension)
  qed
qed

lemma hname_eq_refl [simp]: "hname_eq h h"
  using standard_headers_complete [of h] hname_eq_standard(1) by fastforce

text \<open>The rows of the table: names are tokens, \<open>as_str\<close> is the lower case canonical name, and the
  arm for its length tries it.\<close>

lemma canonical_lower_table:
  "list_all (\<lambda>h. lower (canonical_name h) = header_as_str h) standard_headers"
  by code_simp

lemma canonical_token_table:
  "list_all (\<lambda>h. canonical_name h \<noteq> [] \<and> list_all (\<lambda>c. token_char c) (canonical_name h)) standard_headers"
  by code_simp

lemma canonical_lower_standard:
  "h \<in> set standard_headers \<Longrightarrow> lower (canonical_name h) = header_as_str h"
  using canonical_lower_table by (simp add: list_all_iff)

lemma canonical_token_standard: "h \<in> set standard_headers \<Longrightarrow> is_token (canonical_name h)"
  using canonical_token_table by (simp add: list_all_iff is_token_iff)

lemma header_candidates_standard:
  "h \<in> set standard_headers \<Longrightarrow> h \<in> set (header_candidates (length (header_as_str h)))"
  by (cases h) (simp_all add: header_candidates_def standard_not_extension)

lemma header_as_str_distinct: "distinct (map header_as_str standard_headers)"
  by (simp add: standard_headers_def)

lemma header_as_str_inject:
  "h \<in> set standard_headers \<Longrightarrow> h' \<in> set standard_headers \<Longrightarrow> header_as_str h = header_as_str h' \<Longrightarrow> h = h'"
  using header_as_str_distinct by (simp add: distinct_map inj_on_def)

lemma header_candidates_subset: "set (header_candidates n) \<subseteq> set standard_headers"
proof -
  have "HeaderExtension a b \<notin> set (header_candidates n)" for a b
    by (simp add: header_candidates_def)
  then show ?thesis using standard_headers_complete by blast
qed

lemma canonical_valid:
  assumes "header_valid h"
  shows "lower (canonical_name h) = header_as_str h" "is_token (canonical_name h)"
  using assms standard_headers_complete [of h] canonical_lower_standard canonical_token_standard
  by auto

lemma header_try_from_standard:
  assumes "h \<in> set standard_headers" "lower v = header_as_str h"
  shows "header_try_from v = Ok h"
proof -
  have len: "length v = length (header_as_str h)" using assms(2) by (metis length_map)
  have check: "check_header_name h' v \<longleftrightarrow> header_as_str h' = header_as_str h" for h'
    using assms(2) by (auto simp: check_header_name_def check_folded_iff)
  have mem: "h \<in> set (header_candidates (length v))"
    using header_candidates_standard [OF assms(1)] len by simp
  have "find (\<lambda>h. check_header_name h v) (header_candidates (length v)) \<noteq> None"
    using mem by (auto simp: find_None_iff check)
  then obtain h' where h': "find (\<lambda>h. check_header_name h v) (header_candidates (length v)) = Some h'"
    by blast
  then have "h' \<in> set (header_candidates (length v))" "check_header_name h' v"
    by (auto simp: find_Some_iff)
  then have "h' = h"
    using header_candidates_subset header_as_str_inject assms(1) check by blast
  with h' show ?thesis by (simp add: header_try_from_def)
qed

lemma header_try_from_extension:
  assumes "lower v \<notin> set (map header_as_str standard_headers)"
  shows "header_try_from v = header_extension v"
proof -
  have "find (\<lambda>h. check_header_name h v) (header_candidates (length v)) = None"
    using assms header_candidates_subset
    by (fastforce simp: find_None_iff check_header_name_def check_folded_iff)
  then show ?thesis by (simp add: header_try_from_def)
qed

lemma header_extension_Ok:
  "header_extension v = Ok h \<longleftrightarrow> h = HeaderExtension v (lower v) \<and> is_token v"
  by (auto simp: header_extension_def is_token_iff)

lemma header_try_from_Ok:
  assumes "header_try_from v = Ok h"
  shows "header_valid h \<and> header_as_str h = lower v"
proof (cases "lower v \<in> set (map header_as_str standard_headers)")
  case True
  then obtain h' where h': "h' \<in> set standard_headers" "lower v = header_as_str h'" by auto
  with assms have "h = h'" using header_try_from_standard by fastforce
  with h' show ?thesis by (simp add: standard_header_valid)
next
  case False
  with assms have "h = HeaderExtension v (lower v)" "is_token v"
    by (simp_all add: header_try_from_extension header_extension_Ok)
  with False show ?thesis by simp
qed

lemma header_parse_canonical:
  assumes "header_valid h"
  shows "header_try_from (canonical_name h) = Ok h"
proof (cases "h \<in> set standard_headers")
  case True
  then show ?thesis by (intro header_try_from_standard) (simp_all add: canonical_lower_standard)
next
  case False
  then obtain n l where "h = HeaderExtension n l" using standard_headers_complete by blast
  with assms show ?thesis by (auto simp: header_try_from_extension header_extension_Ok)
qed

interpretation hname: wire_token canonical_name header_try_from header_valid
proof unfold_locales
  fix h v
  show "header_try_from (canonical_name h) = Ok h" if "header_valid h"
    using that by (rule header_parse_canonical)
  show "header_valid h" if "header_try_from v = Ok h"
    using header_try_from_Ok [OF that] by simp
  show "eq_ignore_ascii_case (canonical_name h) v" if "header_try_from v = Ok h"
    using header_try_from_Ok [OF that] by (simp add: eq_ignore_ascii_case_def canonical_valid)
qed

text \<open>On names the parser returns, the derived equality is equality of the lower case names.\<close>

lemma hname_eq_iff:
  assumes "header_valid h" "header_valid h'"
  shows "hname_eq h h' \<longleftrightarrow> header_as_str h = header_as_str h'"
proof (cases "h \<in> set standard_headers \<or> h' \<in> set standard_headers")
  case True
  then show ?thesis
    using assms standard_headers_complete [of h] standard_headers_complete [of h']
    by (auto simp: hname_eq_standard standard_not_extension intro!: imageI dest: header_as_str_inject sym)
next
  case False
  then obtain n l n' l' where "h = HeaderExtension n l" "h' = HeaderExtension n' l'"
    using standard_headers_complete by metis
  with assms show ?thesis by (auto simp: eq_ignore_ascii_case_def simp del: map_map)
qed

lemma hname_eq_sym: "hname_eq a b \<Longrightarrow> hname_eq b a"
  using standard_headers_complete [of a] standard_headers_complete [of b]
  by (auto simp: hname_eq_standard standard_not_extension eq_ignore_ascii_case_sym)

lemma hname_eq_trans: "hname_eq a b \<Longrightarrow> hname_eq b c \<Longrightarrow> hname_eq a c"
  using standard_headers_complete [of a] standard_headers_complete [of b] standard_headers_complete [of c]
  by (auto simp: hname_eq_standard standard_not_extension intro: eq_ignore_ascii_case_trans)

lemma hname_eq_cong: "hname_eq a b \<Longrightarrow> hname_eq a c \<longleftrightarrow> hname_eq b c" "hname_eq a b \<Longrightarrow> hname_eq c a \<longleftrightarrow> hname_eq c b"
  using hname_eq_sym hname_eq_trans by blast+

subsection \<open>Properties\<close>

text \<open>
  C33. A parsed header name prints to a canonical name that parses to the same name, and two parsed
  names are equal exactly when the inputs differ in ASCII case only.
\<close>

theorem header_names_identity:
  assumes "header_try_from v = Ok h" "header_try_from w = Ok h'"
  shows "header_try_from (canonical_name h) = Ok h \<and> eq_ignore_ascii_case (canonical_name h) v
    \<and> (hname_eq h h' \<longleftrightarrow> lower v = lower w)"
  using assms hname.reparse [of v h] hname.print_parse [of v h] hname_eq_iff [of h h'] header_try_from_Ok [of v h]
    header_try_from_Ok [of w h'] by simp

lemma header_names_identity_witness:
  "header_try_from (canonical_name HeaderCSeq) = Ok HeaderCSeq
   \<and> \<not> hname_eq HeaderCSeq (HeaderExtension ''X-Trace'' ''x-trace'')"
proof -
  have "header_try_from ''CSEQ'' = Ok HeaderCSeq"
    "header_try_from ''X-Trace'' = Ok (HeaderExtension ''X-Trace'' ''x-trace'')"
    "lower ''CSEQ'' \<noteq> lower ''X-Trace''" by code_simp+
  with header_names_identity [OF this(1,2)] show ?thesis by blast
qed

text \<open>
  Parsing a header name succeeds exactly on tokens, and the result is the standard header with
  that name in lower case, or else the extension that keeps the spelling.
\<close>

theorem header_name_accept_exact:
  "header_try_from v = Ok h \<longleftrightarrow>
     is_token v \<and> header_as_str h = lower v
     \<and> (h \<in> set standard_headers
        \<or> (h = HeaderExtension v (lower v) \<and> lower v \<notin> set (map header_as_str standard_headers)))"
proof
  assume ok: "header_try_from v = Ok h"
  have tok: "is_token v"
  proof (cases "lower v \<in> set (map header_as_str standard_headers)")
    case True
    then obtain g where "g \<in> set standard_headers" "lower (canonical_name g) = lower v"
      using canonical_lower_standard by auto
    then show ?thesis using canonical_token_standard is_token_lower by metis
  next
    case False
    with ok show ?thesis by (simp add: header_try_from_extension header_extension_Ok)
  qed
  moreover have "header_as_str h = lower v" using header_try_from_Ok [OF ok] by simp
  ultimately show "is_token v \<and> header_as_str h = lower v
     \<and> (h \<in> set standard_headers
        \<or> (h = HeaderExtension v (lower v) \<and> lower v \<notin> set (map header_as_str standard_headers)))"
    using ok standard_headers_complete [of h] header_try_from_Ok [OF ok]
    by (auto simp: header_try_from_extension header_extension_Ok)
next
  assume "is_token v \<and> header_as_str h = lower v
     \<and> (h \<in> set standard_headers
        \<or> (h = HeaderExtension v (lower v) \<and> lower v \<notin> set (map header_as_str standard_headers)))"
  then show "header_try_from v = Ok h"
    using header_try_from_standard [of h v] by (auto simp: header_try_from_extension header_extension_Ok)
qed

end
