(* ===== verification/HeaderValue.thy ===== *)
theory HeaderValue
  imports WireToken
begin

text \<open>
  Header values: \<^verbatim>\<open>rtsp-2/src/header/value.rs\<close>. The parser is a three-state machine over the
  characters; its result is characterised by the acceptance condition \<open>value_bytes\<close> on bytes.
\<close>

datatype HeaderValue = HeaderValue (value_as_str: bytes)

datatype HeaderValueError = ValueInvalidASCII | ValueInvalidLineBreak | ValueInvalidUTF8

datatype ExpectState = ExpectAny | ExpectLF | ExpectSpaceOrTab

definition value_is_empty :: "HeaderValue \<Rightarrow> bool" where
  "value_is_empty v \<longleftrightarrow> length (value_as_str v) = 0"

definition value_len :: "HeaderValue \<Rightarrow> nat" where
  "value_len v = length (value_as_str v)"

definition from_string_unchecked :: "bytes \<Rightarrow> HeaderValue" where
  "from_string_unchecked value = HeaderValue value"

text \<open>One character in one state: the next state or the error the loop returns with.\<close>

fun value_step :: "ExpectState \<Rightarrow> nat \<Rightarrow> HeaderValueError + ExpectState" where
  "value_step ExpectAny c =
     (if c < 128 then
        (if c = 13 then Ok ExpectLF
         else if (c < 32 \<or> c > 126) \<and> c \<noteq> 9 then Err ValueInvalidASCII
         else Ok ExpectAny)
      else Ok ExpectAny)"
| "value_step ExpectLF c = (if c = 10 then Ok ExpectSpaceOrTab else Err ValueInvalidLineBreak)"
| "value_step ExpectSpaceOrTab c =
     (if c = 32 \<or> c = 9 then Ok ExpectAny else Err ValueInvalidLineBreak)"

fun value_loop :: "ExpectState \<Rightarrow> nat list \<Rightarrow> HeaderValueError + ExpectState" where
  "value_loop st [] = Ok st"
| "value_loop st (c # cs) =
     (case value_step st c of Err e \<Rightarrow> Err e | Ok st' \<Rightarrow> value_loop st' cs)"

definition value_try_from_str :: "bytes \<Rightarrow> HeaderValueError + HeaderValue" where
  "value_try_from_str value =
     (case value_loop ExpectAny (chars value) of
        Err e \<Rightarrow> Err e
      | Ok expect_state \<Rightarrow>
          if expect_state \<noteq> ExpectAny then Err ValueInvalidLineBreak else Ok (HeaderValue value))"

definition value_try_from :: "bytes \<Rightarrow> HeaderValueError + HeaderValue" where
  "value_try_from value =
     (case utf8_chars value of
        None \<Rightarrow> Err ValueInvalidUTF8
      | Some _ \<Rightarrow> value_try_from_str value)"

subsection \<open>What is accepted\<close>

text \<open>
  The folding grammar on bytes: printable bytes, tabs, bytes above 127, and line breaks that are
  followed by a blank.
\<close>

definition text_byte :: "byte \<Rightarrow> bool" where
  "text_byte c \<longleftrightarrow> u8 c = 9 \<or> (32 \<le> u8 c \<and> u8 c \<noteq> 127)"

fun value_bytes :: "bytes \<Rightarrow> bool" where
  "value_bytes [] \<longleftrightarrow> True"
| "value_bytes (c # s) \<longleftrightarrow>
     (if c = CR then (case s of d # e # r \<Rightarrow> d = LF \<and> is_blank e \<and> value_bytes r | _ \<Rightarrow> False)
      else text_byte c \<and> value_bytes s)"

definition value_valid :: "HeaderValue \<Rightarrow> bool" where
  "value_valid v \<longleftrightarrow> utf8_chars (value_as_str v) \<noteq> None \<and> value_bytes (value_as_str v)"

definition value_accept :: "ExpectState \<Rightarrow> nat list \<Rightarrow> bool" where
  "value_accept st cs \<longleftrightarrow> value_loop st cs = Ok ExpectAny"

lemma value_accept_Nil [simp]: "value_accept st [] \<longleftrightarrow> st = ExpectAny"
  by (simp add: value_accept_def)

lemma value_accept_Cons [simp]:
  "value_accept ExpectAny (c # cs) \<longleftrightarrow>
     (if c = 13 then value_accept ExpectLF cs
      else (128 \<le> c \<or> c = 9 \<or> (32 \<le> c \<and> c \<noteq> 127)) \<and> value_accept ExpectAny cs)"
  "value_accept ExpectLF (c # cs) \<longleftrightarrow> c = 10 \<and> value_accept ExpectSpaceOrTab cs"
  "value_accept ExpectSpaceOrTab (c # cs) \<longleftrightarrow> (c = 32 \<or> c = 9) \<and> value_accept ExpectAny cs"
  by (auto simp: value_accept_def)

lemma value_bytes_append_high:
  "\<forall>c \<in> set p. \<not> u8 c < 128 \<Longrightarrow> value_bytes (p @ s) = value_bytes s"
  by (induction p) (auto simp: text_byte_def CR_def)

lemma u8_blanks:
  "u8 c = 13 \<longleftrightarrow> c = CR" "u8 c = 10 \<longleftrightarrow> c = LF" "u8 c = 32 \<or> u8 c = 9 \<longleftrightarrow> is_blank c"
proof -
  have "u8 c = u8 d \<longleftrightarrow> c = d" for d by (rule u8_eq_iff)
  from this [of CR] this [of LF] this [of SP] this [of HT]
  show "u8 c = 13 \<longleftrightarrow> c = CR" "u8 c = 10 \<longleftrightarrow> c = LF" "u8 c = 32 \<or> u8 c = 9 \<longleftrightarrow> is_blank c"
    by (simp_all add: byte_consts is_blank_def)
qed

text \<open>Three states, three readings of the bytes that are left.\<close>

fun state_bytes :: "ExpectState \<Rightarrow> bytes \<Rightarrow> bool" where
  "state_bytes ExpectAny s = value_bytes s"
| "state_bytes ExpectLF s = value_bytes (CR # s)"
| "state_bytes ExpectSpaceOrTab s = value_bytes (CR # LF # s)"

lemma state_bytes_Cons:
  "state_bytes ExpectAny (a # r) \<longleftrightarrow>
     (if a = CR then state_bytes ExpectLF r else text_byte a \<and> state_bytes ExpectAny r)"
  "state_bytes ExpectLF (a # r) \<longleftrightarrow> a = LF \<and> state_bytes ExpectSpaceOrTab r"
  "state_bytes ExpectSpaceOrTab (a # r) \<longleftrightarrow> is_blank a \<and> state_bytes ExpectAny r"
  by (simp_all split: list.splits)

lemma state_bytes_Nil: "state_bytes st [] \<longleftrightarrow> st = ExpectAny"
  by (cases st) simp_all

lemma value_accept_ascii:
  "u8 a < 128 \<Longrightarrow> value_accept ExpectAny (u8 a # cs) \<longleftrightarrow>
     (if a = CR then value_accept ExpectLF cs else text_byte a \<and> value_accept ExpectAny cs)"
  "value_accept ExpectLF (u8 a # cs) \<longleftrightarrow> a = LF \<and> value_accept ExpectSpaceOrTab cs"
  "value_accept ExpectSpaceOrTab (u8 a # cs) \<longleftrightarrow> is_blank a \<and> value_accept ExpectAny cs"
  unfolding value_accept_Cons u8_blanks text_byte_def by auto

lemma value_accept_high:
  "\<not> k < 128 \<Longrightarrow> value_accept st (k # cs) \<longleftrightarrow> st = ExpectAny \<and> value_accept ExpectAny cs"
  by (cases st) auto

lemma state_bytes_high:
  assumes "\<not> u8 a < 128"
  shows "state_bytes st (a # s) \<longleftrightarrow> st = ExpectAny \<and> state_bytes ExpectAny s"
proof -
  have "a \<noteq> CR" "a \<noteq> LF" "\<not> is_blank a" "text_byte a"
    using assms by (auto simp: byte_consts is_blank_def text_byte_def)
  then show ?thesis by (cases st) (simp_all only: state_bytes_Cons, simp_all)
qed

lemma value_accept_bytes:
  "utf8_chars s = Some cs \<Longrightarrow> value_accept st cs \<longleftrightarrow> state_bytes st s"
proof (induction s arbitrary: cs st rule: length_induct)
  case (1 s)
  show ?case
  proof (cases s)
    case Nil
    with 1 show ?thesis by (simp add: state_bytes_Nil)
  next
    case (Cons a r)
    show ?thesis
    proof (cases "u8 a < 128")
      case True
      with "1.prems" Cons obtain cs' where cs': "utf8_chars r = Some cs'" "cs = u8 a # cs'" by auto
      then have IH: "value_accept st' cs' \<longleftrightarrow> state_bytes st' r" for st'
        using "1.IH" Cons by simp
      show ?thesis
        unfolding Cons cs'(2)
        by (cases st) (simp_all only: state_bytes_Cons value_accept_ascii(1) [OF True] value_accept_ascii(2,3) IH)
    next
      case False
      with "1.prems" Cons obtain k p r' cs' where split: "r = p @ r'" "\<forall>c \<in> set p. \<not> u8 c < 128"
        "utf8_chars r' = Some cs'" "cs = k # cs'" "\<not> k < 128"
        using utf8_chars_multi [of a r cs] by blast
      have "length r' < length s" using split(1) Cons by simp
      then have "value_accept ExpectAny cs' \<longleftrightarrow> state_bytes ExpectAny r'"
        using "1.IH" split(3) by blast
      then show ?thesis
        unfolding Cons split(1,4)
        by (simp only: value_accept_high [OF split(5)] state_bytes_high [OF False]
            value_bytes_append_high [OF split(2)] state_bytes.simps)
    qed
  qed
qed

lemma value_try_from_Ok:
  "value_try_from v = Ok r \<longleftrightarrow> r = HeaderValue v \<and> value_valid r"
proof (cases "utf8_chars v")
  case None
  then show ?thesis by (auto simp: value_try_from_def value_valid_def)
next
  case (Some cs)
  have "value_accept ExpectAny cs \<longleftrightarrow> value_bytes v"
    using value_accept_bytes [OF Some, of ExpectAny] by simp
  with Some show ?thesis
    by (auto simp: value_try_from_def value_try_from_str_def value_valid_def chars_def value_accept_def
        split: sum.splits)
qed

interpretation hvalue: wire_token value_as_str value_try_from value_valid
  by unfold_locales (auto simp: value_try_from_Ok)

text \<open>An accepted value has no line break that is not folded, and no lone control byte.\<close>

lemma value_bytes_no_break:
  "value_bytes s \<Longrightarrow> s = p @ CR # q \<Longrightarrow> \<exists>e r. q = LF # e # r \<and> is_blank e"
proof (induction s arbitrary: p rule: value_bytes.induct)
  case (2 c s)
  then show ?case
    by (cases p; cases "c = CR")
       (auto split: list.splits simp: append_eq_Cons_conv Cons_eq_append_conv)
qed simp

lemma value_bytes_text: "\<forall>c \<in> set s. text_byte c \<Longrightarrow> value_bytes s"
proof (induction s)
  case (Cons c s)
  then have "c \<noteq> CR" by (auto simp: text_byte_def byte_consts)
  with Cons show ?case by simp
qed simp

subsection \<open>Properties\<close>

text \<open>
  C31. The three-state machine that checks header values accepts exactly the UTF-8 text whose
  control bytes are tabs and folded line breaks, and keeps the bytes as they are.
\<close>

theorem header_value_grammar:
  "value_try_from v = Ok r \<longleftrightarrow> r = HeaderValue v \<and> utf8_chars v \<noteq> None \<and> value_bytes v"
  by (auto simp: value_try_from_Ok value_valid_def)

text \<open>
  C32. No accepted header value can end its line early: every carriage return in it is followed by
  a line feed and a blank.
\<close>

theorem header_value_no_injection:
  assumes "value_try_from v = Ok r" "value_as_str r = p @ CR # q"
  shows "\<exists>e t. q = LF # e # t \<and> is_blank e"
  using assms value_bytes_no_break [of v p q] by (auto simp: value_try_from_Ok value_valid_def)

lemma header_value_no_injection_witness:
  "\<exists>e t. [LF, SP, CHR ''b''] = LF # e # t \<and> is_blank e"
proof -
  have "value_try_from [CHR ''a'', CR, LF, SP, CHR ''b''] = Ok (HeaderValue ([CHR ''a''] @ CR # [LF, SP, CHR ''b'']))"
    by code_simp
  from header_value_no_injection [OF this, of "[CHR ''a'']" "[LF, SP, CHR ''b'']"] show ?thesis by simp
qed

end
