(* ===== verification/HeaderMap.thy ===== *)
theory HeaderMap
  imports HeaderName HeaderValue
begin

text \<open>
  Header maps and typed headers: \<^verbatim>\<open>rtsp-2/src/header/map.rs\<close>. The map itself is the
  third-party \<open>ListOrderedMultimap\<close>; the operations the program calls are a parameter \<open>M\<close> of
  every definition that uses them, and \<open>header_map_laws\<close> states its documented behaviour: values
  are kept in insertion order under the key that was inserted first, \<open>append\<close> adds one,
  \<open>get_all\<close> reads those of a key, and inserting into an entry replaces the values of its key, or adds
  the key at the end.
\<close>

record 'm header_map_ops =
  map_default :: 'm
  map_append :: "'m \<Rightarrow> HeaderName \<Rightarrow> HeaderValue \<Rightarrow> 'm"
  map_insert :: "'m \<Rightarrow> HeaderName \<Rightarrow> HeaderValue \<Rightarrow> 'm"
  map_get_all :: "'m \<Rightarrow> HeaderName \<Rightarrow> HeaderValue list"
  map_iter :: "'m \<Rightarrow> (HeaderName \<times> HeaderValue) list"
  map_values_len :: "'m \<Rightarrow> nat"
  map_contains_key :: "'m \<Rightarrow> HeaderName \<Rightarrow> bool"

type_synonym headers = "(HeaderName \<times> HeaderValue) list"

definition stored_key :: "headers \<Rightarrow> HeaderName \<Rightarrow> HeaderName" where
  "stored_key l k = (case find (\<lambda>(h, _). hname_eq h k) l of Some (h, _) \<Rightarrow> h | None \<Rightarrow> k)"

definition values_of :: "headers \<Rightarrow> HeaderName \<Rightarrow> HeaderValue list" where
  "values_of l k = map snd (filter (\<lambda>(h, _). hname_eq h k) l)"

definition header_map_laws :: "'m header_map_ops \<Rightarrow> bool" where
  "header_map_laws M \<longleftrightarrow>
     map_iter M (map_default M) = []
     \<and> (\<forall>m k v. map_iter M (map_append M m k v) = map_iter M m @ [(stored_key (map_iter M m) k, v)])
     \<and> (\<forall>m k. map_get_all M m k = values_of (map_iter M m) k)
     \<and> (\<forall>m. map_values_len M m = length (map_iter M m))
     \<and> (\<forall>m k. map_contains_key M m k \<longleftrightarrow> values_of (map_iter M m) k \<noteq> [])
     \<and> (\<forall>m k v k'. map_get_all M (map_insert M m k v) k' =
          (if hname_eq k k' then [v] else map_get_all M m k'))
     \<and> (\<forall>m k v. values_of (map_iter M m) k = [] \<longrightarrow> map_iter M (map_insert M m k v) = map_iter M m @ [(k, v)])"

lemma header_map_lawsD:
  assumes "header_map_laws M"
  shows "map_iter M (map_default M) = []"
    "map_iter M (map_append M m k v) = map_iter M m @ [(stored_key (map_iter M m) k, v)]"
    "map_get_all M m k = values_of (map_iter M m) k"
    "map_values_len M m = length (map_iter M m)"
    "map_contains_key M m k \<longleftrightarrow> values_of (map_iter M m) k \<noteq> []"
    "map_get_all M (map_insert M m k v) k' = (if hname_eq k k' then [v] else map_get_all M m k')"
    "values_of (map_iter M m) k = [] \<Longrightarrow> map_iter M (map_insert M m k v) = map_iter M m @ [(k, v)]"
  using assms unfolding header_map_laws_def by blast+

lemma stored_key_eq [simp]: "hname_eq (stored_key l k) k"
  by (auto simp: stored_key_def find_Some_iff split: option.splits)

lemma values_of_append: "values_of (l @ l') k = values_of l k @ values_of l' k"
  by (simp add: values_of_def)

lemma values_of_simps [simp]:
  "values_of [] k = []"
  "values_of ((h, v) # l) k = (if hname_eq h k then v # values_of l k else values_of l k)"
  by (simp_all add: values_of_def)

lemma get_all_append:
  assumes "header_map_laws M"
  shows "map_get_all M (map_append M m k v) k' =
    map_get_all M m k' @ (if hname_eq k k' then [v] else [])"
  using hname_eq_cong(1) [OF stored_key_eq, of "map_iter M m" k k']
  by (simp add: header_map_lawsD [OF assms] values_of_append)

text \<open>A list of pairs with these operations, to instantiate the parameter.\<close>

definition list_headers :: "headers header_map_ops" where
  "list_headers = \<lparr>
     map_default = [],
     map_append = (\<lambda>l k v. l @ [(stored_key l k, v)]),
     map_insert = (\<lambda>l k v. filter (\<lambda>(h, _). \<not> hname_eq h k) l @ [(stored_key l k, v)]),
     map_get_all = values_of,
     map_iter = (\<lambda>l. l),
     map_values_len = length,
     map_contains_key = (\<lambda>l k. values_of l k \<noteq> [])\<rparr>"

lemma values_of_filter:
  "values_of (filter (\<lambda>(h, _). \<not> hname_eq h k) l) k' = (if hname_eq k k' then [] else values_of l k')"
  by (induction l) (auto dest: hname_eq_cong hname_eq_sym)

lemma values_of_absent:
  assumes "values_of l k = []"
  shows "filter (\<lambda>(h, _). \<not> hname_eq h k) l = l" "stored_key l k = k"
proof -
  have *: "\<not> hname_eq h k" if "(h, v) \<in> set l" for h v
    using assms that by (fastforce simp: values_of_def filter_empty_conv)
  show "filter (\<lambda>(h, _). \<not> hname_eq h k) l = l" using * by (auto intro!: filter_True)
  have "find (\<lambda>(h, _). hname_eq h k) l = None" using * by (auto simp: find_None_iff)
  then show "stored_key l k = k" by (simp add: stored_key_def)
qed

lemma list_headers_laws: "header_map_laws list_headers"
  using hname_eq_cong(1) [OF stored_key_eq]
  by (auto simp: header_map_laws_def list_headers_def values_of_append values_of_filter values_of_absent)

subsection \<open>Typed headers\<close>

text \<open>
  \<open>ExtendWrapper::extend\<close>: the first value goes through the entry (\<open>Initial\<close>), the others are
  appended (\<open>Rest\<close>). The encoded values of a typed header are a list.
\<close>

datatype ExtendState = ExtendInitial | ExtendRest

fun extend_wrapper :: "'m header_map_ops \<Rightarrow> HeaderName \<Rightarrow> ExtendState \<Rightarrow> HeaderValue list \<Rightarrow> 'm \<Rightarrow> 'm" where
  "extend_wrapper M k st [] m = m"
| "extend_wrapper M k ExtendInitial (v # vs) m = extend_wrapper M k ExtendRest vs (map_insert M m k v)"
| "extend_wrapper M k ExtendRest (v # vs) m = extend_wrapper M k ExtendRest vs (map_append M m k v)"

definition typed_insert :: "'m header_map_ops \<Rightarrow> HeaderName \<Rightarrow> ('h \<Rightarrow> HeaderValue list) \<Rightarrow> 'h \<Rightarrow> 'm \<Rightarrow> 'm" where
  "typed_insert M header_name encode header m =
     extend_wrapper M header_name ExtendInitial (encode header) m"

definition typed_try_get ::
  "'m header_map_ops \<Rightarrow> HeaderName \<Rightarrow> (HeaderValue list \<Rightarrow> 'e + 'h option) \<Rightarrow> 'm \<Rightarrow> 'e + 'h option" where
  "typed_try_get M header_name decode m = decode (map_get_all M m header_name)"

definition typed_get ::
  "'m header_map_ops \<Rightarrow> HeaderName \<Rightarrow> (HeaderValue list \<Rightarrow> 'e + 'h option) \<Rightarrow> 'm \<Rightarrow> 'h option" where
  "typed_get M header_name decode m =
     (case typed_try_get M header_name decode m of Err _ \<Rightarrow> None | Ok h \<Rightarrow> h)"

lemma typed_insert_absent:
  assumes "header_map_laws M" "values_of (map_iter M m) k = []" "enc h = [v]"
  shows "map_iter M (typed_insert M k enc h m) = map_iter M m @ [(k, v)]"
  using assms by (simp add: typed_insert_def header_map_lawsD(7))

lemma extend_rest_get_all:
  assumes "header_map_laws M"
  shows "map_get_all M (extend_wrapper M k ExtendRest vs m) k' =
    map_get_all M m k' @ (if hname_eq k k' then vs else [])"
  by (induction vs arbitrary: m) (simp_all add: get_all_append [OF assms])

lemma typed_insert_get_all:
  assumes "header_map_laws M"
  shows "map_get_all M (typed_insert M k enc h m) k' =
    (if hname_eq k k' \<and> enc h \<noteq> [] then enc h else map_get_all M m k')"
  by (cases "enc h")
     (simp_all add: typed_insert_def extend_rest_get_all [OF assms] header_map_lawsD(6) [OF assms])

text \<open>
  The contract of a typed header: what it encodes to is at least one acceptable value and decodes
  to it, and what decodes is a value of the header.
\<close>

locale typed_header =
  fixes header_name :: HeaderName
    and decode :: "HeaderValue list \<Rightarrow> 'e + 'h option"
    and encode :: "'h \<Rightarrow> HeaderValue list"
    and valid :: "'h \<Rightarrow> bool"
  assumes decode_encode: "valid h \<Longrightarrow> decode (encode h) = Ok (Some h)"
    and decode_absent: "decode [] = Ok None"
    and decode_valid: "decode vs = Ok (Some h) \<Longrightarrow> valid h"
    and encode_valid: "valid h \<Longrightarrow> v \<in> set (encode h) \<Longrightarrow> value_valid v"
begin

lemma encode_nonempty: "valid h \<Longrightarrow> encode h \<noteq> []"
  using decode_encode decode_absent by (metis Inr_inject option.distinct(1))

lemma encode_inject: "valid h \<Longrightarrow> valid h' \<Longrightarrow> encode h = encode h' \<longleftrightarrow> h = h'"
  using decode_encode by (metis Inr_inject option.inject)

lemma get_after_insert:
  assumes "header_map_laws M" "valid h"
  shows "typed_try_get M header_name decode (typed_insert M header_name encode h m) = Ok (Some h)"
  using assms encode_nonempty
  by (simp add: typed_try_get_def typed_insert_get_all decode_encode)

lemma get_default:
  assumes "header_map_laws M"
  shows "typed_try_get M header_name decode (map_default M) = Ok None"
  by (simp add: typed_try_get_def header_map_lawsD [OF assms] decode_absent)

lemma get_after_other_insert:
  assumes "header_map_laws M" "\<not> hname_eq k header_name"
  shows "typed_try_get M header_name decode (typed_insert M k enc x m)
    = typed_try_get M header_name decode m"
  using assms by (simp add: typed_try_get_def typed_insert_get_all)

lemma get_valid: "typed_get M header_name decode m = Some h \<Longrightarrow> valid h"
  by (auto simp: typed_get_def typed_try_get_def split: sum.splits dest: decode_valid)

end

end
