(* ===== verification/CSeq.thy ===== *)
theory CSeq
  imports HeaderMap
begin

text \<open>
  The sequence number header: \<^verbatim>\<open>rtsp-2/src/header/types/cseq.rs\<close>. The number is a \<open>u32\<close> that
  its constructors keep at most \<open>MAX_CSEQ\<close>; the arithmetic of the source is arithmetic on 32-bit
  words, and the lemmas show that it never wraps there.
\<close>

datatype CSeq = CSeq (cseq_value: "32 word")

datatype CSeqError =
  CSeqEmpty | CSeqExceedsMaximumLength | CSeqInvalidDigit | CSeqMoreThanOneHeader | CSeqOverflow

definition MAX_CSEQ :: "32 word" where "MAX_CSEQ = 999999999"

text \<open>The derived order compares the numbers.\<close>

instantiation CSeq :: linorder
begin

definition less_eq_CSeq :: "CSeq \<Rightarrow> CSeq \<Rightarrow> bool" where
  "a \<le> b \<longleftrightarrow> cseq_value a \<le> cseq_value b"

definition less_CSeq :: "CSeq \<Rightarrow> CSeq \<Rightarrow> bool" where
  "a < b \<longleftrightarrow> cseq_value a < cseq_value b"

instance
  by standard (auto simp: less_eq_CSeq_def less_CSeq_def CSeq.expand)

end

definition cseq_default :: CSeq where "cseq_default = CSeq 0"

definition wrapping_increment :: "CSeq \<Rightarrow> CSeq" where
  "wrapping_increment c = CSeq ((cseq_value c + 1) mod (MAX_CSEQ + 1))"

definition cseq_add :: "CSeq \<Rightarrow> CSeq \<Rightarrow> CSeq" where
  "cseq_add a b = CSeq ((cseq_value a + cseq_value b) mod (MAX_CSEQ + 1))"

definition cseq_sub :: "CSeq \<Rightarrow> CSeq \<Rightarrow> CSeq" where
  "cseq_sub a b =
     CSeq (if a \<ge> b then cseq_value a - cseq_value b else MAX_CSEQ - (cseq_value b - cseq_value a))"

definition cseq_try_from_u32 :: "32 word \<Rightarrow> CSeqError + CSeq" where
  "cseq_try_from_u32 value = (if value > MAX_CSEQ then Err CSeqExceedsMaximumLength else Ok (CSeq value))"

text \<open>\<open>random\<close>: the argument is what \<open>gen_range(0, MAX_CSEQ + 1)\<close> of the third-party \<open>rand\<close> draws.\<close>

definition cseq_random :: "32 word \<Rightarrow> CSeq" where "cseq_random draw = CSeq draw"

text \<open>\<open>TryFrom<IntErrorKind>\<close>; the kinds that \<open>parse::<u32>\<close> returns all convert.\<close>

fun cseq_int_error :: "int_error_kind \<Rightarrow> CSeqError" where
  "cseq_int_error IntEmpty = CSeqEmpty"
| "cseq_int_error IntInvalidDigit = CSeqInvalidDigit"
| "cseq_int_error IntPosOverflow = CSeqOverflow"

definition cseq_decode :: "HeaderValue list \<Rightarrow> CSeqError + CSeq option" where
  "cseq_decode values =
     (case values of
        [] \<Rightarrow> Ok None
      | value # rest \<Rightarrow>
          if rest \<noteq> [] then Err CSeqMoreThanOneHeader
          else case map_err cseq_int_error (parse_uint u32_max (value_as_str value)) of
            Err e \<Rightarrow> Err e
          | Ok cseq \<Rightarrow>
              (case cseq_try_from_u32 (word_of_nat cseq) of Err e \<Rightarrow> Err e | Ok c \<Rightarrow> Ok (Some c)))"

definition cseq_encode :: "CSeq \<Rightarrow> HeaderValue list" where
  "cseq_encode c = [from_string_unchecked (decimal (unat (cseq_value c)))]"

definition cseq_header_name :: HeaderName where "cseq_header_name = HeaderCSeq"

subsection \<open>Facts\<close>

definition cseq_valid :: "CSeq \<Rightarrow> bool" where
  "cseq_valid c \<longleftrightarrow> cseq_value c \<le> MAX_CSEQ"

abbreviation cseq_nat :: "CSeq \<Rightarrow> nat" where "cseq_nat c \<equiv> unat (cseq_value c)"

lemma unat_MAX_CSEQ [simp]: "unat MAX_CSEQ = 999999999"
  by (simp add: MAX_CSEQ_def)

lemma unat_MAX_CSEQ_1 [simp]: "unat (MAX_CSEQ + 1) = 1000000000"
  by (simp add: MAX_CSEQ_def)

lemma cseq_valid_iff: "cseq_valid c \<longleftrightarrow> cseq_nat c \<le> 999999999"
  by (simp add: cseq_valid_def word_le_nat_alt)

lemma cseq_eq_iff: "a = b \<longleftrightarrow> cseq_nat a = cseq_nat b"
  by (auto simp: CSeq.expand word_unat_eq_iff)

lemma cseq_le_iff: "a \<le> b \<longleftrightarrow> cseq_nat a \<le> cseq_nat b"
  by (simp add: less_eq_CSeq_def word_le_nat_alt)

lemma cseq_less_iff: "a < b \<longleftrightarrow> cseq_nat a < cseq_nat b"
  by (simp add: less_CSeq_def word_less_nat_alt)

text \<open>No addition of two sequence numbers overflows the \<open>u32\<close>, so addition is modular.\<close>

lemma unat_plus_small: "unat (a :: 32 word) + unat b < 4294967296 \<Longrightarrow> unat (a + b) = unat a + unat b"
  by (simp add: unat_word_ariths)

lemma cseq_nat_add:
  assumes "cseq_valid a" "cseq_valid b"
  shows "cseq_nat (cseq_add a b) = (cseq_nat a + cseq_nat b) mod 1000000000"
  using assms by (simp add: cseq_add_def cseq_valid_iff unat_mod unat_plus_small)

lemma cseq_nat_increment:
  assumes "cseq_valid a"
  shows "cseq_nat (wrapping_increment a) = (cseq_nat a + 1) mod 1000000000"
  using assms by (simp add: wrapping_increment_def cseq_valid_iff unat_mod unat_plus_small)

lemma unat_minus_small: "unat (b :: 32 word) \<le> unat a \<Longrightarrow> unat (a - b) = unat a - unat b"
  by (simp add: unat_sub word_le_nat_alt)

lemma cseq_nat_sub:
  assumes "cseq_valid a" "cseq_valid b"
  shows "cseq_nat (cseq_sub a b) =
    (if cseq_nat b \<le> cseq_nat a then cseq_nat a - cseq_nat b else 999999999 - (cseq_nat b - cseq_nat a))"
  using assms by (simp add: cseq_sub_def cseq_valid_iff cseq_le_iff unat_minus_small)

lemma cseq_ops_valid:
  "cseq_valid cseq_default"
  "cseq_valid a \<Longrightarrow> cseq_valid (wrapping_increment a)"
  "cseq_valid a \<Longrightarrow> cseq_valid b \<Longrightarrow> cseq_valid (cseq_add a b)"
  "cseq_valid a \<Longrightarrow> cseq_valid b \<Longrightarrow> cseq_valid (cseq_sub a b)"
proof -
  have less: "n mod 1000000000 \<le> 999999999" for n :: nat
    by (rule less_Suc_eq_le [THEN iffD1]) simp
  show "cseq_valid a \<Longrightarrow> cseq_valid (wrapping_increment a)"
    unfolding cseq_valid_iff [of "wrapping_increment a"] using less by (simp only: cseq_nat_increment)
  show "cseq_valid a \<Longrightarrow> cseq_valid b \<Longrightarrow> cseq_valid (cseq_add a b)"
    unfolding cseq_valid_iff [of "cseq_add a b"] using less by (simp only: cseq_nat_add)
  show "cseq_valid a \<Longrightarrow> cseq_valid b \<Longrightarrow> cseq_valid (cseq_sub a b)"
    unfolding cseq_valid_iff [of "cseq_sub a b"]
    by (simp only: cseq_nat_sub) (auto simp: cseq_valid_iff)
qed (simp add: cseq_valid_iff cseq_default_def)

lemma cseq_try_from_u32_Ok: "cseq_try_from_u32 w = Ok c \<longleftrightarrow> c = CSeq w \<and> cseq_valid c"
  by (auto simp: cseq_try_from_u32_def cseq_valid_def not_less)

lemma cseq_random_valid: "draw < MAX_CSEQ + 1 \<Longrightarrow> cseq_valid (cseq_random draw)"
  unfolding cseq_valid_iff cseq_random_def by (simp add: word_less_nat_alt)

lemma decimal_value_valid: "value_valid (from_string_unchecked (decimal n))"
proof -
  have dig: "48 \<le> u8 c \<and> u8 c \<le> 57" if "c \<in> set (decimal n)" for c
    using decimal_digits [OF that] .
  then have "\<forall>c \<in> set (decimal n). is_ascii c" "\<forall>c \<in> set (decimal n). text_byte c"
    by (force simp: is_ascii_def, force simp: text_byte_def)
  then show ?thesis
    by (simp add: value_valid_def from_string_unchecked_def utf8_chars_ascii value_bytes_text)
qed

lemma cseq_decode_encode: "cseq_valid c \<Longrightarrow> cseq_decode (cseq_encode c) = Ok (Some c)"
  by (simp add: cseq_decode_def cseq_encode_def from_string_unchecked_def parse_uint_decimal
      cseq_valid_iff cseq_try_from_u32_def MAX_CSEQ_def word_less_nat_alt)

interpretation cseq_hdr: typed_header cseq_header_name cseq_decode cseq_encode cseq_valid
proof unfold_locales
  fix c vs
  show "cseq_valid c" if "cseq_decode vs = Ok (Some c)"
    using that by (auto simp: cseq_decode_def cseq_try_from_u32_Ok split: list.splits if_splits sum.splits)
qed (auto simp: cseq_decode_encode, auto simp: cseq_decode_def cseq_encode_def decimal_value_valid)

text \<open>Adding back what was subtracted: exact without a wrap, one short with it.\<close>

lemma cseq_sub_add:
  assumes "cseq_valid a" "cseq_valid b"
  shows "cseq_nat (cseq_add (cseq_sub a b) b) =
    (if cseq_nat b \<le> cseq_nat a then cseq_nat a
     else if cseq_nat a = 0 then 999999999 else cseq_nat a - 1)"
proof -
  have "cseq_valid (cseq_sub a b)" using assms by (rule cseq_ops_valid)
  then have "cseq_nat (cseq_add (cseq_sub a b) b) = (cseq_nat (cseq_sub a b) + cseq_nat b) mod 1000000000"
    using assms by (simp add: cseq_nat_add)
  moreover have "cseq_nat (cseq_sub a b) + cseq_nat b = 999999999 + cseq_nat a"
    if "\<not> cseq_nat b \<le> cseq_nat a"
    using that assms by (simp add: cseq_nat_sub cseq_valid_iff)
  moreover have "(999999999 + n) mod 1000000000 = (if n = 0 then 999999999 else n - 1)"
    if "n \<le> 999999999" for n :: nat
    using that by (cases n) auto
  ultimately show ?thesis
    using assms by (simp add: cseq_nat_sub cseq_valid_iff)
qed

subsection \<open>Properties\<close>

text \<open>
  The sequence numbers that a connection uses, one increment after the other, are the initial
  number plus the number of increments, modulo \<open>MAX_CSEQ + 1\<close>; they stay within the limit, so that
  the 32-bit addition never overflows.
\<close>

theorem cseq_increments:
  assumes "cseq_valid c"
  shows "cseq_valid ((wrapping_increment ^^ n) c)
    \<and> cseq_nat ((wrapping_increment ^^ n) c) = (cseq_nat c + n) mod 1000000000"
proof (induction n)
  case 0
  then show ?case using assms by (simp add: cseq_valid_iff)
next
  case (Suc n)
  then show ?case
    using cseq_ops_valid(2) [of "(wrapping_increment ^^ n) c"]
    by (simp add: cseq_nat_increment mod_Suc_eq)
qed

lemma cseq_increments_witness:
  "cseq_nat ((wrapping_increment ^^ 2) (CSeq 999999998)) = 0"
proof -
  have "cseq_valid (CSeq 999999998)" by code_simp
  from cseq_increments [OF this, of 2] show ?thesis by simp
qed

text \<open>
  C40. Addition and subtraction of valid sequence numbers stay valid. Adding back what was
  subtracted gives the first number when the subtraction did not wrap; when it did, the result is
  one short of it, so that a wrapped difference is one less than the number of increments between
  the two.
\<close>

theorem cseq_difference:
  assumes "cseq_valid a" "cseq_valid b"
  shows "cseq_valid (cseq_add a b) \<and> cseq_valid (cseq_sub a b)
    \<and> cseq_nat (cseq_add (cseq_sub a b) b) =
        (if b \<le> a then cseq_nat a else if cseq_nat a = 0 then 999999999 else cseq_nat a - 1)"
  using assms cseq_ops_valid(3,4) [OF assms] cseq_sub_add [OF assms] by (simp add: cseq_le_iff)

lemma cseq_difference_witness:
  "cseq_nat (cseq_add (cseq_sub (CSeq 3) (CSeq 999999999)) (CSeq 999999999)) = 2"
proof -
  have ok: "cseq_valid (CSeq 3)" "cseq_valid (CSeq 999999999)" by code_simp+
  have "\<not> CSeq 999999999 \<le> CSeq 3" "cseq_nat (CSeq 3) = 3" by code_simp+
  with cseq_difference [OF ok] show ?thesis by simp
qed

text \<open>
  Reading the sequence number of a map after inserting one gives that number, whatever the map
  held before; inserting a header of another name does not change it; and what is read is always
  within the limit.
\<close>

theorem cseq_header_map:
  assumes "header_map_laws M" "cseq_valid c" "\<not> hname_eq k HeaderCSeq"
  shows "typed_get M cseq_header_name cseq_decode (typed_insert M cseq_header_name cseq_encode c m) = Some c
    \<and> typed_get M cseq_header_name cseq_decode (typed_insert M k enc x m) = typed_get M cseq_header_name cseq_decode m
    \<and> (case typed_get M cseq_header_name cseq_decode m of None \<Rightarrow> True | Some d \<Rightarrow> cseq_valid d)"
proof -
  have k: "\<not> hname_eq k cseq_header_name" using assms(3) by (simp add: cseq_header_name_def)
  have "typed_get M cseq_header_name cseq_decode (typed_insert M cseq_header_name cseq_encode c m) = Some c"
    using cseq_hdr.get_after_insert [OF assms(1,2)] by (simp add: typed_get_def)
  moreover have "typed_get M cseq_header_name cseq_decode (typed_insert M k enc x m)
      = typed_get M cseq_header_name cseq_decode m"
    using cseq_hdr.get_after_other_insert [OF assms(1) k, where enc = enc and x = x and m = m] by (simp add: typed_get_def)
  ultimately show ?thesis using cseq_hdr.get_valid [of M m] by (auto split: option.split)
qed

lemma cseq_header_map_witness:
  "typed_get list_headers cseq_header_name cseq_decode
     (typed_insert list_headers cseq_header_name cseq_encode (CSeq 7) [(HeaderExtension ''cseq'' ''cseq'', HeaderValue ''1'')]) = Some (CSeq 7)"
proof -
  have "cseq_valid (CSeq 7)" "\<not> hname_eq HeaderDate HeaderCSeq" by code_simp+
  from cseq_header_map [OF list_headers_laws this, where m = "[(HeaderExtension ''cseq'' ''cseq'', HeaderValue ''1'')]"]
  show ?thesis by (rule conjunct1)
qed

end
