(* ===== verification/ContentLength.thy ===== *)
theory ContentLength
  imports CSeq
begin

text \<open>
  The body length header: \<^verbatim>\<open>rtsp-2/src/header/types/content_length.rs\<close>, on a 64-bit target
  (\<open>usize\<close> is at most \<open>u64_max\<close>).
\<close>

datatype ContentLength = ContentLength (content_length_value: nat)

datatype ContentLengthError =
    ContentLengthEmpty | ContentLengthExceedsMaximumLength | ContentLengthInvalidDigit
  | ContentLengthMoreThanOneHeader | ContentLengthOverflow

definition MAX_CONTENT_LENGTH :: nat where "MAX_CONTENT_LENGTH = 9999999999999999999"

definition content_length_try_from_usize :: "nat \<Rightarrow> ContentLengthError + ContentLength" where
  "content_length_try_from_usize value =
     (if value > MAX_CONTENT_LENGTH then Err ContentLengthExceedsMaximumLength
      else Ok (ContentLength value))"

fun content_length_int_error :: "int_error_kind \<Rightarrow> ContentLengthError" where
  "content_length_int_error IntEmpty = ContentLengthEmpty"
| "content_length_int_error IntInvalidDigit = ContentLengthInvalidDigit"
| "content_length_int_error IntPosOverflow = ContentLengthOverflow"

definition content_length_default :: ContentLength where
  "content_length_default = ContentLength 0"

definition content_length_decode :: "HeaderValue list \<Rightarrow> ContentLengthError + ContentLength option" where
  "content_length_decode values =
     (case values of
        [] \<Rightarrow> Ok None
      | value # rest \<Rightarrow>
          if rest \<noteq> [] then Err ContentLengthMoreThanOneHeader
          else case map_err content_length_int_error (parse_uint u64_max (value_as_str value)) of
            Err e \<Rightarrow> Err e
          | Ok n \<Rightarrow>
              (case content_length_try_from_usize n of Err e \<Rightarrow> Err e | Ok c \<Rightarrow> Ok (Some c)))"

definition content_length_encode :: "ContentLength \<Rightarrow> HeaderValue list" where
  "content_length_encode c = [from_string_unchecked (decimal (content_length_value c))]"

definition content_length_header_name :: HeaderName where
  "content_length_header_name = HeaderContentLength"

definition content_length_valid :: "ContentLength \<Rightarrow> bool" where
  "content_length_valid c \<longleftrightarrow> content_length_value c \<le> MAX_CONTENT_LENGTH"

lemma content_length_try_from_Ok:
  "content_length_try_from_usize n = Ok c \<longleftrightarrow> c = ContentLength n \<and> content_length_valid c"
  by (auto simp: content_length_try_from_usize_def content_length_valid_def)

lemma content_length_decode_encode:
  "content_length_valid c \<Longrightarrow> content_length_decode (content_length_encode c) = Ok (Some c)"
  by (cases c) (simp add: content_length_decode_def content_length_encode_def from_string_unchecked_def
      parse_uint_decimal content_length_valid_def content_length_try_from_usize_def MAX_CONTENT_LENGTH_def)

interpretation content_length_hdr: typed_header content_length_header_name content_length_decode
    content_length_encode content_length_valid
proof unfold_locales
  fix c vs
  show "content_length_valid c" if "content_length_decode vs = Ok (Some c)"
    using that by (auto simp: content_length_decode_def content_length_try_from_Ok
        split: list.splits if_splits sum.splits)
qed (auto simp: content_length_decode_encode,
     auto simp: content_length_decode_def content_length_encode_def decimal_value_valid)

end
