(* ===== verification/Decoder.thy ===== *)
theory Decoder
  imports ContentLength Syntax
begin

text \<open>
  What the request and the response decoders share: \<^verbatim>\<open>rtsp-2/src/protocol/codec/decoder/mod.rs\<close>.
  The locale \<open>incremental_decoder\<close> is the contract between a decoder's steps and its loop; the
  facts proved in it say that a decoder can be fed its input in pieces.
\<close>

definition BODY_DEFAULT_MAX_LENGTH :: nat where "BODY_DEFAULT_MAX_LENGTH = 65536"
definition HEADER_DEFAULT_MAX_COUNT :: nat where "HEADER_DEFAULT_MAX_COUNT = 64"
definition HEADER_NAME_DEFAULT_MAX_LENGTH :: nat where "HEADER_NAME_DEFAULT_MAX_LENGTH = 100"
definition HEADER_VALUE_DEFAULT_MAX_LENGTH :: nat where "HEADER_VALUE_DEFAULT_MAX_LENGTH = 2000"
definition METHOD_DEFAULT_MAX_LENGTH :: nat where "METHOD_DEFAULT_MAX_LENGTH = 50"
definition REASON_PHRASE_DEFAULT_MAX_LENGTH :: nat where "REASON_PHRASE_DEFAULT_MAX_LENGTH = 50"
definition URI_DEFAULT_MAX_LENGTH :: nat where "URI_DEFAULT_MAX_LENGTH = 2000"

lemmas decoder_limits = BODY_DEFAULT_MAX_LENGTH_def HEADER_DEFAULT_MAX_COUNT_def
  HEADER_NAME_DEFAULT_MAX_LENGTH_def HEADER_VALUE_DEFAULT_MAX_LENGTH_def METHOD_DEFAULT_MAX_LENGTH_def
  REASON_PHRASE_DEFAULT_MAX_LENGTH_def URI_DEFAULT_MAX_LENGTH_def

datatype ('r, 'e) DecodeResult = Complete 'r | DecodeFailed 'e | Incomplete

definition is_complete :: "('r, 'e) DecodeResult \<Rightarrow> bool" where
  "is_complete d = (case d of Complete _ \<Rightarrow> True | _ \<Rightarrow> False)"

definition is_error :: "('r, 'e) DecodeResult \<Rightarrow> bool" where
  "is_error d = (case d of DecodeFailed _ \<Rightarrow> True | _ \<Rightarrow> False)"

definition is_incomplete :: "('r, 'e) DecodeResult \<Rightarrow> bool" where
  "is_incomplete d = (case d of Incomplete \<Rightarrow> True | _ \<Rightarrow> False)"

definition decode_result_map :: "('r \<Rightarrow> 's) \<Rightarrow> ('r, 'e) DecodeResult \<Rightarrow> ('s, 'e) DecodeResult" where
  "decode_result_map mapper d =
     (case d of Complete v \<Rightarrow> Complete (mapper v) | DecodeFailed e \<Rightarrow> DecodeFailed e | Incomplete \<Rightarrow> Incomplete)"

definition decode_result_map_error :: "('e \<Rightarrow> 'f) \<Rightarrow> ('r, 'e) DecodeResult \<Rightarrow> ('r, 'f) DecodeResult" where
  "decode_result_map_error mapper d =
     (case d of Complete v \<Rightarrow> Complete v | DecodeFailed e \<Rightarrow> DecodeFailed (mapper e) | Incomplete \<Rightarrow> Incomplete)"

definition decode_result_unwrap :: "('r, 'e) DecodeResult \<Rightarrow> 'r option" where
  "decode_result_unwrap d = (case d of Complete v \<Rightarrow> Some v | _ \<Rightarrow> None)"

definition decode_result_unwrap_error :: "('r, 'e) DecodeResult \<Rightarrow> 'e option" where
  "decode_result_unwrap_error d = (case d of DecodeFailed e \<Rightarrow> Some e | _ \<Rightarrow> None)"

definition decode_result_from :: "'e + 'r \<Rightarrow> ('r, 'e) DecodeResult" where
  "decode_result_from r = (case r of Ok v \<Rightarrow> Complete v | Err e \<Rightarrow> DecodeFailed e)"

subsection \<open>Trimming\<close>

fun trim_header_name_loop :: "bytes \<Rightarrow> nat \<Rightarrow> nat" where
  "trim_header_name_loop name 0 = 0"
| "trim_header_name_loop name (Suc index) =
     (if name ! index = SP \<or> name ! index = HT then trim_header_name_loop name index else Suc index)"

definition trim_header_name :: "bytes \<Rightarrow> bytes" where
  "trim_header_name name = take (trim_header_name_loop name (length name)) name"

function trim_header_value_loop :: "bytes \<Rightarrow> nat \<Rightarrow> nat" where
  "trim_header_value_loop value index =
     (if index < length value then
        (if value ! index = SP \<or> value ! index = HT then trim_header_value_loop value (index + 1)
         else index)
      else index)"
  by pat_completeness auto
termination
  by (relation "measure (\<lambda>(value, index). length value - index)") auto

declare trim_header_value_loop.simps [simp del]

definition trim_header_value :: "bytes \<Rightarrow> bytes" where
  "trim_header_value value =
     (let has_initial_linebreak = starts_with value CRLF;
          index = trim_header_value_loop value (if has_initial_linebreak then 2 else 0)
      in if has_initial_linebreak \<and> index = 2 then value else drop index value)"

text \<open>The references: blanks are dropped from the end of a name and from the front of a value.\<close>

lemma trim_header_name_eq: "trim_header_name name = rev (dropWhile is_blank (rev name))"
proof -
  have "take (trim_header_name_loop name n) name = rev (dropWhile is_blank (rev (take n name)))"
    if "n \<le> length name" for n
    using that
  proof (induction n)
    case (Suc n)
    then show ?case
      by (simp add: take_Suc_conv_app_nth is_blank_def)
  qed simp
  from this [of "length name"] show ?thesis by (simp add: trim_header_name_def)
qed

lemma trim_header_value_loop_eq:
  "drop (trim_header_value_loop value index) value = dropWhile is_blank (drop index value)
   \<and> index \<le> trim_header_value_loop value index
   \<and> (trim_header_value_loop value index = index \<longleftrightarrow>
        index \<ge> length value \<or> \<not> is_blank (value ! index))"
proof (induction "value" index rule: trim_header_value_loop.induct)
  case (1 v index)
  show ?case
  proof (cases "index < length v \<and> is_blank (v ! index)")
    case True
    then have "index < length v" "v ! index = SP \<or> v ! index = HT"
      by (simp_all add: is_blank_def)
    from "1.IH" [OF this] have "drop (trim_header_value_loop v (index + 1)) v
        = dropWhile is_blank (drop (index + 1) v)"
      "index + 1 \<le> trim_header_value_loop v (index + 1)" by blast+
    moreover have "trim_header_value_loop v index = trim_header_value_loop v (index + 1)"
      using True by (subst trim_header_value_loop.simps) (auto simp: is_blank_def)
    ultimately show ?thesis using True by (simp add: Cons_nth_drop_Suc [symmetric])
  next
    case False
    then have "trim_header_value_loop v index = index"
      by (subst trim_header_value_loop.simps) (auto simp: is_blank_def)
    moreover have "dropWhile is_blank (drop index v) = drop index v"
      using False by (cases "index < length v") (simp_all add: Cons_nth_drop_Suc [symmetric])
    ultimately show ?thesis using False by auto
  qed
qed

lemma trim_header_value_eq:
  "trim_header_value value =
     (case value of
        c # d # e # r \<Rightarrow>
          if c = CR \<and> d = LF then (if is_blank e then dropWhile is_blank r else value)
          else dropWhile is_blank value
      | _ \<Rightarrow> if value = CRLF then value else dropWhile is_blank value)"
proof (cases "starts_with value CRLF")
  case True
  then obtain r where v: "value = CR # LF # r" by (auto simp: starts_with_iff)
  have "trim_header_value_loop value 2 = 2 \<longleftrightarrow> r = [] \<or> \<not> is_blank (hd r)"
    using trim_header_value_loop_eq [of "value" 2] v by (cases r) auto
  moreover have "drop (trim_header_value_loop value 2) value = dropWhile is_blank r"
    using trim_header_value_loop_eq [of "value" 2] v by simp
  ultimately show ?thesis
    using True v by (cases r) (auto simp: trim_header_value_def Let_def)
next
  case False
  then have "trim_header_value value = dropWhile is_blank value"
    using trim_header_value_loop_eq [of "value" 0] by (simp add: trim_header_value_def Let_def)
  with False show ?thesis
    by (auto split: list.splits)
qed

lemma length_trim_header_value: "length (trim_header_value v) \<le> length v"
  by (simp add: trim_header_value_def Let_def)

subsection \<open>Line ends\<close>

definition eol_at :: "bytes \<Rightarrow> nat \<Rightarrow> bool" where
  "eol_at b i \<longleftrightarrow> i + 1 < length b \<and> b ! i = CR \<and> b ! (i + 1) = LF"

definition fold_at :: "bytes \<Rightarrow> nat \<Rightarrow> bool" where
  "fold_at b i \<longleftrightarrow> i + 2 < length b \<and> is_blank (b ! (i + 2))"

lemma eol_at_append: "i + 1 < length b \<Longrightarrow> eol_at (b @ x) i = eol_at b i"
  by (simp add: eol_at_def nth_append)

lemma fold_at_append: "i + 2 < length b \<Longrightarrow> fold_at (b @ x) i = fold_at b i"
  by (simp add: fold_at_def nth_append)

lemma eol_at_shift: "eol_at (p @ b) (length p + i) = eol_at b i"
  by (simp add: eol_at_def nth_append)

lemma fold_at_shift: "fold_at (p @ b) (length p + i) = fold_at b i"
  by (simp add: fold_at_def nth_append)

definition eol_indices :: "nat \<Rightarrow> bytes \<Rightarrow> nat list" where
  "eol_indices max_length buffer =
     map fst (filter (\<lambda>(_, w). w = (CR, LF)) (enumerate 0 (take max_length (windows2 buffer))))"

lemma enumerate_filter:
  "map fst (filter (\<lambda>(_, w). P w) (enumerate n xs)) = filter (\<lambda>i. P (xs ! (i - n))) [n..<n + length xs]"
proof (induction xs arbitrary: n)
  case (Cons x xs)
  have "[n..<n + length (x # xs)] = n # [Suc n..<Suc n + length xs]"
    by (simp add: upt_conv_Cons del: upt_Suc)
  moreover have "filter (\<lambda>i. P ((x # xs) ! (i - n))) [Suc n..<Suc n + length xs]
      = filter (\<lambda>i. P (xs ! (i - Suc n))) [Suc n..<Suc n + length xs]"
    by (rule filter_cong) (auto simp: nth_Cons' Suc_diff_le less_Suc_eq_le)
  ultimately show ?case using Cons.IH [of "Suc n"] by simp
qed simp

lemma eol_indices_eq: "eol_indices m b = filter (eol_at b) [0..<m]"
proof -
  let ?w = "take m (windows2 b)"
  have len: "length ?w = min m (length b - 1)" by (simp add: min.commute)
  have "eol_indices m b = filter (\<lambda>i. ?w ! i = (CR, LF)) [0..<length ?w]"
    using enumerate_filter [of "\<lambda>w. w = (CR, LF)" 0 ?w] by (simp add: eol_indices_def)
  also have "\<dots> = filter (eol_at b) [0..<length ?w]"
    by (rule filter_cong) (auto simp: len eol_at_def nth_windows2)
  also have "\<dots> = filter (eol_at b) [0..<m]"
  proof -
    have "[0..<m] = [0..<length ?w] @ [length ?w..<m]"
      using len upt_add_eq_append [of 0 "length ?w" "m - length ?w"] by simp
    moreover have "filter (eol_at b) [length ?w..<m] = []"
      using len by (auto simp: filter_empty_conv eol_at_def)
    ultimately show ?thesis by simp
  qed
  finally show ?thesis .
qed

lemma eol_indices_extend:
  "position (\<lambda>w. w = (CR, LF)) (take m (windows2 b)) = Some i \<Longrightarrow>
   position (\<lambda>w. w = (CR, LF)) (take m (windows2 (b @ x))) = Some i"
proof -
  obtain w where "windows2 (b @ x) = windows2 b @ w" using windows2_append by blast
  then show "position (\<lambda>w. w = (CR, LF)) (take m (windows2 b)) = Some i \<Longrightarrow> ?thesis"
    by (simp add: position_append_Some)
qed

lemma drop_append_le: "n \<le> length b \<Longrightarrow> drop n b @ x = drop n (b @ x)"
  by simp

text \<open>A search that succeeds in the buffered bytes succeeds at the same index when more follow.\<close>

lemma position_take_stable:
  assumes "position P (take n b) = Some i"
  shows "i < length b" "position P (take n (b @ x)) = Some i" "take i (b @ x) = take i b"
    "drop (Suc i) (b @ x) = drop (Suc i) b @ x"
proof -
  show "i < length b" using position_less [OF assms] by simp
  then show "position P (take n (b @ x)) = Some i" "take i (b @ x) = take i b"
    "drop (Suc i) (b @ x) = drop (Suc i) b @ x"
    using position_append_Some [OF assms] by simp_all
qed

text \<open>The least index below \<open>m\<close> with a property.\<close>

definition first_index :: "(nat \<Rightarrow> bool) \<Rightarrow> nat \<Rightarrow> nat option" where
  "first_index P m = find P [0..<m]"

lemma first_index_Some: "first_index P m = Some i \<longleftrightarrow> i < m \<and> P i \<and> (\<forall>j < i. \<not> P j)"
  by (fastforce simp: first_index_def find_Some_iff simp del: upt_Suc)

lemma first_index_None: "first_index P m = None \<longleftrightarrow> (\<forall>i < m. \<not> P i)"
  by (auto simp: first_index_def find_None_iff simp del: upt_Suc)

definition line_end :: "bytes \<Rightarrow> nat \<Rightarrow> bool" where
  "line_end b i \<longleftrightarrow> eol_at b i \<and> \<not> fold_at b i"

lemma line_end_append: "i + 2 < length b \<Longrightarrow> line_end (b @ x) i = line_end b i"
  by (simp add: line_end_def eol_at_append fold_at_append)

lemma find_line_end_stable:
  assumes "first_index (line_end b) m = Some i" "i + 2 < length b"
  shows "first_index (line_end (b @ x)) m = Some i"
  using assms by (auto simp: first_index_Some line_end_append)

text \<open>
  What both decoders compute when they look for a header name and a header value, with the error
  left open.
\<close>

definition scan_header_name :: "nat \<Rightarrow> bytes \<Rightarrow> (bytes option, unit) DecodeResult" where
  "scan_header_name limit b =
     (if starts_with b CRLF then Complete None
      else case position (\<lambda>byte. byte = COLON) (take (limit + 1) b) of
        Some i \<Rightarrow> Complete (Some (take i b))
      | None \<Rightarrow> if limit + 1 \<le> length b then DecodeFailed () else Incomplete)"

definition scan_header_value :: "nat \<Rightarrow> bytes \<Rightarrow> (bytes, unit) DecodeResult" where
  "scan_header_value limit b =
     (case first_index (line_end b) (limit + 1) of
        Some i \<Rightarrow> if i + 2 < length b then Complete (take i b) else Incomplete
      | None \<Rightarrow> if limit + 1 \<le> length b then DecodeFailed () else Incomplete)"

lemma map_error_cases [simp]:
  "decode_result_map_error f r = Complete v \<longleftrightarrow> r = Complete v"
  "decode_result_map_error f r = Incomplete \<longleftrightarrow> r = Incomplete"
  "decode_result_map_error f r = DecodeFailed e' \<longleftrightarrow> (\<exists>e. r = DecodeFailed e \<and> f e = e')"
  by (cases r; simp add: decode_result_map_error_def)+

lemma scan_header_name_Complete:
  assumes "scan_header_name limit b = Complete (Some h)"
  shows "length h < length b" "length h \<le> limit" "COLON \<notin> set h" "starts_with b (h @ [COLON])"
    "scan_header_name limit (b @ x) = Complete (Some h)"
proof -
  from assms obtain i where nl: "\<not> starts_with b CRLF"
    and pos: "position (\<lambda>byte. byte = COLON) (take (limit + 1) b) = Some i"
    and h: "h = take i b"
    by (auto simp: scan_header_name_def split: if_splits option.splits)
  note st = position_take_stable [OF pos]
  show len: "length h < length b" using st(1) h by simp
  show "length h \<le> limit" using position_less [OF pos] h by simp
  from pos have i: "b ! i = COLON" "\<forall>j < i. b ! j \<noteq> COLON"
    using st(1) by (auto simp: position_Some_iff)
  then show "COLON \<notin> set h" using st(1) h by (auto simp: in_set_conv_nth)
  have "take (Suc i) b = h @ [COLON]" using st(1) h i by (simp add: take_Suc_conv_app_nth)
  then show "starts_with b (h @ [COLON])" using h st(1) by (simp add: starts_with_def min_def)
  have "\<not> starts_with (b @ x) CRLF"
  proof (cases "length b < 2")
    case True
    with st(1) have "i = 0" "b = [COLON]" using i by (auto simp: less_2_cases_iff length_Suc_conv)
    then show ?thesis by simp
  next
    case False
    with nl show ?thesis by (simp add: starts_with_long)
  qed
  with st h show "scan_header_name limit (b @ x) = Complete (Some h)"
    by (simp add: scan_header_name_def del: take_append)
qed

lemma scan_header_name_end:
  assumes "scan_header_name limit b = Complete None"
  shows "starts_with b CRLF" "scan_header_name limit (b @ x) = Complete None"
proof -
  show "starts_with b CRLF"
    using assms by (auto simp: scan_header_name_def split: if_splits option.splits)
  then show "scan_header_name limit (b @ x) = Complete None"
    by (simp add: scan_header_name_def starts_with_extend)
qed

lemma scan_header_name_found:
  assumes "COLON \<notin> set h" "length h \<le> limit" "h = [] \<or> hd h \<noteq> CR"
  shows "scan_header_name limit (h @ COLON # x) = Complete (Some h)"
proof -
  have "take (limit + 1) (h @ COLON # x) = h @ COLON # take (limit - length h) x"
    using assms(2) by (simp add: take_Cons')
  then have "position (\<lambda>byte. byte = COLON) (take (limit + 1) (h @ COLON # x)) = Some (length h)"
    using assms(1) by (simp only:) (rule position_found, auto)
  moreover have "\<not> starts_with (h @ COLON # x) CRLF"
    using assms(3) by (cases h) auto
  ultimately show ?thesis by (simp add: scan_header_name_def)
qed

lemma scan_header_value_Complete:
  assumes "scan_header_value limit b = Complete v"
  shows "length v + 2 < length b" "length v \<le> limit" "v = take (length v) b" "line_end b (length v)"
    "scan_header_value limit (b @ x) = Complete v"
proof -
  from assms obtain i where i: "first_index (line_end b) (limit + 1) = Some i"
    "i + 2 < length b" "v = take i b"
    by (auto simp: scan_header_value_def split: if_splits option.splits)
  then show "length v + 2 < length b" "length v \<le> limit" "v = take (length v) b"
    "line_end b (length v)"
    by (auto simp: first_index_Some)
  show "scan_header_value limit (b @ x) = Complete v"
    using find_line_end_stable [OF i(1,2), of x] i(2,3) by (simp add: scan_header_value_def)
qed

text \<open>What every decoding function of a state guarantees, whatever the buffer.\<close>

definition well_step :: "(bytes \<Rightarrow> ('s \<times> bytes \<times> (unit, 'e) DecodeResult) option) \<Rightarrow> 's \<Rightarrow> bool" where
  "well_step f s \<longleftrightarrow>
     (\<forall>b s' b' r. f b = Some (s', b', r) \<longrightarrow>
        (\<exists>p. b = p @ b')
        \<and> (r = Incomplete \<longrightarrow> s' = s \<and> b' = b)
        \<and> (\<forall>u x. r = Complete u \<longrightarrow> f (b @ x) = Some (s', b' @ x, Complete u)))"

lemma well_stepD:
  assumes "well_step f s" "f b = Some (s', b', r)"
  shows "\<exists>p. b = p @ b'" "r = Incomplete \<Longrightarrow> s' = s \<and> b' = b"
    "r = Complete u \<Longrightarrow> f (b @ x) = Some (s', b' @ x, Complete u)"
  using assms unfolding well_step_def by blast+

lemma well_stepI:
  assumes "\<And>b s' b' e. f b = Some (s', b', DecodeFailed e) \<Longrightarrow> \<exists>p. b = p @ b'"
    and "\<And>b s' b'. f b = Some (s', b', Incomplete) \<Longrightarrow> s' = s \<and> b' = b"
    and "\<And>b s' b'. f b = Some (s', b', Complete ()) \<Longrightarrow>
      (\<exists>p. b = p @ b') \<and> (\<forall>x. f (b @ x) = Some (s', b' @ x, Complete ()))"
  shows "well_step f s"
  unfolding well_step_def
proof (intro allI impI)
  fix b s' b' r
  assume "f b = Some (s', b', r)"
  then show "(\<exists>p. b = p @ b') \<and> (r = Incomplete \<longrightarrow> s' = s \<and> b' = b)
      \<and> (\<forall>u x. r = Complete u \<longrightarrow> f (b @ x) = Some (s', b' @ x, Complete u))"
  proof (cases r)
    case (Complete u)
    with \<open>f b = Some (s', b', r)\<close> assms(3) [of b s' b'] show ?thesis by (cases u) auto
  next
    case (DecodeFailed e)
    with \<open>f b = Some (s', b', r)\<close> assms(1) show ?thesis by simp
  next
    case Incomplete
    with \<open>f b = Some (s', b', r)\<close> assms(2) [of b s' b'] show ?thesis by simp
  qed
qed

lemma drop_suffix: "\<exists>p. b = p @ drop n b"
  by (metis append_take_drop_id)

subsection \<open>Decoding in pieces\<close>

text \<open>
  One run of a loop on what is buffered, then on what is left over with the next piece appended,
  until a run produces a message or fails.
\<close>

fun feed ::
  "(nat \<Rightarrow> 's \<Rightarrow> bytes \<Rightarrow> ('s \<times> ('r, 'e) DecodeResult \<times> nat) option) \<Rightarrow> 's \<Rightarrow> bytes \<Rightarrow> bytes list
     \<Rightarrow> ('s \<times> ('r, 'e) DecodeResult \<times> bytes) option"
where
  "feed loop s rest [] = Some (s, Incomplete, rest)"
| "feed loop s rest (c # cs) =
     (case loop (length (rest @ c)) s (rest @ c) of
        None \<Rightarrow> None
      | Some (s', r, n) \<Rightarrow>
          (case r of
             Incomplete \<Rightarrow> feed loop s' (drop n (rest @ c)) cs
           | _ \<Rightarrow> Some (s', r, drop n (rest @ c) @ concat cs)))"

text \<open>
  The contract of a decoder. \<open>step\<close> is one call of the decoding function of a state, \<open>running\<close>
  holds in the states that have one, \<open>stop\<close> is what the loop returns from the other states,
  \<open>fail\<close> records an error. A step that needs more data changes nothing; a step that completes
  takes bytes off the front, does the same when more bytes follow, and makes progress.
\<close>

locale incremental_decoder =
  fixes step :: "'s \<Rightarrow> bytes \<Rightarrow> ('s \<times> bytes \<times> (unit, 'e) DecodeResult) option"
    and running :: "'s \<Rightarrow> bool"
    and stop :: "'s \<Rightarrow> ('s \<times> ('r, 'e) DecodeResult) option"
    and fail :: "'e \<Rightarrow> 's \<Rightarrow> 's"
    and weight :: "'s \<Rightarrow> nat"
    and loop :: "nat \<Rightarrow> 's \<Rightarrow> bytes \<Rightarrow> ('s \<times> ('r, 'e) DecodeResult \<times> nat) option"
  assumes loop_running:
      "running s \<Longrightarrow> loop sz s b =
        (case step s b of
           None \<Rightarrow> None
         | Some (s', b', r) \<Rightarrow>
             (case r of
                Complete _ \<Rightarrow> loop sz s' b'
              | DecodeFailed e \<Rightarrow> Some (fail e s', DecodeFailed e, sz - length b')
              | Incomplete \<Rightarrow> Some (s', Incomplete, sz - length b')))"
    and loop_stopped:
      "\<not> running s \<Longrightarrow> loop sz s b =
        map_option (\<lambda>(t, q). (t, q, if is_complete q then sz - length b else 0)) (stop s)"
    and step_incomplete: "running s \<Longrightarrow> step s b = Some (s', b', Incomplete) \<Longrightarrow> s' = s \<and> b' = b"
    and step_extend: "running s \<Longrightarrow> step s b = Some (s', b', Complete u)
        \<Longrightarrow> step s (b @ x) = Some (s', b' @ x, Complete u)"
    and step_consume: "running s \<Longrightarrow> step s b = Some (s', b', r) \<Longrightarrow> \<exists>p. b = p @ b'"
    and step_progress: "running s \<Longrightarrow> step s b = Some (s', b', Complete u)
        \<Longrightarrow> 2 * length b' + weight s' < 2 * length b + weight s"
    and step_live: "running s \<Longrightarrow> step s b = Some (s', b', Complete u)
        \<Longrightarrow> running s' \<or> (\<forall>t q. stop s' = Some (t, q) \<longrightarrow> is_complete q)"
    and stop_decided: "stop s = Some (t, q) \<Longrightarrow> q \<noteq> Incomplete"
begin

lemma run_induct [consumes 0, case_names run]:
  assumes "\<And>s b. (\<And>s' b' u. running s \<Longrightarrow> step s b = Some (s', b', Complete u) \<Longrightarrow> P s' b') \<Longrightarrow> P s b"
  shows "P s b"
proof (induction "2 * length b + weight s" arbitrary: s b rule: less_induct)
  case less
  show ?case
    by (rule assms) (blast intro: less step_progress)
qed

lemma step_length: "running s \<Longrightarrow> step s b = Some (s', b', r) \<Longrightarrow> length b' \<le> length b"
  using step_consume by fastforce

lemma loop_shift:
  assumes "running s \<or> (\<forall>t r. stop s = Some (t, r) \<longrightarrow> is_complete r)" "length b \<le> sz"
  shows "loop (k + sz) s b = map_option (\<lambda>(s', r, n). (s', r, k + n)) (loop sz s b)"
  using assms
proof (induction s b rule: run_induct)
  case (run s b)
  show ?case
  proof (cases "running s")
    case False
    with run.prems show ?thesis
      by (cases "stop s") (auto simp: loop_stopped)
  next
    case True
    show ?thesis
    proof (cases "step s b")
      case None
      with True show ?thesis by (simp add: loop_running)
    next
      case (Some t)
      obtain s' b' r where t: "t = (s', b', r)" by (cases t)
      have len: "length b' \<le> sz"
        using step_length [OF True] Some t run.prems(2) by (meson le_trans)
      show ?thesis
      proof (cases r)
        case (Complete u)
        with Some t have st: "step s b = Some (s', b', Complete u)" by simp
        show ?thesis
          using run.IH [OF True st step_live [OF True st] len] True st by (simp add: loop_running)
      qed (use True Some t len in \<open>simp_all add: loop_running\<close>)
    qed
  qed
qed

lemma loop_incomplete:
  assumes "loop sz s b = Some (t, Incomplete, n)" "length b \<le> sz"
  shows "\<exists>p b'. b = p @ b' \<and> n = sz - length b' \<and> running t
    \<and> (\<forall>k x. loop k s (b @ x) = loop k t (b' @ x))"
  using assms
proof (induction s b rule: run_induct)
  case (run s b)
  have True: "running s"
  proof (rule ccontr)
    assume "\<not> running s"
    with run.prems(1) stop_decided [of s t Incomplete] show False by (auto simp: loop_stopped)
  qed
  then obtain s' b' r where st: "step s b = Some (s', b', r)"
    using run.prems(1) by (auto simp: loop_running split: option.splits)
  show ?case
  proof (cases r)
    case (Complete u)
    then have st: "step s b = Some (s', b', Complete u)" using st by simp
    have "loop sz s' b' = Some (t, Incomplete, n)"
      using run.prems(1) True st by (simp add: loop_running)
    moreover have "length b' \<le> sz" using step_length [OF True st] run.prems(2) by simp
    ultimately obtain p c where c: "b' = p @ c" "n = sz - length c" "running t"
      "\<forall>k x. loop k s' (b' @ x) = loop k t (c @ x)" using run.IH [OF True st] by blast
    obtain q where "b = q @ b'" using step_consume [OF True st] by blast
    then have "b = (q @ p) @ c" using c(1) by simp
    moreover have "loop k s (b @ x) = loop k t (c @ x)" for k x
    proof -
      have "loop k s (b @ x) = loop k s' (b' @ x)"
        using step_extend [OF True st, of x] True by (simp add: loop_running)
      also have "\<dots> = loop k t (c @ x)" using c(4) by blast
      finally show ?thesis .
    qed
    ultimately show ?thesis using c(2,3) by blast
  next
    case (DecodeFailed e)
    with run.prems(1) True st show ?thesis by (simp add: loop_running)
  next
    case Incomplete
    then have "step s b = Some (s, b, Incomplete)"
      using st step_incomplete [OF True, of b s' b'] by simp
    then have "loop sz s b = Some (s, Incomplete, sz - length b)"
      using loop_running [OF True, of sz b] by simp
    then have "t = s" "n = sz - length b" using run.prems(1) by simp_all
    with True show ?thesis by - (rule exI [of _ "[]"], rule exI [of _ b], simp)
  qed
qed

text \<open>
  Resuming: after a run that needs more data, running on what is left over together with the new
  data gives what one run on everything gives, with the same number of bytes taken in total.
\<close>

lemma resume:
  assumes "loop (length b) s b = Some (t, Incomplete, n)"
  shows "loop (length (b @ x)) s (b @ x) =
    map_option (\<lambda>(t', r, m). (t', r, n + m)) (loop (length (drop n b @ x)) t (drop n b @ x))"
proof -
  obtain p b' where b: "b = p @ b'" "n = length b - length b'" "running t"
    "\<And>k x. loop k s (b @ x) = loop k t (b' @ x)"
    using loop_incomplete [OF assms] by auto
  then have n: "n = length p" "drop n b = b'" by simp_all
  have "loop (length (b @ x)) s (b @ x) = loop (n + length (b' @ x)) t (b' @ x)"
    using b n by simp
  also have "\<dots> = map_option (\<lambda>(t', r, m). (t', r, n + m)) (loop (length (b' @ x)) t (b' @ x))"
    using b(3) by (intro loop_shift) simp_all
  finally show ?thesis using n by simp
qed

lemma incomplete_running: "loop (length b) s b = Some (t, Incomplete, n) \<Longrightarrow> running t"
  using loop_incomplete by blast

lemma consumed: "loop (length b) s b = Some (t, r, n) \<Longrightarrow> n \<le> length b"
proof -
  have "loop sz s b = Some (t, r, n) \<Longrightarrow> length b \<le> sz \<Longrightarrow> n \<le> sz" for sz
  proof (induction s b rule: run_induct)
    case (run s b)
    show ?case
    proof (cases "running s")
      case False
      with run.prems show ?thesis by (auto simp: loop_stopped)
    next
      case True
      with run.prems(1) obtain s' b' q where st: "step s b = Some (s', b', q)"
        by (auto simp: loop_running split: option.splits)
      show ?thesis
      proof (cases q)
        case (Complete u)
        then show ?thesis
          using run.IH [OF True] st run.prems True step_length [OF True st]
          by (simp add: loop_running)
      qed (use run.prems True st in \<open>auto simp: loop_running\<close>)
    qed
  qed
  then show "loop (length b) s b = Some (t, r, n) \<Longrightarrow> ?thesis" by blast
qed

text \<open>A completed message does not depend on the bytes that follow it.\<close>

lemma complete_extend_size:
  assumes "loop sz s b = Some (t, Complete v, n)" "length b \<le> sz"
  shows "loop (sz + length x) s (b @ x) = Some (t, Complete v, n)"
  using assms
proof (induction s b rule: run_induct)
  case (run s b)
  show ?case
  proof (cases "running s")
    case False
    with run.prems show ?thesis by (auto simp: loop_stopped is_complete_def)
  next
    case True
    with run.prems(1) obtain s' b' u where st: "step s b = Some (s', b', Complete u)"
      by (auto simp: loop_running split: option.splits DecodeResult.splits)
    have "loop sz s' b' = Some (t, Complete v, n)" "length b' \<le> sz"
      using run.prems True st step_length [OF True st] by (simp_all add: loop_running)
    then have "loop (sz + length x) s' (b' @ x) = Some (t, Complete v, n)"
      using run.IH [OF True st] by blast
    then show ?thesis using step_extend [OF True st, of x] True by (simp add: loop_running)
  qed
qed

lemma complete_extend:
  "loop (length b) s b = Some (t, Complete v, n) \<Longrightarrow>
   loop (length (b @ x)) s (b @ x) = Some (t, Complete v, n)"
  using complete_extend_size [of "length b" s b] by simp

text \<open>A message that comes out of the pieces is the one that the whole input starts with.\<close>

lemma feed_complete:
  "feed loop s rest cs = Some (t, Complete v, left) \<Longrightarrow>
   \<exists>n. loop (length (rest @ concat cs)) s (rest @ concat cs) = Some (t, Complete v, n)
     \<and> left = drop n (rest @ concat cs)"
proof (induction cs arbitrary: s rest)
  case (Cons c cs)
  let ?b = "rest @ c"
  from Cons.prems obtain s' r n where run: "loop (length ?b) s ?b = Some (s', r, n)"
    by (auto split: option.splits)
  show ?case
  proof (cases r)
    case (Complete w)
    with Cons.prems run have "t = s'" "w = v" "left = drop n ?b @ concat cs" by auto
    moreover have "n \<le> length ?b" using run by (rule consumed)
    ultimately show ?thesis
      using complete_extend [of ?b s s' w n "concat cs"] run Complete by auto
  next
    case (DecodeFailed e)
    with Cons.prems run show ?thesis by simp
  next
    case Incomplete
    with Cons.prems run have "feed loop s' (drop n ?b) cs = Some (t, Complete v, left)" by simp
    then obtain m where m: "loop (length (drop n ?b @ concat cs)) s' (drop n ?b @ concat cs)
        = Some (t, Complete v, m)" "left = drop m (drop n ?b @ concat cs)"
      using Cons.IH by blast
    have "n \<le> length ?b" using run by (rule consumed)
    then have "left = drop (n + m) (?b @ concat cs)"
      using m(2) drop_append_le [of n ?b] by (metis add.commute drop_drop)
    moreover have "loop (length (?b @ concat cs)) s (?b @ concat cs) = Some (t, Complete v, n + m)"
      using resume [of ?b s s' n "concat cs"] run Incomplete m(1) by simp
    ultimately show ?thesis by auto
  qed
qed simp

end

end
