(* ===== verification/Version.thy ===== *)
theory Version
  imports WireToken
begin

text \<open>RTSP versions: \<^verbatim>\<open>rtsp-common/src/version.rs\<close>.\<close>

datatype Version = Rtsp1_0 | Rtsp2_0

datatype VersionDecodeError = VersionInvalid | VersionUnknown nat nat

definition version_default :: Version where
  "version_default = Rtsp2_0"

fun version_as_str :: "Version \<Rightarrow> bytes" where
  "version_as_str Rtsp1_0 = ''RTSP/1.0''"
| "version_as_str Rtsp2_0 = ''RTSP/2.0''"

definition version_as_encoded :: "Version \<Rightarrow> bytes" where
  "version_as_encoded v = version_as_str v"

text \<open>\<open>u8::checked_sub\<close>.\<close>

definition checked_sub :: "nat \<Rightarrow> nat \<Rightarrow> nat option" where
  "checked_sub a b = (if b \<le> a then Some (a - b) else None)"

definition version_try_decode :: "bytes \<Rightarrow> VersionDecodeError + Version" where
  "version_try_decode value =
     (if length value \<noteq> 8 \<or> upper (take 5 value) \<noteq> ''RTSP/'' \<or> value ! 6 \<noteq> CHR ''.''
      then Err VersionInvalid
      else case checked_sub (u8 (value ! 5)) 48 of
        None \<Rightarrow> Err VersionInvalid
      | Some major \<Rightarrow>
          (case checked_sub (u8 (value ! 7)) 48 of
             None \<Rightarrow> Err VersionInvalid
           | Some minor \<Rightarrow>
               if major = 1 \<and> minor = 0 then Ok Rtsp1_0
               else if major = 2 \<and> minor = 0 then Ok Rtsp2_0
               else if major > 9 \<or> minor > 9 then Err VersionInvalid
               else Err (VersionUnknown major minor)))"

lemma length_version_as_str [simp]: "length (version_as_str v) = 8"
  by (cases v) simp_all

lemma version_roundtrip: "version_try_decode (version_as_encoded v) = Ok v"
  by (cases v) (simp_all add: version_try_decode_def version_as_encoded_def checked_sub_def byte_simps)

text \<open>
  The eight bytes of an accepted version: the five of \<open>RTSP/\<close> in any case, a digit, a full stop
  and a digit.
\<close>

lemma version_bytes:
  assumes "length value = 8"
  shows "value = take 5 value @ [value ! 5, value ! 6, value ! 7]"
proof -
  have "drop 5 value = [value ! 5, value ! 6, value ! 7]"
    using assms by (intro nth_equalityI) (auto simp: less_Suc_eq nth_Cons' numeral_eq_Suc)
  then show ?thesis by (metis append_take_drop_id)
qed

lemma version_try_decode_Ok:
  assumes "version_try_decode value = Ok v"
  shows "eq_ignore_ascii_case (version_as_str v) value"
proof -
  from assms have len: "length value = 8" and up: "upper (take 5 value) = ''RTSP/''"
    and dot: "value ! 6 = CHR ''.''"
    by (auto simp: version_try_decode_def split: if_splits)
  from assms len up dot
  have "v = Rtsp1_0 \<and> u8 (value ! 5) = u8 CHR ''1'' \<and> u8 (value ! 7) = u8 CHR ''0''
      \<or> v = Rtsp2_0 \<and> u8 (value ! 5) = u8 CHR ''2'' \<and> u8 (value ! 7) = u8 CHR ''0''"
    by (auto simp: version_try_decode_def checked_sub_def split: if_splits)
  then have v: "v = Rtsp1_0 \<and> value ! 5 = CHR ''1'' \<and> value ! 7 = CHR ''0''
      \<or> v = Rtsp2_0 \<and> value ! 5 = CHR ''2'' \<and> value ! 7 = CHR ''0''"
    by (simp only: u8_eq_iff)
  have "lower (take 5 value) = lower ''RTSP/''"
    by (metis up map_lower_upper)
  then have "lower value = lower (''RTSP/'' @ [value ! 5, CHR ''.'', value ! 7])"
    by (subst version_bytes [OF len]) (simp add: dot)
  with v show ?thesis
    by (auto simp: eq_ignore_ascii_case_def)
qed

interpretation vers: wire_token version_as_str version_try_decode "\<lambda>_. True"
  by unfold_locales
     (simp_all add: version_roundtrip [unfolded version_as_encoded_def] version_try_decode_Ok)

subsection \<open>Properties\<close>

lemma version_as_str_upper [simp]: "upper (version_as_str v) = version_as_str v"
  by (cases v) (simp_all add: byte_simps)

lemma version_text_accepted:
  assumes "lower value = lower (version_as_str v)"
  shows "version_try_decode value = Ok v"
proof -
  have len: "length value = 8" using assms by (metis length_map length_version_as_str)
  have up: "map to_ascii_uppercase value = version_as_str v"
    using assms by (metis map_upper_lower version_as_str_upper)
  have up_nth: "to_ascii_uppercase (value ! i) = version_as_str v ! i" if "i < 8" for i
    using up len that by (metis nth_map)
  have fixed: "value ! i = version_as_str v ! i" if "i < 8" "u8 (version_as_str v ! i) < 65" for i
  proof -
    have "u8 (to_ascii_uppercase (value ! i)) < 65" using up_nth [OF that(1)] that(2) by simp
    then have "u8 (to_ascii_uppercase (value ! i)) = u8 (value ! i)"
      by (auto simp: u8_upper split: if_splits)
    with up_nth [OF that(1)] show ?thesis by (simp only: u8_eq_iff)
  qed
  have "upper (take 5 value) = ''RTSP/''"
    using up by (cases v) (simp_all flip: take_map)
  moreover have "value ! 5 = version_as_str v ! 5" "value ! 6 = version_as_str v ! 6"
    "value ! 7 = version_as_str v ! 7"
    by (rule fixed; cases v; simp)+
  ultimately show ?thesis using len by (cases v) (simp_all add: version_try_decode_def checked_sub_def)
qed

text \<open>
  A byte slice is a version exactly when it is the text of that version in any ASCII case, so
  the two versions are the only values and none is confused with the other.
\<close>

theorem version_decode_exact:
  "version_try_decode bs = Ok v \<longleftrightarrow> eq_ignore_ascii_case (version_as_encoded v) bs"
  using version_try_decode_Ok [of bs v] version_text_accepted [of bs v]
  by (auto simp: version_as_encoded_def eq_ignore_ascii_case_def)

end
