(* ===== verification/Method.thy ===== *)
theory Method
  imports WireToken
begin

text \<open>Request methods: \<^verbatim>\<open>rtsp-2/src/method.rs\<close>.\<close>

datatype Method =
    Describe | GetParameter | Options | Pause | Play | PlayNotify | Redirect | SetParameter
  | Setup | Teardown | MethodExtension bytes

datatype MethodError = MethodEmpty | MethodInvalidCharacter | MethodStartsWithDollarSign

fun method_as_str :: "Method \<Rightarrow> bytes" where
  "method_as_str Describe = ''DESCRIBE''"
| "method_as_str GetParameter = ''GET_PARAMETER''"
| "method_as_str Options = ''OPTIONS''"
| "method_as_str Pause = ''PAUSE''"
| "method_as_str Play = ''PLAY''"
| "method_as_str PlayNotify = ''PLAY_NOTIFY''"
| "method_as_str Redirect = ''REDIRECT''"
| "method_as_str SetParameter = ''SET_PARAMETER''"
| "method_as_str Setup = ''SETUP''"
| "method_as_str Teardown = ''TEARDOWN''"
| "method_as_str (MethodExtension name) = name"

definition method_extension :: "bytes \<Rightarrow> MethodError + Method" where
  "method_extension value =
     (if value = [] then Err MethodEmpty
      else if value ! 0 = CHR ''$'' then Err MethodStartsWithDollarSign
      else if \<not> is_token value then Err MethodInvalidCharacter
      else Ok (MethodExtension (upper value)))"

definition check_method :: "Method \<Rightarrow> bytes \<Rightarrow> bool" where
  "check_method method value = check_folded to_ascii_uppercase (method_as_str method) value"

definition method_try_from :: "bytes \<Rightarrow> MethodError + Method" where
  "method_try_from value =
     (if length value = 4 then
        (if check_method Play value then Ok Play else method_extension value)
      else if length value = 5 then
        (if check_method Pause value then Ok Pause
         else if check_method Setup value then Ok Setup else method_extension value)
      else if length value = 7 then
        (if check_method Options value then Ok Options else method_extension value)
      else if length value = 8 then
        (if check_method Describe value then Ok Describe
         else if check_method Redirect value then Ok Redirect
         else if check_method Teardown value then Ok Teardown else method_extension value)
      else if length value = 11 then
        (if check_method PlayNotify value then Ok PlayNotify else method_extension value)
      else if length value = 13 then
        (if check_method GetParameter value then Ok GetParameter
         else if check_method SetParameter value then Ok SetParameter else method_extension value)
      else method_extension value)"

text \<open>
  \<open>PartialEq<[u8]>\<close> of methods: comparison with a byte slice ignores ASCII case.
\<close>

definition method_eq_bytes :: "Method \<Rightarrow> bytes \<Rightarrow> bool" where
  "method_eq_bytes m other = eq_ignore_ascii_case (method_as_str m) other"

definition standard_methods :: "Method list" where
  "standard_methods =
     [Describe, GetParameter, Options, Pause, Play, PlayNotify, Redirect, SetParameter, Setup, Teardown]"

text \<open>
  What the private constructor of \<open>ExtensionMethod\<close> guarantees: the name is an upper case token
  that starts with no dollar sign and is not the name of a standard method.
\<close>

fun method_valid :: "Method \<Rightarrow> bool" where
  "method_valid (MethodExtension s) \<longleftrightarrow>
     is_token s \<and> upper s = s \<and> hd s \<noteq> CHR ''$'' \<and> s \<notin> set (map method_as_str standard_methods)"
| "method_valid m \<longleftrightarrow> True"

lemma method_try_from_standard:
  "m \<in> set standard_methods \<Longrightarrow> upper v = method_as_str m \<Longrightarrow> method_try_from v = Ok m"
  using length_map [of to_ascii_uppercase v]
  by (auto simp: standard_methods_def method_try_from_def check_method_def check_folded_iff
      simp del: length_map)

lemma method_try_from_extension:
  assumes "upper v \<notin> set (map method_as_str standard_methods)"
  shows "method_try_from v = method_extension v"
  using assms
  by (simp add: standard_methods_def method_try_from_def check_method_def check_folded_iff)

lemmas method_cases = method_try_from_standard method_try_from_extension

lemma upper_dollar: "to_ascii_uppercase c = CHR ''$'' \<longleftrightarrow> c = CHR ''$''"
proof
  assume "to_ascii_uppercase c = CHR ''$''"
  then have "u8 (to_ascii_uppercase c) = 36" by simp
  then have "u8 c = u8 CHR ''$''" by (auto simp: u8_upper split: if_splits)
  then show "c = CHR ''$''" by (simp only: u8_eq_iff)
qed (simp add: byte_simps)

lemma method_extension_Ok:
  "method_extension v = Ok m \<longleftrightarrow> m = MethodExtension (upper v) \<and> is_token v \<and> hd v \<noteq> CHR ''$''"
  by (auto simp: method_extension_def is_token_iff hd_conv_nth)

lemma method_try_from_Ok:
  assumes "method_try_from v = Ok m"
  shows "method_valid m \<and> method_as_str m = upper v"
proof (cases "upper v \<in> set (map method_as_str standard_methods)")
  case True
  then obtain m' where m': "m' \<in> set standard_methods" "upper v = method_as_str m'" by auto
  with assms have "m = m'" using method_try_from_standard by fastforce
  with m' show ?thesis by (auto simp: standard_methods_def)
next
  case False
  with assms have "m = MethodExtension (upper v)" "is_token v" "hd v \<noteq> CHR ''$''"
    by (simp_all add: method_try_from_extension method_extension_Ok)
  moreover from this have "v \<noteq> []" by (simp add: is_token_iff)
  ultimately show ?thesis using False by (simp add: hd_map upper_dollar)
qed

lemma method_parse_print:
  assumes "method_valid m"
  shows "method_try_from (method_as_str m) = Ok m"
proof (cases m)
  case (MethodExtension s)
  with assms show ?thesis by (simp add: method_try_from_extension method_extension_Ok)
next
qed (rule method_try_from_standard; simp add: standard_methods_def byte_simps)+

interpretation meth: wire_token method_as_str method_try_from method_valid
proof unfold_locales
  fix m v
  show "method_try_from (method_as_str m) = Ok m" if "method_valid m"
    using that by (rule method_parse_print)
  show "method_valid m" if "method_try_from v = Ok m"
    using method_try_from_Ok [OF that] by simp
  show "eq_ignore_ascii_case (method_as_str m) v" if "method_try_from v = Ok m"
    using method_try_from_Ok [OF that] by (simp add: eq_ignore_ascii_case_def)
qed

lemma method_case_insensitive: "upper v = upper w \<Longrightarrow> method_try_from v = method_try_from w"
proof -
  assume eq: "upper v = upper w"
  then have len: "length v = length w" by (rule map_eq_imp_length_eq)
  have tok: "is_token v = is_token w" using eq by (metis is_token_upper)
  have hd: "v \<noteq> [] \<Longrightarrow> (v ! 0 = CHR ''$'') = (w ! 0 = CHR ''$'')"
    using eq len by (metis length_greater_0_conv nth_map upper_dollar)
  have "v = [] \<longleftrightarrow> w = []" using len by auto
  then have "method_extension v = method_extension w"
    using tok hd eq by (auto simp: method_extension_def)
  then show ?thesis
    unfolding method_try_from_def check_method_def check_folded_iff eq len by simp
qed

subsection \<open>Properties\<close>

text \<open>What parsing a method means, with no table: the checks in order, then the upper case name.\<close>

definition method_of_upper :: "bytes \<Rightarrow> Method" where
  "method_of_upper u =
     (case find (\<lambda>m. method_as_str m = u) standard_methods of Some m \<Rightarrow> m | None \<Rightarrow> MethodExtension u)"

lemma standard_names_distinct: "distinct (map method_as_str standard_methods)"
  by (simp add: standard_methods_def)

lemma standard_names_token:
  "m \<in> set standard_methods \<Longrightarrow> is_token (method_as_str m) \<and> hd (method_as_str m) \<noteq> CHR ''$''"
proof -
  have "list_all (\<lambda>m. is_token (method_as_str m) \<and> hd (method_as_str m) \<noteq> CHR ''$'') standard_methods"
    by code_simp
  then show "m \<in> set standard_methods \<Longrightarrow> ?thesis" by (simp add: list_all_iff)
qed

text \<open>
  Parsing a method: an empty slice, a leading dollar sign and a slice that is not a token are
  rejected, in this order; anything else is the standard method or the extension with that name in
  upper case.
\<close>

theorem method_parse_exact:
  "method_try_from v =
     (if v = [] then Err MethodEmpty
      else if hd v = CHR ''$'' then Err MethodStartsWithDollarSign
      else if \<not> is_token v then Err MethodInvalidCharacter
      else Ok (method_of_upper (upper v)))"
proof (cases "upper v \<in> set (map method_as_str standard_methods)")
  case True
  then obtain m where m: "m \<in> set standard_methods" "upper v = method_as_str m" by auto
  have "is_token v" "v \<noteq> []" using standard_names_token [OF m(1)] m(2) is_token_upper [of v]
    by (auto simp: is_token_iff)
  moreover have "hd v \<noteq> CHR ''$''"
    using standard_names_token [OF m(1)] m(2) \<open>v \<noteq> []\<close> by (metis hd_map upper_dollar)
  moreover have "method_of_upper (upper v) = m"
    using find_unique [OF standard_names_distinct m(1)] m(2) by (simp add: method_of_upper_def)
  ultimately show ?thesis using method_try_from_standard [OF m] by simp
next
  case False
  then have "\<forall>m \<in> set standard_methods. method_as_str m \<noteq> upper v" by (metis image_eqI set_map)
  then have "find (\<lambda>m. method_as_str m = upper v) standard_methods = None" by (simp add: find_None_iff)
  with False show ?thesis
    by (cases v) (simp_all add: method_try_from_extension method_extension_def method_of_upper_def)
qed

text \<open>
  A parsed method prints to a name that parses to the same method and that is the input in
  upper case; parsing does not depend on the case of the input.
\<close>

theorem method_roundtrip:
  assumes "method_try_from v = Ok m" "upper w = upper v"
  shows "method_try_from (method_as_str m) = Ok m \<and> method_as_str m = upper v \<and> method_try_from w = Ok m"
  using assms meth.reparse method_try_from_Ok method_case_insensitive [of w v] by auto

lemma method_roundtrip_witness:
  "method_try_from (method_as_str PlayNotify) = Ok PlayNotify \<and> method_try_from ''pLaY_NotIfy'' = Ok PlayNotify"
  using method_roundtrip [of "''play_notify''" PlayNotify "''pLaY_NotIfy''"] by code_simp

end
