(* ===== verification/Request.thy ===== *)
theory Request
  imports Version Method HeaderMap Uri
begin

text \<open>
  Requests and their builder: \<^verbatim>\<open>rtsp-2/src/request.rs\<close>. \<open>'m\<close> is the header map, \<open>'u\<close> the
  parts of a URI and \<open>'b\<close> the body.
\<close>

record ('b, 'm, 'u) Request =
  req_body :: 'b
  req_headers :: 'm
  req_method :: Method
  req_uri :: "'u URI"
  req_version :: Version

datatype RequestError = RequestMissingBody | RequestMissingMethod | RequestMissingURI
  | RequestUnsupportedVersion

record ('b, 'm, 'u) request_builder =
  rqb_body :: "'b option"
  rqb_headers :: 'm
  rqb_method :: "Method option"
  rqb_uri :: "'u URI option"
  rqb_version :: Version

definition request_builder_new :: "'m header_map_ops \<Rightarrow> ('b, 'm, 'u) request_builder" where
  "request_builder_new M =
     \<lparr>rqb_body = None, rqb_headers = map_default M, rqb_method = None, rqb_uri = None,
      rqb_version = version_default\<rparr>"

definition request_build :: "('b, 'm, 'u) request_builder \<Rightarrow> RequestError + ('b, 'm, 'u) Request" where
  "request_build b =
     (case rqb_method b of None \<Rightarrow> Err RequestMissingMethod | Some method \<Rightarrow>
     (case rqb_uri b of None \<Rightarrow> Err RequestMissingURI | Some uri \<Rightarrow>
     (case rqb_body b of None \<Rightarrow> Err RequestMissingBody | Some body \<Rightarrow>
        if rqb_version b \<noteq> Rtsp2_0 then Err RequestUnsupportedVersion
        else Ok \<lparr>req_body = body, req_headers = rqb_headers b, req_method = method, req_uri = uri,
                 req_version = rqb_version b\<rparr>)))"

definition request_set_body :: "'b \<Rightarrow> ('b, 'm, 'u) request_builder \<Rightarrow> ('b, 'm, 'u) request_builder" where
  "request_set_body body b = b\<lparr>rqb_body := Some body\<rparr>"

definition request_header ::
  "'m header_map_ops \<Rightarrow> HeaderName \<Rightarrow> HeaderValue \<Rightarrow> ('b, 'm, 'u) request_builder \<Rightarrow> ('b, 'm, 'u) request_builder"
where
  "request_header M name value b = b\<lparr>rqb_headers := map_append M (rqb_headers b) name value\<rparr>"

definition request_set_method :: "Method \<Rightarrow> ('b, 'm, 'u) request_builder \<Rightarrow> ('b, 'm, 'u) request_builder" where
  "request_set_method method b = b\<lparr>rqb_method := Some method\<rparr>"

definition request_typed_header ::
  "'m header_map_ops \<Rightarrow> HeaderName \<Rightarrow> ('h \<Rightarrow> HeaderValue list) \<Rightarrow> 'h \<Rightarrow> ('b, 'm, 'u) request_builder
     \<Rightarrow> ('b, 'm, 'u) request_builder"
where
  "request_typed_header M name encode header b =
     b\<lparr>rqb_headers := typed_insert M name encode header (rqb_headers b)\<rparr>"

definition request_set_uri :: "'u URI \<Rightarrow> ('b, 'm, 'u) request_builder \<Rightarrow> ('b, 'm, 'u) request_builder" where
  "request_set_uri uri b = b\<lparr>rqb_uri := Some uri\<rparr>"

definition request_set_version :: "Version \<Rightarrow> ('b, 'm, 'u) request_builder \<Rightarrow> ('b, 'm, 'u) request_builder" where
  "request_set_version version b = b\<lparr>rqb_version := version\<rparr>"

text \<open>\<open>with_body\<close> replaces the body by one of another type.\<close>

definition request_with_body :: "'c \<Rightarrow> ('b, 'm, 'u) request_builder \<Rightarrow> ('c, 'm, 'u) request_builder" where
  "request_with_body body b =
     \<lparr>rqb_body = Some body, rqb_headers = rqb_headers b, rqb_method = rqb_method b,
      rqb_uri = rqb_uri b, rqb_version = rqb_version b\<rparr>"

definition request_from_parts ::
  "'m header_map_ops \<Rightarrow> Method \<Rightarrow> 'u URI \<Rightarrow> Version \<Rightarrow> 'm \<Rightarrow> 'b \<Rightarrow> RequestError + ('b, 'm, 'u) Request"
where
  "request_from_parts M method uri version headers body =
     (let builder = request_set_version version
            (request_with_body body
              (request_set_uri uri
                (request_set_method method (request_builder_new M :: (unit, 'm, 'u) request_builder))))
      in request_build (builder\<lparr>rqb_headers := headers\<rparr>))"

definition request_into_builder :: "('b, 'm, 'u) Request \<Rightarrow> ('b, 'm, 'u) request_builder" where
  "request_into_builder r =
     \<lparr>rqb_body = Some (req_body r), rqb_headers = req_headers r, rqb_method = Some (req_method r),
      rqb_uri = Some (req_uri r), rqb_version = req_version r\<rparr>"

definition request_into_parts :: "('b, 'm, 'u) Request \<Rightarrow> Method \<times> 'u URI \<times> Version \<times> 'm \<times> 'b" where
  "request_into_parts r = (req_method r, req_uri r, req_version r, req_headers r, req_body r)"

definition request_map :: "('b \<Rightarrow> 'c) \<Rightarrow> ('b, 'm, 'u) Request \<Rightarrow> ('c, 'm, 'u) Request" where
  "request_map mapper r =
     \<lparr>req_body = mapper (req_body r), req_headers = req_headers r, req_method = req_method r,
      req_uri = req_uri r, req_version = req_version r\<rparr>"

lemma request_build_Ok:
  "request_build b = Ok r \<longleftrightarrow>
     rqb_method b = Some (req_method r) \<and> rqb_uri b = Some (req_uri r) \<and> rqb_body b = Some (req_body r)
     \<and> rqb_version b = Rtsp2_0 \<and> req_version r = Rtsp2_0 \<and> rqb_headers b = req_headers r"
  by (cases r) (auto simp: request_build_def split: option.splits)

lemma request_rebuild:
  "req_version r = Rtsp2_0 \<Longrightarrow> request_build (request_into_builder r) = Ok r"
  by (simp add: request_build_Ok request_into_builder_def)

lemma request_parts_roundtrip:
  "req_version r = Rtsp2_0 \<Longrightarrow>
     (case request_into_parts r of (m, u, v, h, b) \<Rightarrow> request_from_parts M m u v h b) = Ok r"
  by (simp add: request_into_parts_def request_from_parts_def request_build_Ok request_set_version_def
      request_with_body_def request_set_uri_def request_set_method_def request_builder_new_def)

subsection \<open>Properties\<close>

text \<open>
  The builder returns a request exactly when a method, a URI and a body were set and the
  version is 2.0, the request has the parts that were set, and taking a request apart and putting
  it together again, through a builder or through its parts, gives the same request.
\<close>

theorem request_builder_exact:
  "(request_build b = Ok r \<longleftrightarrow>
      rqb_method b = Some (req_method r) \<and> rqb_uri b = Some (req_uri r) \<and> rqb_body b = Some (req_body r)
      \<and> rqb_headers b = req_headers r \<and> rqb_version b = Rtsp2_0 \<and> req_version r = Rtsp2_0)
   \<and> (request_build b = Ok r \<longrightarrow>
        request_build (request_into_builder r) = Ok r
        \<and> (case request_into_parts r of (m, u, v, h, body) \<Rightarrow> request_from_parts M m u v h body) = Ok r)"
  using request_rebuild [of r] request_parts_roundtrip [of r M] by (auto simp: request_build_Ok)

lemma request_builder_exact_witness:
  "\<exists>r. request_build (request_into_builder r) = Ok r \<and> req_method r = Play
     \<and> r = (\<lparr>req_body = ''x'', req_headers = [], req_method = Play, req_uri = uri_asterisk,
             req_version = Rtsp2_0\<rparr> :: (bytes, headers, bytes) Request)"
proof -
  let ?r = "\<lparr>req_body = ''x'', req_headers = [], req_method = Play, req_uri = uri_asterisk,
    req_version = Rtsp2_0\<rparr> :: (bytes, headers, bytes) Request"
  let ?b = "\<lparr>rqb_body = Some ''x'', rqb_headers = [], rqb_method = Some Play,
    rqb_uri = Some uri_asterisk, rqb_version = Rtsp2_0\<rparr> :: (bytes, headers, bytes) request_builder"
  have "request_build ?b = Ok ?r" by (simp add: request_build_def)
  then show ?thesis using request_builder_exact [of ?b ?r list_headers] by (intro exI [of _ ?r]) simp
qed

end
