(* ===== verification/RequestDecoder.thy ===== *)
theory RequestDecoder
  imports Decoder Request
begin

text \<open>
  The request decoder: \<^verbatim>\<open>rtsp-2/src/protocol/codec/decoder/request.rs\<close>. A decoding function
  takes the decoder and the buffer and returns both with the result; the outer option is a panic
  (an error of the URI parser without counterpart, or a missing part when the request is built).
\<close>

datatype 'u request_decode_error =
    RqBodyTooLong | RqHeaderName HeaderNameError | RqHeaderNameTooLong | RqHeaderValue HeaderValueError
  | RqHeaderValueTooLong | RqInvalidContentLength | RqMethod MethodError | RqMethodTooLong
  | RqTooManyHeaders | RqURI "'u URIError" | RqURITooLong | RqUnsupportedVersion
  | RqVersion VersionDecodeError

datatype 'u request_decode_state =
    RqStBody | RqStEnd | RqStError "'u request_decode_error" | RqStHeader | RqStMethod | RqStURI
  | RqStVersion

record request_config =
  rqc_body_max_length :: nat
  rqc_header_max_count :: nat
  rqc_header_name_max_length :: nat
  rqc_header_value_max_length :: nat
  rqc_method_max_length :: nat
  rqc_uri_max_length :: nat

definition request_config_default :: request_config where
  "request_config_default =
     \<lparr>rqc_body_max_length = BODY_DEFAULT_MAX_LENGTH,
      rqc_header_max_count = HEADER_DEFAULT_MAX_COUNT,
      rqc_header_name_max_length = HEADER_NAME_DEFAULT_MAX_LENGTH,
      rqc_header_value_max_length = HEADER_VALUE_DEFAULT_MAX_LENGTH,
      rqc_method_max_length = METHOD_DEFAULT_MAX_LENGTH,
      rqc_uri_max_length = URI_DEFAULT_MAX_LENGTH\<rparr>"

record ('m, 'u) request_decoder =
  rqd_builder :: "(bytes, 'm, 'u) request_builder"
  rqd_config :: request_config
  rqd_content_length :: ContentLength
  rqd_state :: "'u request_decode_state"

definition request_decoder_with_config :: "'m header_map_ops \<Rightarrow> request_config \<Rightarrow> ('m, 'u) request_decoder" where
  "request_decoder_with_config M config =
     \<lparr>rqd_builder = request_builder_new M, rqd_config = config,
      rqd_content_length = content_length_default, rqd_state = RqStMethod\<rparr>"

definition request_decoder_new :: "'m header_map_ops \<Rightarrow> ('m, 'u) request_decoder" where
  "request_decoder_new M = request_decoder_with_config M request_config_default"

definition request_decoder_reset :: "'m header_map_ops \<Rightarrow> ('m, 'u) request_decoder \<Rightarrow> ('m, 'u) request_decoder" where
  "request_decoder_reset M d =
     d\<lparr>rqd_builder := request_builder_new M, rqd_content_length := content_length_default,
       rqd_state := RqStMethod\<rparr>"

type_synonym ('m, 'u) request_step =
  "('m, 'u) request_decoder \<times> bytes \<times> (unit, 'u request_decode_error) DecodeResult"

definition rq_decode_body :: "('m, 'u) request_decoder \<Rightarrow> bytes \<Rightarrow> ('m, 'u) request_step" where
  "rq_decode_body d buffer =
     (if content_length_value (rqd_content_length d) > length buffer then (d, buffer, Incomplete)
      else let body = take (content_length_value (rqd_content_length d)) buffer;
               undecoded_buffer = drop (content_length_value (rqd_content_length d)) buffer
           in (d\<lparr>rqd_state := RqStEnd, rqd_builder := request_set_body body (rqd_builder d)\<rparr>,
               undecoded_buffer, Complete ()))"

definition rq_decode_header_name ::
  "request_config \<Rightarrow> bytes \<Rightarrow> (bytes option, 'u request_decode_error) DecodeResult" where
  "rq_decode_header_name config buffer =
     (if starts_with buffer CRLF then Complete None
      else let max_length = rqc_header_name_max_length config + 1
           in case position (\<lambda>byte. byte = COLON) (take max_length buffer) of
                Some index \<Rightarrow> Complete (Some (take index buffer))
              | None \<Rightarrow>
                  if length buffer \<ge> max_length then DecodeFailed RqHeaderNameTooLong else Incomplete)"

text \<open>The \<open>for\<close> loop over the line ends; \<^const>\<open>None\<close> when it runs out of them.\<close>

fun rq_header_value_loop :: "bytes \<Rightarrow> nat list \<Rightarrow> (bytes, 'u request_decode_error) DecodeResult option" where
  "rq_header_value_loop buffer [] = None"
| "rq_header_value_loop buffer (index # iter) =
     (if index + 2 < length buffer then
        (if buffer ! (index + 2) = SP \<or> buffer ! (index + 2) = HT
         then rq_header_value_loop buffer iter
         else Some (Complete (take index buffer)))
      else Some Incomplete)"

definition rq_decode_header_value ::
  "request_config \<Rightarrow> bytes \<Rightarrow> (bytes, 'u request_decode_error) DecodeResult" where
  "rq_decode_header_value config buffer =
     (let max_length = rqc_header_value_max_length config + 1
      in case rq_header_value_loop buffer (eol_indices max_length buffer) of
           Some r \<Rightarrow> r
         | None \<Rightarrow>
             if length buffer \<ge> max_length then DecodeFailed RqHeaderValueTooLong else Incomplete)"

definition rq_decode_header ::
  "'m header_map_ops \<Rightarrow> ('m, 'u) request_decoder \<Rightarrow> bytes \<Rightarrow> ('m, 'u) request_step" where
  "rq_decode_header M d buffer =
     (case rq_decode_header_name (rqd_config d) buffer of
        DecodeFailed e \<Rightarrow> (d, buffer, DecodeFailed e)
      | Incomplete \<Rightarrow> (d, buffer, Incomplete)
      | Complete (Some header_name) \<Rightarrow>
          (if map_values_len M (rqb_headers (rqd_builder d)) \<ge> rqc_header_max_count (rqd_config d)
           then (d, buffer, DecodeFailed RqTooManyHeaders)
           else let rest = drop (length header_name + 1) buffer
                in case rq_decode_header_value (rqd_config d) rest of
                     DecodeFailed e \<Rightarrow> (d, buffer, DecodeFailed e)
                   | Incomplete \<Rightarrow> (d, buffer, Incomplete)
                   | Complete header_value \<Rightarrow>
                       let header_end_index = length header_value + 2
                       in (case header_try_from (trim_header_name header_name) of
                             Err error \<Rightarrow> (d, buffer, DecodeFailed (RqHeaderName error))
                           | Ok name \<Rightarrow>
                               (case value_try_from (trim_header_value header_value) of
                                  Err error \<Rightarrow> (d, buffer, DecodeFailed (RqHeaderValue error))
                                | Ok value \<Rightarrow>
                                    (d\<lparr>rqd_builder := request_header M name value (rqd_builder d)\<rparr>,
                                     drop header_end_index rest, Complete ()))))
      | Complete None \<Rightarrow>
          let buffer = drop 2 buffer;
              d = d\<lparr>rqd_state := RqStBody\<rparr>
          in (case typed_try_get M content_length_header_name content_length_decode
                     (rqb_headers (rqd_builder d)) of
                Ok (Some content_length) \<Rightarrow>
                  if content_length_value content_length > rqc_body_max_length (rqd_config d)
                  then (d, buffer, DecodeFailed RqBodyTooLong)
                  else (d\<lparr>rqd_content_length := content_length\<rparr>, buffer, Complete ())
              | Ok None \<Rightarrow> (d\<lparr>rqd_content_length := content_length_default\<rparr>, buffer, Complete ())
              | Err _ \<Rightarrow> (d, buffer, DecodeFailed RqInvalidContentLength)))"

definition rq_decode_method :: "('m, 'u) request_decoder \<Rightarrow> bytes \<Rightarrow> ('m, 'u) request_step" where
  "rq_decode_method d buffer =
     (let max_length = rqc_method_max_length (rqd_config d) + 1
      in case position (\<lambda>byte. byte = SP) (take max_length buffer) of
           Some index \<Rightarrow>
             (case method_try_from (take index buffer) of
                Ok method \<Rightarrow>
                  (d\<lparr>rqd_builder := request_set_method method (rqd_builder d), rqd_state := RqStURI\<rparr>,
                   drop (index + 1) buffer, Complete ())
              | Err error \<Rightarrow> (d, buffer, DecodeFailed (RqMethod error)))
         | None \<Rightarrow>
             if length buffer \<ge> max_length then (d, buffer, DecodeFailed RqMethodTooLong)
             else (d, buffer, Incomplete))"

definition rq_decode_uri ::
  "'u uriparse_ops \<Rightarrow> ('m, 'u) request_decoder \<Rightarrow> bytes \<Rightarrow> ('m, 'u) request_step option" where
  "rq_decode_uri U d buffer =
     (let max_length = rqc_uri_max_length (rqd_config d) + 1
      in case position (\<lambda>byte. byte = SP) (take max_length buffer) of
           Some index \<Rightarrow>
             (case uri_try_from U (take index buffer) of
                None \<Rightarrow> None
              | Some (Ok uri) \<Rightarrow>
                  Some (d\<lparr>rqd_builder := request_set_uri uri (rqd_builder d), rqd_state := RqStVersion\<rparr>,
                        drop (index + 1) buffer, Complete ())
              | Some (Err error) \<Rightarrow> Some (d, buffer, DecodeFailed (RqURI error)))
         | None \<Rightarrow>
             if length buffer \<ge> max_length then Some (d, buffer, DecodeFailed RqURITooLong)
             else Some (d, buffer, Incomplete))"

definition rq_decode_version :: "('m, 'u) request_decoder \<Rightarrow> bytes \<Rightarrow> ('m, 'u) request_step" where
  "rq_decode_version d buffer =
     (if length buffer < 10 then (d, buffer, Incomplete)
      else if take 2 (drop 8 buffer) \<noteq> CRLF
      then (d, buffer, DecodeFailed (RqVersion VersionInvalid))
      else case version_try_decode (take 8 buffer) of
        Ok version \<Rightarrow>
          (if version = Rtsp2_0 then
             (d\<lparr>rqd_builder := request_set_version version (rqd_builder d), rqd_state := RqStHeader\<rparr>,
              drop 10 buffer, Complete ())
           else (d, buffer, DecodeFailed RqUnsupportedVersion))
      | Err error \<Rightarrow> (d, buffer, DecodeFailed (RqVersion error)))"

text \<open>The \<open>match\<close> on the state, for the states that decode.\<close>

definition rq_step ::
  "'m header_map_ops \<Rightarrow> 'u uriparse_ops \<Rightarrow> ('m, 'u) request_decoder \<Rightarrow> bytes \<Rightarrow> ('m, 'u) request_step option"
where
  "rq_step M U d buffer =
     (case rqd_state d of
        RqStHeader \<Rightarrow> Some (rq_decode_header M d buffer)
      | RqStMethod \<Rightarrow> Some (rq_decode_method d buffer)
      | RqStURI \<Rightarrow> rq_decode_uri U d buffer
      | RqStVersion \<Rightarrow> Some (rq_decode_version d buffer)
      | RqStBody \<Rightarrow> Some (rq_decode_body d buffer)
      | RqStEnd \<Rightarrow> None
      | RqStError e \<Rightarrow> None)"

definition rq_weight :: "('m, 'u) request_decoder \<Rightarrow> nat" where
  "rq_weight d = (if rqd_state d = RqStEnd then 0 else 1)"

definition rq_running :: "('m, 'u) request_decoder \<Rightarrow> bool" where
  "rq_running d \<longleftrightarrow> (case rqd_state d of RqStEnd \<Rightarrow> False | RqStError _ \<Rightarrow> False | _ \<Rightarrow> True)"

subsection \<open>What the steps do\<close>

lemma rq_header_name_scan:
  "rq_decode_header_name c b =
     decode_result_map_error (\<lambda>_. RqHeaderNameTooLong) (scan_header_name (rqc_header_name_max_length c) b)"
  by (auto simp: rq_decode_header_name_def scan_header_name_def decode_result_map_error_def Let_def
      split: option.splits)

lemma rq_header_value_loop_find:
  "rq_header_value_loop b (filter (eol_at b) is) =
     map_option (\<lambda>i. if i + 2 < length b then Complete (take i b) else Incomplete)
       (find (line_end b) is)"
  by (induction "is") (auto simp: line_end_def fold_at_def is_blank_def)

lemma rq_header_value_scan:
  "rq_decode_header_value c b =
     decode_result_map_error (\<lambda>_. RqHeaderValueTooLong) (scan_header_value (rqc_header_value_max_length c) b)"
  by (auto simp: rq_decode_header_value_def scan_header_value_def eol_indices_eq rq_header_value_loop_find
      first_index_def decode_result_map_error_def Let_def simp del: upt_Suc split: option.splits)

lemmas rq_scans = rq_header_name_scan rq_header_value_scan

text \<open>One lemma per decoding function.\<close>

lemma rq_decode_method_well: "well_step (\<lambda>b. Some (rq_decode_method d b)) d"
proof (rule well_stepI; clarsimp)
  fix b s' b'
  assume "rq_decode_method d b = (s', b', Complete ())"
  then obtain i m where
    pos: "position (\<lambda>byte. byte = SP) (take (rqc_method_max_length (rqd_config d) + 1) b) = Some i"
    and "method_try_from (take i b) = Ok m" "b' = drop (Suc i) b"
    "s' = d\<lparr>rqd_builder := request_set_method m (rqd_builder d), rqd_state := RqStURI\<rparr>"
    by (auto simp: rq_decode_method_def Let_def split: option.splits sum.splits if_splits)
  then show "(\<exists>p. b = p @ b') \<and> (\<forall>x. rq_decode_method d (b @ x) = (s', b' @ x, Complete ()))"
    using drop_suffix [of b] position_take_stable [OF pos]
    by (simp add: rq_decode_method_def Let_def del: take_append drop_append)
qed (auto simp: rq_decode_method_def Let_def split: option.splits sum.splits if_splits)

lemma rq_decode_uri_well: "well_step (rq_decode_uri U d) d"
proof (rule well_stepI)
  fix b s' b'
  assume "rq_decode_uri U d b = Some (s', b', Complete ())"
  then obtain i u where
    pos: "position (\<lambda>byte. byte = SP) (take (rqc_uri_max_length (rqd_config d) + 1) b) = Some i"
    and "uri_try_from U (take i b) = Some (Ok u)" "b' = drop (Suc i) b"
    "s' = d\<lparr>rqd_builder := request_set_uri u (rqd_builder d), rqd_state := RqStVersion\<rparr>"
    by (auto simp: rq_decode_uri_def Let_def split: option.splits sum.splits if_splits)
  then show "(\<exists>p. b = p @ b') \<and> (\<forall>x. rq_decode_uri U d (b @ x) = Some (s', b' @ x, Complete ()))"
    using drop_suffix [of b] position_take_stable [OF pos]
    by (simp add: rq_decode_uri_def Let_def del: take_append drop_append)
qed (auto simp: rq_decode_uri_def Let_def split: option.splits sum.splits if_splits)

lemma rq_decode_version_well: "well_step (\<lambda>b. Some (rq_decode_version d b)) d"
proof (rule well_stepI; clarsimp)
  fix b s' b'
  assume "rq_decode_version d b = (s', b', Complete ())"
  then show "(\<exists>p. b = p @ b') \<and> (\<forall>x. rq_decode_version d (b @ x) = (s', b' @ x, Complete ()))"
    using drop_suffix
    by (auto simp: rq_decode_version_def Let_def split: sum.splits if_splits)
qed (auto simp: rq_decode_version_def Let_def split: sum.splits if_splits)

lemma rq_decode_body_well: "well_step (\<lambda>b. Some (rq_decode_body d b)) d"
proof (rule well_stepI; clarsimp)
  fix b s' b'
  assume "rq_decode_body d b = (s', b', Complete ())"
  then show "(\<exists>p. b = p @ b') \<and> (\<forall>x. rq_decode_body d (b @ x) = (s', b' @ x, Complete ()))"
    using drop_suffix
    by (auto simp: rq_decode_body_def Let_def split: if_splits)
qed (auto simp: rq_decode_body_def Let_def split: if_splits)

text \<open>The two ways a header step completes: one header taken, or the end of the headers.\<close>

lemma rq_decode_header_Complete:
  fixes d :: "('m, 'u) request_decoder"
  assumes "rq_decode_header M d b = (d', b', Complete ())"
  obtains (header) h v name val where
      "scan_header_name (rqc_header_name_max_length (rqd_config d)) b = Complete (Some h)"
      "map_values_len M (rqb_headers (rqd_builder d)) < rqc_header_max_count (rqd_config d)"
      "scan_header_value (rqc_header_value_max_length (rqd_config d)) (drop (length h + 1) b) = Complete v"
      "header_try_from (trim_header_name h) = Ok name"
      "value_try_from (trim_header_value v) = Ok val"
      "d' = d\<lparr>rqd_builder := request_header M name val (rqd_builder d)\<rparr>"
      "b' = drop (length v + 2) (drop (length h + 1) b)"
  | (finish) c where
      "scan_header_name (rqc_header_name_max_length (rqd_config d)) b = Complete None"
      "c = content_length_default
         \<and> typed_try_get M content_length_header_name content_length_decode (rqb_headers (rqd_builder d))
             = Ok None
       \<or> typed_try_get M content_length_header_name content_length_decode (rqb_headers (rqd_builder d))
             = Ok (Some c)
         \<and> content_length_value c \<le> rqc_body_max_length (rqd_config d)"
      "d' = d\<lparr>rqd_state := RqStBody, rqd_content_length := c\<rparr>" "b' = drop 2 b"
proof (cases "scan_header_name (rqc_header_name_max_length (rqd_config d)) b")
  case (Complete r)
  show thesis
  proof (cases r)
    case None
    with Complete assms show thesis
      by (intro finish [of "rqd_content_length d'"])
         (auto simp: rq_decode_header_def rq_scans decode_result_map_error_def Let_def
           split: sum.splits option.splits if_splits)
  next
    case (Some h)
    with Complete assms obtain v name val where
        "map_values_len M (rqb_headers (rqd_builder d)) < rqc_header_max_count (rqd_config d)"
        "scan_header_value (rqc_header_value_max_length (rqd_config d)) (drop (length h + 1) b) = Complete v"
        "header_try_from (trim_header_name h) = Ok name"
        "value_try_from (trim_header_value v) = Ok val"
        "d' = d\<lparr>rqd_builder := request_header M name val (rqd_builder d)\<rparr>"
        "b' = drop (length v + 2) (drop (length h + 1) b)"
      by (auto simp: rq_decode_header_def rq_scans decode_result_map_error_def Let_def
          split: sum.splits if_splits DecodeResult.splits)
    with Complete Some show thesis by (intro header) simp_all
  qed
qed (use assms in \<open>simp_all add: rq_decode_header_def rq_scans decode_result_map_error_def\<close>)

lemma rq_decode_header_well:
  fixes d :: "('m, 'u) request_decoder"
  shows "well_step (\<lambda>b. Some (rq_decode_header M d b)) d"
proof (rule well_stepI; clarsimp)
  fix b s' b'
  assume "rq_decode_header M d b = (s', b', Complete ())"
  then show "(\<exists>p. b = p @ b') \<and> (\<forall>x. rq_decode_header M d (b @ x) = (s', b' @ x, Complete ()))"
  proof (cases rule: rq_decode_header_Complete)
    case (header h v name val)
    note hn = scan_header_name_Complete [OF header(1)] and hv = scan_header_value_Complete [OF header(3)]
    have "drop (length h + 1) (b @ x) = drop (length h + 1) b @ x" for x using hn(1) by simp
    moreover have "drop (length v + 2) (drop (length h + 1) b @ x) = b' @ x" for x
      using header(7) hv(1) by simp
    ultimately show ?thesis
      using header hn(5) hv(5) drop_suffix [of b "length v + 2 + (length h + 1)"]
      by (simp add: rq_decode_header_def rq_scans decode_result_map_error_def Let_def del: drop_append)
  next
    case (finish c)
    note he = scan_header_name_end [OF finish(1)]
    then have "drop 2 (b @ x) = drop 2 b @ x" for x using starts_with_length [OF he(1)] by simp
    then show ?thesis
      using finish(2-4) he(2) drop_suffix [of b 2]
      by (auto simp: rq_decode_header_def rq_scans decode_result_map_error_def Let_def simp del: drop_append)
  qed
next
  fix b s' b' e
  assume "rq_decode_header M d b = (s', b', DecodeFailed e)"
  then show "\<exists>p. b = p @ b'"
    using drop_suffix [of b 2]
    by (auto simp: rq_decode_header_def Let_def
        split: DecodeResult.splits option.splits sum.splits if_splits)
next
  fix b s' b'
  assume "rq_decode_header M d b = (s', b', Incomplete)"
  then show "s' = d \<and> b' = b"
    by (auto simp: rq_decode_header_def Let_def
        split: DecodeResult.splits option.splits sum.splits if_splits)
qed

lemma rq_step_eq:
  "rqd_state d = RqStMethod \<Longrightarrow> rq_step M U d = (\<lambda>b. Some (rq_decode_method d b))"
  "rqd_state d = RqStURI \<Longrightarrow> rq_step M U d = rq_decode_uri U d"
  "rqd_state d = RqStVersion \<Longrightarrow> rq_step M U d = (\<lambda>b. Some (rq_decode_version d b))"
  "rqd_state d = RqStHeader \<Longrightarrow> rq_step M U d = (\<lambda>b. Some (rq_decode_header M d b))"
  "rqd_state d = RqStBody \<Longrightarrow> rq_step M U d = (\<lambda>b. Some (rq_decode_body d b))"
  "rqd_state d = RqStEnd \<Longrightarrow> rq_step M U d = (\<lambda>b. None)"
  "rqd_state d = RqStError e \<Longrightarrow> rq_step M U d = (\<lambda>b. None)"
  by (simp_all add: rq_step_def fun_eq_iff)

lemma rq_step_well: "well_step (rq_step M U d) d"
  by (cases "rqd_state d")
     (simp_all add: rq_step_eq rq_decode_method_well rq_decode_uri_well rq_decode_version_well
      rq_decode_body_well rq_decode_header_well well_step_def [of "\<lambda>_. None"])

text \<open>What each state moves to.\<close>

lemma rq_step_Complete:
  assumes "rq_step M U d b = Some (d', b', Complete u)"
  shows "rqd_config d' = rqd_config d"
    "(rqd_state d, rqd_state d') \<in> {(RqStMethod, RqStURI), (RqStURI, RqStVersion),
       (RqStVersion, RqStHeader), (RqStHeader, RqStHeader), (RqStHeader, RqStBody), (RqStBody, RqStEnd)}"
    "rqd_state d \<noteq> RqStBody \<Longrightarrow> length b' < length b"
proof -
  have "rqd_config d' = rqd_config d \<and> (rqd_state d, rqd_state d') \<in> {(RqStMethod, RqStURI),
       (RqStURI, RqStVersion), (RqStVersion, RqStHeader), (RqStHeader, RqStHeader),
       (RqStHeader, RqStBody), (RqStBody, RqStEnd)}
     \<and> (rqd_state d \<noteq> RqStBody \<longrightarrow> length b' < length b)"
  proof (cases "rqd_state d")
    case RqStHeader
    with assms have "rq_decode_header M d b = (d', b', Complete ())" by (simp add: rq_step_eq)
    then show ?thesis
    proof (cases rule: rq_decode_header_Complete)
      case (header h v name val)
      have "length h < length b" by (rule scan_header_name_Complete [OF header(1)])
      with header RqStHeader show ?thesis by simp
    next
      case (finish c)
      have "2 \<le> length b" using starts_with_length [OF scan_header_name_end(1) [OF finish(1)]] by simp
      with finish RqStHeader show ?thesis by auto
    qed
  qed (use assms in \<open>auto simp: rq_step_eq rq_decode_method_def rq_decode_uri_def rq_decode_version_def
      rq_decode_body_def Let_def dest!: position_less split: option.splits sum.splits if_splits\<close>)
  then show "rqd_config d' = rqd_config d"
    "(rqd_state d, rqd_state d') \<in> {(RqStMethod, RqStURI), (RqStURI, RqStVersion),
       (RqStVersion, RqStHeader), (RqStHeader, RqStHeader), (RqStHeader, RqStBody), (RqStBody, RqStEnd)}"
    "rqd_state d \<noteq> RqStBody \<Longrightarrow> length b' < length b" by blast+
qed

lemma rq_step_progress:
  assumes "rq_step M U d b = Some (d', b', Complete u)"
  shows "2 * length b' + rq_weight d' < 2 * length b + rq_weight d"
proof -
  have "length b' \<le> length b"
    using well_stepD(1) [OF rq_step_well assms] by auto
  with rq_step_Complete [OF assms] show ?thesis
    by (auto simp: rq_weight_def)
qed

subsection \<open>The loop\<close>

text \<open>
  \<open>decode\<close>: the loop keeps the size of the whole buffer, from which it computes the number of
  bytes it reports. At the end the builder is replaced and built; the \<open>expect\<close> is \<^const>\<open>None\<close>.
\<close>

function rq_loop ::
  "'m header_map_ops \<Rightarrow> 'u uriparse_ops \<Rightarrow> nat \<Rightarrow> ('m, 'u) request_decoder \<Rightarrow> bytes
     \<Rightarrow> (('m, 'u) request_decoder
         \<times> ((bytes, 'm, 'u) Request, 'u request_decode_error) DecodeResult \<times> nat) option"
where
  "rq_loop M U buffer_size d buffer =
     (case rqd_state d of
        RqStEnd \<Rightarrow>
          (let difference = buffer_size - length buffer;
               builder = rqd_builder d
           in case request_build builder of
                Err _ \<Rightarrow> None
              | Ok request \<Rightarrow>
                  Some (d\<lparr>rqd_builder := request_builder_new M, rqd_state := RqStMethod\<rparr>,
                        Complete request, difference))
      | RqStError error \<Rightarrow> Some (d, DecodeFailed error, 0)
      | _ \<Rightarrow>
          (case rq_step M U d buffer of
             None \<Rightarrow> None
           | Some (d', buffer', Complete _) \<Rightarrow> rq_loop M U buffer_size d' buffer'
           | Some (d', buffer', DecodeFailed error) \<Rightarrow>
               Some (d'\<lparr>rqd_state := RqStError error\<rparr>, DecodeFailed error,
                     buffer_size - length buffer')
           | Some (d', buffer', Incomplete) \<Rightarrow> Some (d', Incomplete, buffer_size - length buffer')))"
  by pat_completeness auto
termination
  by (relation "measure (\<lambda>(M, U, n, d, b). 2 * length b + rq_weight d)")
     (auto dest: rq_step_progress)

declare rq_loop.simps [simp del]

definition request_decode ::
  "'m header_map_ops \<Rightarrow> 'u uriparse_ops \<Rightarrow> ('m, 'u) request_decoder \<Rightarrow> bytes
     \<Rightarrow> (('m, 'u) request_decoder
         \<times> ((bytes, 'm, 'u) Request, 'u request_decode_error) DecodeResult \<times> nat) option"
where
  "request_decode M U d buffer = rq_loop M U (length buffer) d buffer"

subsection \<open>The contract\<close>

definition rq_stop ::
  "'m header_map_ops \<Rightarrow> ('m, 'u) request_decoder
     \<Rightarrow> (('m, 'u) request_decoder \<times> ((bytes, 'm, 'u) Request, 'u request_decode_error) DecodeResult) option"
where
  "rq_stop M d =
     (case rqd_state d of
        RqStEnd \<Rightarrow>
          (case request_build (rqd_builder d) of
             Err _ \<Rightarrow> None
           | Ok request \<Rightarrow>
               Some (d\<lparr>rqd_builder := request_builder_new M, rqd_state := RqStMethod\<rparr>, Complete request))
      | RqStError error \<Rightarrow> Some (d, DecodeFailed error)
      | _ \<Rightarrow> None)"

definition rq_fail :: "'u request_decode_error \<Rightarrow> ('m, 'u) request_decoder \<Rightarrow> ('m, 'u) request_decoder" where
  "rq_fail error d = d\<lparr>rqd_state := RqStError error\<rparr>"

lemma rq_loop_running:
  "rq_running d \<Longrightarrow> rq_loop M U sz d b =
     (case rq_step M U d b of
        None \<Rightarrow> None
      | Some (d', b', r) \<Rightarrow>
          (case r of
             Complete _ \<Rightarrow> rq_loop M U sz d' b'
           | DecodeFailed e \<Rightarrow> Some (rq_fail e d', DecodeFailed e, sz - length b')
           | Incomplete \<Rightarrow> Some (d', Incomplete, sz - length b')))"
  by (subst rq_loop.simps)
     (auto simp: rq_running_def rq_fail_def
       split: request_decode_state.splits option.splits prod.splits DecodeResult.splits)

lemma rq_loop_stopped:
  "\<not> rq_running d \<Longrightarrow> rq_loop M U sz d b =
     map_option (\<lambda>(t, q). (t, q, if is_complete q then sz - length b else 0)) (rq_stop M d)"
  by (subst rq_loop.simps)
     (auto simp: rq_running_def rq_stop_def is_complete_def Let_def
       split: request_decode_state.splits sum.splits)

interpretation rq: incremental_decoder "rq_step M U" rq_running "rq_stop M" rq_fail rq_weight "rq_loop M U"
  for M :: "'m header_map_ops" and U :: "'u uriparse_ops"
proof unfold_locales
  fix d b d' b' and u :: unit and x
  assume st: "rq_step M U d b = Some (d', b', Complete u)"
  show "rq_step M U d (b @ x) = Some (d', b' @ x, Complete u)"
    by (rule well_stepD(3) [OF rq_step_well st refl])
  show "2 * length b' + rq_weight d' < 2 * length b + rq_weight d"
    by (rule rq_step_progress [OF st])
  show "rq_running d' \<or> (\<forall>t q. rq_stop M d' = Some (t, q) \<longrightarrow> is_complete q)"
    using rq_step_Complete(2) [OF st]
    by (auto simp: rq_running_def rq_stop_def is_complete_def split: sum.splits)
next
  fix d b d' b' r
  assume st: "rq_step M U d b = Some (d', b', r)"
  show "\<exists>p. b = p @ b'" by (rule well_stepD(1) [OF rq_step_well st])
next
  fix d b d' b'
  assume st: "rq_step M U d b = Some (d', b', Incomplete)"
  show "d' = d \<and> b' = b" by (rule well_stepD(2) [OF rq_step_well st refl])
next
  fix d t q
  assume "rq_stop M d = Some (t, q)"
  then show "q \<noteq> Incomplete"
    by (auto simp: rq_stop_def split: request_decode_state.splits sum.splits)
qed (simp_all add: rq_loop_running rq_loop_stopped)

subsection \<open>The invariant\<close>

text \<open>
  What a decoder has collected in each state: exactly the parts of the states before, each within
  the limits of the configuration. A decoder that waits for a method holds a fresh builder.
\<close>

definition rq_headers_inv :: "'m header_map_ops \<Rightarrow> request_config \<Rightarrow> 'm \<Rightarrow> bool" where
  "rq_headers_inv M c m \<longleftrightarrow>
     map_values_len M m \<le> rqc_header_max_count c
     \<and> (\<forall>(h, v) \<in> set (map_iter M m). value_valid v \<and> value_len v \<le> rqc_header_value_max_length c)"

definition rq_method_inv :: "request_config \<Rightarrow> Method option \<Rightarrow> bool" where
  "rq_method_inv c m \<longleftrightarrow>
     (\<exists>x. m = Some x \<and> method_valid x \<and> length (method_as_str x) \<le> rqc_method_max_length c)"

definition rq_uri_inv :: "'u uriparse_ops \<Rightarrow> 'u URI option \<Rightarrow> bool" where
  "rq_uri_inv U u \<longleftrightarrow> (\<exists>x. u = Some x \<and> uri_valid U x)"

definition rq_inv :: "'m header_map_ops \<Rightarrow> 'u uriparse_ops \<Rightarrow> ('m, 'u) request_decoder \<Rightarrow> bool" where
  "rq_inv M U d \<longleftrightarrow>
     (let b = rqd_builder d; c = rqd_config d in
      case rqd_state d of
        RqStMethod \<Rightarrow> b = request_builder_new M
      | RqStURI \<Rightarrow> rq_method_inv c (rqb_method b) \<and> rqb_headers b = map_default M
      | RqStVersion \<Rightarrow>
          rq_method_inv c (rqb_method b) \<and> rq_uri_inv U (rqb_uri b) \<and> rqb_headers b = map_default M
      | RqStHeader \<Rightarrow>
          rq_method_inv c (rqb_method b) \<and> rq_uri_inv U (rqb_uri b) \<and> rqb_version b = Rtsp2_0
          \<and> rq_headers_inv M c (rqb_headers b)
      | RqStBody \<Rightarrow>
          rq_method_inv c (rqb_method b) \<and> rq_uri_inv U (rqb_uri b) \<and> rqb_version b = Rtsp2_0
          \<and> rq_headers_inv M c (rqb_headers b)
          \<and> content_length_value (rqd_content_length d) \<le> rqc_body_max_length c
      | RqStEnd \<Rightarrow>
          rq_method_inv c (rqb_method b) \<and> rq_uri_inv U (rqb_uri b) \<and> rqb_version b = Rtsp2_0
          \<and> rq_headers_inv M c (rqb_headers b)
          \<and> (\<exists>body. rqb_body b = Some body \<and> length body \<le> rqc_body_max_length c)
      | RqStError _ \<Rightarrow> True)"

lemma rq_inv_new: "rq_inv M U (request_decoder_with_config M c)"
  by (simp add: rq_inv_def request_decoder_with_config_def)

lemma rq_inv_reset: "rq_inv M U (request_decoder_reset M d)"
  by (simp add: rq_inv_def request_decoder_reset_def)

lemma rq_headers_inv_default:
  "header_map_laws M \<Longrightarrow> rq_headers_inv M c (map_default M)"
  by (simp add: rq_headers_inv_def header_map_lawsD)

lemma rq_headers_inv_append:
  assumes "header_map_laws M" "rq_headers_inv M c m" "map_values_len M m < rqc_header_max_count c"
    "value_valid v" "value_len v \<le> rqc_header_value_max_length c"
  shows "rq_headers_inv M c (map_append M m h v)"
  using assms(2-) by (auto simp: rq_headers_inv_def header_map_lawsD [OF assms(1)])

lemma rq_step_inv:
  assumes laws: "header_map_laws M" and inv: "rq_inv M U d"
    and st: "rq_step M U d b = Some (d', b', Complete u)"
  shows "rq_inv M U d'"
proof (cases "rqd_state d")
  case RqStMethod
  with st obtain i m where
    pos: "position (\<lambda>byte. byte = SP) (take (rqc_method_max_length (rqd_config d) + 1) b) = Some i"
    and m: "method_try_from (take i b) = Ok m"
    and d': "d' = d\<lparr>rqd_builder := request_set_method m (rqd_builder d), rqd_state := RqStURI\<rparr>"
    by (auto simp: rq_step_eq rq_decode_method_def Let_def split: option.splits sum.splits if_splits)
  have "i \<le> rqc_method_max_length (rqd_config d)" using position_less [OF pos] by simp
  then have "length (method_as_str m) \<le> rqc_method_max_length (rqd_config d)" "method_valid m"
    using meth.length_print_parse [OF m] method_try_from_Ok [OF m] by auto
  with inv d' RqStMethod show ?thesis
    by (simp add: rq_inv_def rq_method_inv_def request_set_method_def request_builder_new_def)
next
  case RqStURI
  with inv st show ?thesis
    by (auto simp: rq_step_eq rq_decode_uri_def rq_inv_def rq_uri_inv_def request_set_uri_def Let_def
        uri_try_from_valid split: option.splits sum.splits if_splits)
next
  case RqStVersion
  with inv st rq_headers_inv_default [OF laws] show ?thesis
    by (auto simp: rq_step_eq rq_decode_version_def rq_inv_def request_set_version_def Let_def
        split: sum.splits if_splits)
next
  case RqStBody
  with inv st show ?thesis
    by (auto simp: rq_step_eq rq_decode_body_def rq_inv_def request_set_body_def Let_def split: if_splits)
next
  case RqStHeader
  with st have "rq_decode_header M d b = (d', b', Complete ())" by (simp add: rq_step_eq)
  then show ?thesis
  proof (cases rule: rq_decode_header_Complete)
    case (header h v name val)
    have "value_valid val" "value_len val \<le> rqc_header_value_max_length (rqd_config d)"
      using header(5) length_trim_header_value [of v] scan_header_value_Complete(2) [OF header(3)]
      by (auto simp: value_try_from_Ok value_len_def)
    with header inv RqStHeader rq_headers_inv_append [OF laws] show ?thesis
      by (simp add: rq_inv_def request_header_def Let_def)
  next
    case (finish c)
    with inv RqStHeader show ?thesis
      by (auto simp: rq_inv_def content_length_default_def Let_def)
  qed
qed (use st in \<open>simp_all add: rq_step_eq\<close>)

text \<open>What a decoded request satisfies.\<close>

definition request_within ::
  "'m header_map_ops \<Rightarrow> 'u uriparse_ops \<Rightarrow> request_config \<Rightarrow> (bytes, 'm, 'u) Request \<Rightarrow> bool" where
  "request_within M U c r \<longleftrightarrow>
     method_valid (req_method r) \<and> length (method_as_str (req_method r)) \<le> rqc_method_max_length c
     \<and> uri_valid U (req_uri r) \<and> req_version r = Rtsp2_0 \<and> rq_headers_inv M c (req_headers r)
     \<and> length (req_body r) \<le> rqc_body_max_length c"

lemma rq_inv_end:
  assumes "rq_inv M U d" "rqd_state d = RqStEnd"
  shows "\<exists>r. request_build (rqd_builder d) = Ok r \<and> request_within M U (rqd_config d) r"
proof -
  from assms obtain m u b where parts: "rqb_method (rqd_builder d) = Some m"
      "rqb_uri (rqd_builder d) = Some u" "rqb_body (rqd_builder d) = Some b"
      "rqb_version (rqd_builder d) = Rtsp2_0"
    and ok: "method_valid m" "length (method_as_str m) \<le> rqc_method_max_length (rqd_config d)"
      "uri_valid U u" "rq_headers_inv M (rqd_config d) (rqb_headers (rqd_builder d))"
      "length b \<le> rqc_body_max_length (rqd_config d)"
    by (auto simp: rq_inv_def rq_method_inv_def rq_uri_inv_def Let_def)
  from parts have "request_build (rqd_builder d) = Ok \<lparr>req_body = b,
      req_headers = rqb_headers (rqd_builder d), req_method = m, req_uri = u, req_version = Rtsp2_0\<rparr>"
    by (simp add: request_build_def)
  with ok show ?thesis by (simp add: request_within_def)
qed

lemma rq_step_config:
  "rq_step M U d b = Some (d', b', r) \<Longrightarrow> rqd_config d' = rqd_config d"
proof (cases r)
  case (Complete u)
  then show "rq_step M U d b = Some (d', b', r) \<Longrightarrow> ?thesis" using rq_step_Complete(1) by blast
next
  case (DecodeFailed e)
  then show "rq_step M U d b = Some (d', b', r) \<Longrightarrow> ?thesis"
    by (cases "rqd_state d")
       (auto simp: rq_step_eq rq_decode_method_def rq_decode_uri_def rq_decode_version_def
          rq_decode_body_def rq_decode_header_def Let_def
         split: option.splits sum.splits if_splits DecodeResult.splits)
next
  case Incomplete
  then show "rq_step M U d b = Some (d', b', r) \<Longrightarrow> ?thesis"
    using well_stepD(2) [OF rq_step_well] by metis
qed

lemma rq_loop_inv:
  assumes laws: "header_map_laws M"
  shows "rq_inv M U d \<Longrightarrow> rq_loop M U sz d b = Some (d', r, n) \<Longrightarrow>
    rq_inv M U d' \<and> rqd_config d' = rqd_config d
    \<and> (\<forall>req. r = Complete req \<longrightarrow> rqd_state d' = RqStMethod \<and> request_within M U (rqd_config d) req)"
proof (induction d b rule: rq.run_induct [where M = M and U = U])
  case (run d b)
  show ?case
  proof (cases "rq_running d")
    case False
    then show ?thesis
      using run.prems rq_inv_end [OF run.prems(1)]
      by (auto simp: rq_loop_stopped rq_stop_def rq_running_def rq_inv_def
          split: request_decode_state.splits sum.splits)
  next
    case True
    with run.prems(2) obtain d1 b1 r1 where st: "rq_step M U d b = Some (d1, b1, r1)"
      by (auto simp: rq_loop_running split: option.splits)
    note c = rq_step_config [OF st]
    show ?thesis
    proof (cases r1)
      case (Complete u)
      with st have st': "rq_step M U d b = Some (d1, b1, Complete u)" by simp
      have "rq_loop M U sz d1 b1 = Some (d', r, n)"
        using run.prems(2) True st' by (simp add: rq_loop_running)
      with run.IH [OF True st' rq_step_inv [OF laws run.prems(1) st']] c show ?thesis by simp
    next
      case (DecodeFailed e)
      with run.prems(2) True st c show ?thesis
        by (auto simp: rq_loop_running rq_fail_def rq_inv_def)
    next
      case Incomplete
      with st have "d1 = d" using well_stepD(2) [OF rq_step_well] by blast
      with Incomplete run.prems True st show ?thesis by (auto simp: rq_loop_running)
    qed
  qed
qed

text \<open>The parser of the URI crate only returns errors that convert.\<close>

definition uri_errors_convert :: "'u uriparse_ops \<Rightarrow> bool" where
  "uri_errors_convert U \<longleftrightarrow> (\<forall>v. up_try_from U v \<noteq> Err RefOther)"

lemma rq_step_total:
  assumes "uri_errors_convert U" "rq_running d"
  shows "rq_step M U d b \<noteq> None"
  using assms
  by (cases "rqd_state d")
     (auto simp: rq_step_eq rq_running_def rq_decode_uri_def Let_def uri_try_from_panic
        uri_errors_convert_def split: option.splits sum.splits)

lemma rq_loop_total:
  assumes laws: "header_map_laws M" and conv: "uri_errors_convert U"
  shows "rq_inv M U d \<Longrightarrow> rq_loop M U sz d b \<noteq> None"
proof (induction d b rule: rq.run_induct [where M = M and U = U])
  case (run d b)
  show ?case
  proof (cases "rq_running d")
    case False
    then show ?thesis
      using rq_inv_end [OF run.prems]
      by (auto simp: rq_loop_stopped rq_stop_def rq_running_def split: request_decode_state.splits)
  next
    case True
    then obtain d1 b1 r1 where st: "rq_step M U d b = Some (d1, b1, r1)"
      using rq_step_total [OF conv True] by fastforce
    show ?thesis
    proof (cases r1)
      case (Complete u)
      with st have st': "rq_step M U d b = Some (d1, b1, Complete u)" by simp
      from run.IH [OF True st' rq_step_inv [OF laws run.prems st']] True st' show ?thesis
        by (simp add: rq_loop_running)
    qed (use True st in \<open>simp_all add: rq_loop_running\<close>)
  qed
qed

subsection \<open>Properties\<close>

lemma plain_uris_convert: "uri_errors_convert plain_uris"
  by (simp add: uri_errors_convert_def plain_uris_errors)

text \<open>What holds after any number of runs on pieces of the input.\<close>

lemma rq_feed_inv:
  assumes laws: "header_map_laws M" and conv: "uri_errors_convert U"
  shows "rq_inv M U d \<Longrightarrow> \<exists>d' r left. feed (rq_loop M U) d rest cs = Some (d', r, left)
    \<and> rq_inv M U d' \<and> (\<forall>q. r = Complete q \<longrightarrow> request_within M U (rqd_config d) q)"
proof (induction cs arbitrary: d rest)
  case (Cons c cs)
  let ?b = "rest @ c"
  obtain d' r n where run: "rq_loop M U (length ?b) d ?b = Some (d', r, n)"
    using rq_loop_total [OF laws conv Cons.prems] by (metis not_None_eq prod_cases3)
  note inv = rq_loop_inv [OF laws Cons.prems run]
  show ?case
  proof (cases r)
    case Incomplete
    have "rq_inv M U d'" using inv by blast
    from Cons.IH [OF this, of "drop n ?b"] show ?thesis using run Incomplete inv by simp
  qed (use run inv in simp_all)
qed simp



end
