(* ===== verification/Reason.thy ===== *)
theory Reason
  imports WireToken
begin

text \<open>Reason phrases: \<^verbatim>\<open>rtsp-2/src/reason.rs\<close>.\<close>

datatype ReasonPhrase = ReasonPhrase (reason_as_str: bytes)

datatype ReasonPhraseError = ReasonEmpty | ReasonInvalidASCII | ReasonInvalidUTF8

definition from_static_str_unchecked :: "bytes \<Rightarrow> ReasonPhrase" where
  "from_static_str_unchecked value = ReasonPhrase value"

text \<open>The loop over the characters of the phrase: control characters other than the tab fail.\<close>

fun reason_chars_loop :: "nat list \<Rightarrow> ReasonPhraseError + unit" where
  "reason_chars_loop [] = Ok ()"
| "reason_chars_loop (c # cs) =
     (if c < 128 \<and> (c < 32 \<or> c > 126) \<and> c \<noteq> 9 then Err ReasonInvalidASCII
      else reason_chars_loop cs)"

definition reason_try_from_str :: "bytes \<Rightarrow> ReasonPhraseError + ReasonPhrase" where
  "reason_try_from_str value =
     (if value = [] then Err ReasonEmpty
      else case reason_chars_loop (chars value) of
        Err e \<Rightarrow> Err e
      | Ok _ \<Rightarrow> Ok (ReasonPhrase value))"

definition reason_try_from :: "bytes \<Rightarrow> ReasonPhraseError + ReasonPhrase" where
  "reason_try_from value =
     (case utf8_chars value of
        None \<Rightarrow> Err ReasonInvalidUTF8
      | Some _ \<Rightarrow> reason_try_from_str value)"

text \<open>Equality of a phrase with a byte slice or a string ignores ASCII case.\<close>

definition reason_eq_bytes :: "ReasonPhrase \<Rightarrow> bytes \<Rightarrow> bool" where
  "reason_eq_bytes r other = eq_ignore_ascii_case (reason_as_str r) other"

text \<open>A printable byte of a phrase, and what the private field guarantees.\<close>

definition reason_byte :: "byte \<Rightarrow> bool" where
  "reason_byte c \<longleftrightarrow> u8 c = 9 \<or> (32 \<le> u8 c \<and> u8 c \<noteq> 127)"

definition reason_valid :: "ReasonPhrase \<Rightarrow> bool" where
  "reason_valid r \<longleftrightarrow> reason_as_str r \<noteq> [] \<and> utf8_chars (reason_as_str r) \<noteq> None
     \<and> (\<forall>c \<in> set (reason_as_str r). reason_byte c)"

lemma reason_chars_loop_Ok:
  "reason_chars_loop cs = Ok u \<longleftrightarrow> (\<forall>c \<in> set cs. c < 128 \<longrightarrow> c = 9 \<or> (32 \<le> c \<and> c \<noteq> 127))"
  by (induction cs) auto

lemma reason_chars_bytes:
  assumes "utf8_chars s = Some cs"
  shows "reason_chars_loop cs = Ok u \<longleftrightarrow> (\<forall>c \<in> set s. reason_byte c)"
proof -
  have "(\<forall>x \<in> set cs. x < 128 \<longrightarrow> x = 9 \<or> (32 \<le> x \<and> x \<noteq> 127)) \<longleftrightarrow>
        (\<forall>c \<in> set s. u8 c < 128 \<longrightarrow> u8 c = 9 \<or> (32 \<le> u8 c \<and> u8 c \<noteq> 127))"
    by (rule utf8_chars_ascii_bytes [OF assms])
  then show ?thesis
    unfolding reason_chars_loop_Ok reason_byte_def by (auto simp: not_less)
qed

lemma reason_try_from_Ok:
  "reason_try_from v = Ok r \<longleftrightarrow> r = ReasonPhrase v \<and> reason_valid r"
proof (cases "utf8_chars v")
  case None
  then show ?thesis by (auto simp: reason_try_from_def reason_valid_def)
next
  case (Some cs)
  then show ?thesis
    using reason_chars_bytes [OF Some]
    by (auto simp: reason_try_from_def reason_try_from_str_def reason_valid_def chars_def
        split: sum.splits)
qed

interpretation rphrase: wire_token reason_as_str reason_try_from reason_valid
  by unfold_locales (auto simp: reason_try_from_Ok)

lemma reason_byte_no_eol: "reason_byte c \<Longrightarrow> c \<noteq> CR \<and> c \<noteq> LF"
  by (auto simp: reason_byte_def byte_consts)

lemma reason_no_eol: "reason_valid r \<Longrightarrow> CR \<notin> set (reason_as_str r) \<and> LF \<notin> set (reason_as_str r)"
  using reason_byte_no_eol by (auto simp: reason_valid_def)

subsection \<open>Properties\<close>

text \<open>
  A reason phrase is accepted exactly when it is not empty, is UTF-8 and has no control byte
  other than a tab; it is kept as it is, so that no phrase contains a line break.
\<close>

theorem reason_accept_exact:
  "reason_try_from v = Ok r \<longleftrightarrow>
     r = ReasonPhrase v \<and> v \<noteq> [] \<and> utf8_chars v \<noteq> None
     \<and> list_all (\<lambda>c. u8 c = 9 \<or> (32 \<le> u8 c \<and> u8 c \<noteq> 127)) v"
  by (auto simp: reason_try_from_Ok reason_valid_def reason_byte_def list_all_iff)

end
