(* ===== verification/Status.thy ===== *)
theory Status
  imports Reason
begin

text \<open>
  Status codes: \<^verbatim>\<open>rtsp-2/src/status.rs\<close>. The macro \<open>status_codes!\<close> of the source produces
  one variant, one number and one phrase per row of its table; here the rows are the equations
  of \<open>status_u16\<close> and \<open>canonical_reason\<close>, and the \<open>match\<close> on numbers looks the number up in
  the list of all variants.
\<close>

datatype StatusCode =
    Continue | OK | MovedPermanently | Found | NotModified | UseProxy | BadRequest |
    Unauthorized | PaymentRequired | Forbidden | NotFound | MethodNotAllowed | NotAcceptable |
    ProxyAuthenticationRequired | RequestTimeout | Gone | PreconditionFailed |
    RequestMessageBodyTooLarge | RequestURITooLong | UnsupportedMediaType |
    ParameterNotUnderstood | NotEnoughBandwidth | SessionNotFound | MethodNotValidInThisState |
    HeaderFieldNotValidForResource | InvalidRange | ParameterIsReadOnly |
    AggregateOperationNotAllowed | OnlyAggregateOperationAllowed | UnsupportedTransport |
    DestinationUnreachable | DestinationProhibited | DataTransportNotReadyYet |
    NotificationReasonUnknown | KeyManagementError | ConnectionAuthorizationRequired |
    ConnectionCredentialsNotAccepted | FailureToEstablishSecureConnection |
    InternalServerError | NotImplemented | BadGateway | ServiceUnavailable | GatewayTimeout |
    RTSPVersionNotSupported | OptionNotSupported | ProxyUnavailable |
    StatusExtension nat

datatype StatusCodeError = StatusInvalid | StatusOutOfRange | StatusRemoved

datatype StatusCodeClass = Informational | Success | Redirection | ClientError | ServerError

text \<open>\<open>From<StatusCode> for u16\<close>.\<close>

primrec status_u16 :: "StatusCode \<Rightarrow> nat" where
  "status_u16 Continue = 100"
| "status_u16 OK = 200"
| "status_u16 MovedPermanently = 301"
| "status_u16 Found = 302"
| "status_u16 NotModified = 304"
| "status_u16 UseProxy = 305"
| "status_u16 BadRequest = 400"
| "status_u16 Unauthorized = 401"
| "status_u16 PaymentRequired = 402"
| "status_u16 Forbidden = 403"
| "status_u16 NotFound = 404"
| "status_u16 MethodNotAllowed = 405"
| "status_u16 NotAcceptable = 406"
| "status_u16 ProxyAuthenticationRequired = 407"
| "status_u16 RequestTimeout = 408"
| "status_u16 Gone = 410"
| "status_u16 PreconditionFailed = 412"
| "status_u16 RequestMessageBodyTooLarge = 413"
| "status_u16 RequestURITooLong = 414"
| "status_u16 UnsupportedMediaType = 415"
| "status_u16 ParameterNotUnderstood = 451"
| "status_u16 NotEnoughBandwidth = 453"
| "status_u16 SessionNotFound = 454"
| "status_u16 MethodNotValidInThisState = 455"
| "status_u16 HeaderFieldNotValidForResource = 456"
| "status_u16 InvalidRange = 457"
| "status_u16 ParameterIsReadOnly = 458"
| "status_u16 AggregateOperationNotAllowed = 459"
| "status_u16 OnlyAggregateOperationAllowed = 460"
| "status_u16 UnsupportedTransport = 461"
| "status_u16 DestinationUnreachable = 462"
| "status_u16 DestinationProhibited = 463"
| "status_u16 DataTransportNotReadyYet = 464"
| "status_u16 NotificationReasonUnknown = 465"
| "status_u16 KeyManagementError = 466"
| "status_u16 ConnectionAuthorizationRequired = 470"
| "status_u16 ConnectionCredentialsNotAccepted = 471"
| "status_u16 FailureToEstablishSecureConnection = 472"
| "status_u16 InternalServerError = 500"
| "status_u16 NotImplemented = 501"
| "status_u16 BadGateway = 502"
| "status_u16 ServiceUnavailable = 503"
| "status_u16 GatewayTimeout = 504"
| "status_u16 RTSPVersionNotSupported = 505"
| "status_u16 OptionNotSupported = 551"
| "status_u16 ProxyUnavailable = 553"
| "status_u16 (StatusExtension code) = code"

text \<open>The phrase of \<open>canonical_reason\<close>; extensions have none.\<close>

primrec canonical_phrase :: "StatusCode \<Rightarrow> bytes option" where
  "canonical_phrase Continue = Some ''Continue''"
| "canonical_phrase OK = Some ''OK''"
| "canonical_phrase MovedPermanently = Some ''Moved Permanently''"
| "canonical_phrase Found = Some ''Found''"
| "canonical_phrase NotModified = Some ''Not Modified''"
| "canonical_phrase UseProxy = Some ''Use Proxy''"
| "canonical_phrase BadRequest = Some ''Bad Request''"
| "canonical_phrase Unauthorized = Some ''Unauthorized''"
| "canonical_phrase PaymentRequired = Some ''Payment Required''"
| "canonical_phrase Forbidden = Some ''Forbidden''"
| "canonical_phrase NotFound = Some ''Not Found''"
| "canonical_phrase MethodNotAllowed = Some ''Method Not Allowed''"
| "canonical_phrase NotAcceptable = Some ''Not Acceptable''"
| "canonical_phrase ProxyAuthenticationRequired = Some ''Proxy Authentication Required''"
| "canonical_phrase RequestTimeout = Some ''Request Timeout''"
| "canonical_phrase Gone = Some ''Gone''"
| "canonical_phrase PreconditionFailed = Some ''Precondition Failed''"
| "canonical_phrase RequestMessageBodyTooLarge = Some ''Request Message Body Too Large''"
| "canonical_phrase RequestURITooLong = Some ''Request-URI Too Long''"
| "canonical_phrase UnsupportedMediaType = Some ''Unsupported Media Type''"
| "canonical_phrase ParameterNotUnderstood = Some ''Parameter Not Understood''"
| "canonical_phrase NotEnoughBandwidth = Some ''Not Enough Bandwidth''"
| "canonical_phrase SessionNotFound = Some ''Session Not Found''"
| "canonical_phrase MethodNotValidInThisState = Some ''Method Not Valid in This State''"
| "canonical_phrase HeaderFieldNotValidForResource = Some ''Header Field Not Valid for Resource''"
| "canonical_phrase InvalidRange = Some ''Invalid Range''"
| "canonical_phrase ParameterIsReadOnly = Some ''Parameter Is Read-Only''"
| "canonical_phrase AggregateOperationNotAllowed = Some ''Aggregate Operation Not Allowed''"
| "canonical_phrase OnlyAggregateOperationAllowed = Some ''Only Aggregate Operation Allowed''"
| "canonical_phrase UnsupportedTransport = Some ''Unsupported Transport''"
| "canonical_phrase DestinationUnreachable = Some ''Destination Unreachable''"
| "canonical_phrase DestinationProhibited = Some ''Destination Prohibited''"
| "canonical_phrase DataTransportNotReadyYet = Some ''Data Transport Not Ready Yet''"
| "canonical_phrase NotificationReasonUnknown = Some ''Notification Reason Unknown''"
| "canonical_phrase KeyManagementError = Some ''Key Management Error''"
| "canonical_phrase ConnectionAuthorizationRequired = Some ''Connection Authorization Required''"
| "canonical_phrase ConnectionCredentialsNotAccepted = Some ''Connection Credentials Not Accepted''"
| "canonical_phrase FailureToEstablishSecureConnection = Some ''Failure to Establish Secure Connection''"
| "canonical_phrase InternalServerError = Some ''Internal Server Error''"
| "canonical_phrase NotImplemented = Some ''Not Implemented''"
| "canonical_phrase BadGateway = Some ''Bad Gateway''"
| "canonical_phrase ServiceUnavailable = Some ''Service Unavailable''"
| "canonical_phrase GatewayTimeout = Some ''Gateway Timeout''"
| "canonical_phrase RTSPVersionNotSupported = Some ''RTSP Version Not Supported''"
| "canonical_phrase OptionNotSupported = Some ''Option Not Supported''"
| "canonical_phrase ProxyUnavailable = Some ''Proxy Unavailable''"
| "canonical_phrase (StatusExtension code) = None"

definition canonical_reason :: "StatusCode \<Rightarrow> ReasonPhrase option" where
  "canonical_reason s = map_option from_static_str_unchecked (canonical_phrase s)"

definition status_variants :: "StatusCode list" where
  "status_variants = [
    Continue, OK, MovedPermanently, Found, NotModified, UseProxy, BadRequest, Unauthorized,
    PaymentRequired, Forbidden, NotFound, MethodNotAllowed, NotAcceptable,
    ProxyAuthenticationRequired, RequestTimeout, Gone, PreconditionFailed,
    RequestMessageBodyTooLarge, RequestURITooLong, UnsupportedMediaType,
    ParameterNotUnderstood, NotEnoughBandwidth, SessionNotFound, MethodNotValidInThisState,
    HeaderFieldNotValidForResource, InvalidRange, ParameterIsReadOnly,
    AggregateOperationNotAllowed, OnlyAggregateOperationAllowed, UnsupportedTransport,
    DestinationUnreachable, DestinationProhibited, DataTransportNotReadyYet,
    NotificationReasonUnknown, KeyManagementError, ConnectionAuthorizationRequired,
    ConnectionCredentialsNotAccepted, FailureToEstablishSecureConnection, InternalServerError,
    NotImplemented, BadGateway, ServiceUnavailable, GatewayTimeout, RTSPVersionNotSupported,
    OptionNotSupported, ProxyUnavailable]"

text \<open>\<open>TryFrom<u16>\<close>: the range and the removed codes first, then the \<open>match\<close> on the table.\<close>

definition status_match :: "nat \<Rightarrow> StatusCode" where
  "status_match value =
     (case find (\<lambda>s. status_u16 s = value) status_variants of
        Some s \<Rightarrow> s
      | None \<Rightarrow> StatusExtension value)"

definition status_try_from_u16 :: "nat \<Rightarrow> StatusCodeError + StatusCode" where
  "status_try_from_u16 value =
     (if value < 100 \<or> value \<ge> 600 then Err StatusOutOfRange
      else if value = 303 \<or> value = 352 then Err StatusRemoved
      else Ok (status_match value))"

text \<open>The conversions from the other integer types go through \<open>u16::try_from\<close>.\<close>

definition status_try_from_int :: "int \<Rightarrow> StatusCodeError + StatusCode" where
  "status_try_from_int value =
     (if value < 0 \<or> value > 65535 then Err StatusOutOfRange else status_try_from_u16 (nat value))"

text \<open>\<open>u8::wrapping_sub(b'0')\<close>.\<close>

definition wrapping_sub_0 :: "byte \<Rightarrow> nat" where
  "wrapping_sub_0 c = (u8 c + 256 - 48) mod 256"

definition status_try_from :: "bytes \<Rightarrow> StatusCodeError + StatusCode" where
  "status_try_from value =
     (if length value \<noteq> 3 then Err StatusInvalid
      else let a = wrapping_sub_0 (value ! 0);
               b = wrapping_sub_0 (value ! 1);
               c = wrapping_sub_0 (value ! 2)
           in status_try_from_u16 (a * 100 + b * 10 + c))"

text \<open>\<open>class\<close> panics on a code outside the five classes.\<close>

definition status_class :: "StatusCode \<Rightarrow> StatusCodeClass option" where
  "status_class s =
     (let n = status_u16 s in
      if 100 \<le> n \<and> n \<le> 199 then Some Informational
      else if 200 \<le> n \<and> n \<le> 299 then Some Success
      else if 300 \<le> n \<and> n \<le> 399 then Some Redirection
      else if 400 \<le> n \<and> n \<le> 499 then Some ClientError
      else if 500 \<le> n \<and> n \<le> 599 then Some ServerError
      else None)"

definition is_client_error :: "StatusCode \<Rightarrow> bool option" where
  "is_client_error s = map_option (\<lambda>c. c = ClientError) (status_class s)"

definition is_informational :: "StatusCode \<Rightarrow> bool option" where
  "is_informational s = map_option (\<lambda>c. c = Informational) (status_class s)"

definition is_redirection :: "StatusCode \<Rightarrow> bool option" where
  "is_redirection s = map_option (\<lambda>c. c = Redirection) (status_class s)"

definition is_server_error :: "StatusCode \<Rightarrow> bool option" where
  "is_server_error s = map_option (\<lambda>c. c = ServerError) (status_class s)"

definition is_success :: "StatusCode \<Rightarrow> bool option" where
  "is_success s = map_option (\<lambda>c. c = Success) (status_class s)"

definition status_default :: StatusCode where
  "status_default = OK"

text \<open>\<open>Display\<close>: the number in decimal; equality with an integer of any width; the order.\<close>

definition status_display :: "StatusCode \<Rightarrow> bytes" where
  "status_display s = decimal (status_u16 s)"

definition status_eq_int :: "StatusCode \<Rightarrow> int \<Rightarrow> bool" where
  "status_eq_int s other \<longleftrightarrow> int (status_u16 s) = other"

definition status_le :: "StatusCode \<Rightarrow> StatusCode \<Rightarrow> bool" where
  "status_le s t \<longleftrightarrow> status_u16 s \<le> status_u16 t"

subsection \<open>Facts\<close>

text \<open>What the private field of \<open>ExtensionStatusCode\<close> guarantees.\<close>

fun status_valid :: "StatusCode \<Rightarrow> bool" where
  "status_valid (StatusExtension n) \<longleftrightarrow>
     100 \<le> n \<and> n < 600 \<and> n \<noteq> 303 \<and> n \<noteq> 352 \<and> n \<notin> set (map status_u16 status_variants)"
| "status_valid s \<longleftrightarrow> True"

lemma status_variants_complete: "s \<in> set status_variants \<or> (\<exists>n. s = StatusExtension n)"
  by (cases s) (simp_all add: status_variants_def)

lemma status_variants_valid: "s \<in> set status_variants \<Longrightarrow> status_valid s"
  unfolding status_variants_def by auto

lemma status_codes_range:
  "s \<in> set status_variants \<Longrightarrow>
     100 \<le> status_u16 s \<and> status_u16 s < 600 \<and> status_u16 s \<noteq> 303 \<and> status_u16 s \<noteq> 352"
  unfolding status_variants_def by auto

lemma status_codes_distinct: "distinct (map status_u16 status_variants)"
  by (simp add: status_variants_def)

lemma status_match_variant: "s \<in> set status_variants \<Longrightarrow> status_match (status_u16 s) = s"
  by (simp add: status_match_def find_unique [OF status_codes_distinct])

lemma status_match_extension:
  "n \<notin> set (map status_u16 status_variants) \<Longrightarrow> status_match n = StatusExtension n"
proof -
  assume "n \<notin> set (map status_u16 status_variants)"
  then have "find (\<lambda>s. status_u16 s = n) status_variants = None"
    by (auto simp: find_None_iff)
  then show ?thesis by (simp add: status_match_def)
qed

lemma status_valid_range:
  assumes "status_valid s"
  shows "100 \<le> status_u16 s \<and> status_u16 s < 600 \<and> status_u16 s \<noteq> 303 \<and> status_u16 s \<noteq> 352"
proof (cases "s \<in> set status_variants")
  case False
  then obtain n where "s = StatusExtension n" using status_variants_complete by blast
  with assms show ?thesis by simp
qed (simp add: status_codes_range)

lemma status_roundtrip: "status_valid s \<Longrightarrow> status_try_from_u16 (status_u16 s) = Ok s"
  using status_valid_range [of s] status_variants_complete [of s]
  by (auto simp: status_try_from_u16_def status_match_variant status_match_extension)

lemma status_try_from_u16_Ok:
  "status_try_from_u16 n = Ok s \<longleftrightarrow>
     status_u16 s = n \<and> status_valid s"
proof
  assume ok: "status_try_from_u16 n = Ok s"
  then have range: "100 \<le> n" "n < 600" "n \<noteq> 303" "n \<noteq> 352" and s: "s = status_match n"
    by (simp_all add: status_try_from_u16_def split: if_splits)
  show "status_u16 s = n \<and> status_valid s"
  proof (cases "n \<in> set (map status_u16 status_variants)")
    case True
    then obtain t where "t \<in> set status_variants" "n = status_u16 t" by auto
    with s show ?thesis by (simp add: status_match_variant status_variants_valid)
  next
    case False
    with s range show ?thesis by (simp add: status_match_extension)
  qed
qed (auto simp: status_roundtrip)

lemma status_class_total: "status_valid s \<Longrightarrow> status_class s \<noteq> None"
  using status_valid_range [of s] by (auto simp: status_class_def Let_def)

lemma wrapping_sub_0_digit: "d < 10 \<Longrightarrow> wrapping_sub_0 (char_of (48 + d)) = d"
  by (simp add: wrapping_sub_0_def of_char_of)

text \<open>The sum of the three bytes fits the \<open>u16\<close> it is computed in.\<close>

lemma status_bytes_no_overflow:
  "wrapping_sub_0 x * 100 + wrapping_sub_0 y * 10 + wrapping_sub_0 z < 2 ^ 16"
proof -
  have "wrapping_sub_0 c < 256" for c by (simp add: wrapping_sub_0_def)
  from this [of x] this [of y] this [of z] show ?thesis by simp
qed

lemma decimal_three:
  assumes "1 \<le> a" "a < 10" "b < 10" "c < 10"
  shows "decimal (a * 100 + b * 10 + c) = [char_of (48 + a), char_of (48 + b), char_of (48 + c)]"
proof -
  have "decimal a = [char_of (48 + a)]"
    using assms(2) by (subst decimal.simps) simp
  moreover have "decimal (a * 10 + b) = decimal a @ [char_of (48 + b)]"
    using assms by (subst decimal.simps) simp
  moreover have "decimal (a * 100 + b * 10 + c) = decimal (a * 10 + b) @ [char_of (48 + c)]"
  proof -
    have eq: "a * 100 + b * 10 + c = (a * 10 + b) * 10 + c" by simp
    have "((a * 10 + b) * 10 + c) div 10 = a * 10 + b" "((a * 10 + b) * 10 + c) mod 10 = c"
      using assms(4) by (simp_all only: div_mult_self3 mod_mult_self3 div_less mod_less)
    moreover have "\<not> a * 100 + b * 10 + c < 10" using assms(1) by linarith
    ultimately have "(a * 100 + b * 10 + c) div 10 = a * 10 + b" "(a * 100 + b * 10 + c) mod 10 = c"
      "\<not> a * 100 + b * 10 + c < 10" by (simp_all only: eq not_False_eq_True)
    then show ?thesis by (subst decimal.simps) (simp only: if_False)
  qed
  ultimately show ?thesis by simp
qed

lemma status_three_digits:
  assumes "status_valid s"
  obtains a b c where "status_u16 s = a * 100 + b * 10 + c" "a < 10" "b < 10" "c < 10"
    "status_display s = [char_of (48 + a), char_of (48 + b), char_of (48 + c)]"
proof -
  let ?n = "status_u16 s"
  have range: "100 \<le> ?n" "?n < 600" using status_valid_range [OF assms] by simp_all
  have "?n = ?n div 10 * 10 + ?n mod 10" "?n div 10 = ?n div 10 div 10 * 10 + ?n div 10 mod 10"
    by (rule div_mult_mod_eq [symmetric])+
  moreover have hundreds: "?n div 10 div 10 = ?n div 100" by (simp add: div_mult2_eq [symmetric])
  ultimately have n: "?n = (?n div 100) * 100 + (?n div 10 mod 10) * 10 + ?n mod 10" by linarith
  have digits: "1 \<le> ?n div 100" "?n div 100 < 10" "?n div 10 mod 10 < 10" "?n mod 10 < 10"
    using range by (simp_all add: less_mult_imp_div_less div_greater_zero_iff Suc_le_eq)
  show thesis
  proof (rule that [OF n])
    show "status_display s = [char_of (48 + ?n div 100), char_of (48 + ?n div 10 mod 10), char_of (48 + ?n mod 10)]"
      using decimal_three [OF digits] n by (simp add: status_display_def)
  qed (rule digits)+
qed

lemma length_status_display: "status_valid s \<Longrightarrow> length (status_display s) = 3"
  by (erule status_three_digits) simp

lemma status_display_parse:
  assumes "status_valid s"
  shows "status_try_from (status_display s) = Ok s"
proof -
  obtain a b c where n: "status_u16 s = a * 100 + b * 10 + c" and less: "a < 10" "b < 10" "c < 10"
    and d: "status_display s = [char_of (48 + a), char_of (48 + b), char_of (48 + c)]"
    using status_three_digits [OF assms] .
  have "status_try_from (status_display s) = status_try_from_u16 (a * 100 + b * 10 + c)"
    unfolding d status_try_from_def Let_def using less
    by (simp add: wrapping_sub_0_digit)
  also have "\<dots> = Ok s" using status_roundtrip [OF assms] n by simp
  finally show ?thesis .
qed

lemma status_try_from_Ok: "status_try_from v = Ok s \<Longrightarrow> status_valid s"
  by (auto simp: status_try_from_def Let_def status_try_from_u16_Ok split: if_splits)

subsection \<open>Properties\<close>

text \<open>
  A number is a status code exactly when it is in 100..599 and is not one of the removed codes
  303 and 352, and then the value that is returned has that number.
\<close>

theorem status_codes_exact:
  "status_try_from_u16 n =
     (if 100 \<le> n \<and> n < 600 then
        (if n = 303 \<or> n = 352 then Err StatusRemoved else Ok (status_match n))
      else Err StatusOutOfRange)
   \<and> status_u16 (status_match n) = n"
proof
  show "status_u16 (status_match n) = n"
    using status_match_variant status_match_extension [of n]
    by (cases "n \<in> set (map status_u16 status_variants)") auto
qed (auto simp: status_try_from_u16_def)

text \<open>
  Every status code the conversions return has a class, prints as three digits, and these
  digits are read back as the same code.
\<close>

theorem status_text_roundtrip:
  assumes "status_try_from_u16 n = Ok s"
  shows "status_try_from (status_display s) = Ok s \<and> length (status_display s) = 3 \<and> status_class s \<noteq> None"
  using assms status_try_from_u16_Ok status_display_parse length_status_display status_class_total by blast+

lemma status_text_roundtrip_witness:
  "status_try_from (status_display (StatusExtension 499)) = Ok (StatusExtension 499)
   \<and> length (status_display (StatusExtension 499)) = 3 \<and> status_class (StatusExtension 499) \<noteq> None"
proof -
  have "status_try_from_u16 499 = Ok (StatusExtension 499)" by code_simp
  from status_text_roundtrip [OF this] show ?thesis by blast
qed

text \<open>The bytes of a status code are not checked to be digits: a colon counts as ten.\<close>

lemma status_bytes_non_digit: "status_try_from ''1:0'' = Ok OK"
  by code_simp

end
