(* ===== verification/Response.thy ===== *)
theory Response
  imports Version Reason Status HeaderMap
begin

text \<open>
  Responses, their builder and the canned responses of the connection:
  \<^verbatim>\<open>rtsp-2/src/response.rs\<close>.
\<close>

record ('b, 'm) Response =
  resp_body :: 'b
  resp_reason_phrase :: ReasonPhrase
  resp_headers :: 'm
  resp_status_code :: StatusCode
  resp_version :: Version

datatype ResponseError = ResponseMissingBody | ResponseMissingReasonPhrase | ResponseUnsupportedVersion

record ('b, 'm) response_builder =
  rsb_body :: "'b option"
  rsb_custom_reason_phrase :: "ReasonPhrase option"
  rsb_headers :: 'm
  rsb_status_code :: StatusCode
  rsb_version :: Version

definition response_builder_new :: "'m header_map_ops \<Rightarrow> ('b, 'm) response_builder" where
  "response_builder_new M =
     \<lparr>rsb_body = None, rsb_custom_reason_phrase = None, rsb_headers = map_default M,
      rsb_status_code = status_default, rsb_version = version_default\<rparr>"

text \<open>
  \<open>build\<close>: an extension status code takes the custom phrase, a standard one its canonical phrase
  (the \<open>expect\<close> is the outer option).
\<close>

definition response_build :: "('b, 'm) response_builder \<Rightarrow> (ResponseError + ('b, 'm) Response) option" where
  "response_build b =
     (let finish = (\<lambda>reason_phrase.
        case rsb_body b of None \<Rightarrow> Err ResponseMissingBody | Some body \<Rightarrow>
          if rsb_version b \<noteq> Rtsp2_0 then Err ResponseUnsupportedVersion
          else Ok \<lparr>resp_body = body, resp_reason_phrase = reason_phrase, resp_headers = rsb_headers b,
                   resp_status_code = rsb_status_code b, resp_version = rsb_version b\<rparr>)
      in case rsb_status_code b of
           StatusExtension _ \<Rightarrow>
             Some (case rsb_custom_reason_phrase b of
                     None \<Rightarrow> Err ResponseMissingReasonPhrase
                   | Some reason_phrase \<Rightarrow> finish reason_phrase)
         | _ \<Rightarrow> map_option finish (canonical_reason (rsb_status_code b)))"

definition response_set_body :: "'b \<Rightarrow> ('b, 'm) response_builder \<Rightarrow> ('b, 'm) response_builder" where
  "response_set_body body b = b\<lparr>rsb_body := Some body\<rparr>"

definition response_header ::
  "'m header_map_ops \<Rightarrow> HeaderName \<Rightarrow> HeaderValue \<Rightarrow> ('b, 'm) response_builder \<Rightarrow> ('b, 'm) response_builder"
where
  "response_header M name value b = b\<lparr>rsb_headers := map_append M (rsb_headers b) name value\<rparr>"

definition response_set_reason_phrase ::
  "ReasonPhrase option \<Rightarrow> ('b, 'm) response_builder \<Rightarrow> ('b, 'm) response_builder" where
  "response_set_reason_phrase reason_phrase b = b\<lparr>rsb_custom_reason_phrase := reason_phrase\<rparr>"

definition response_set_status_code :: "StatusCode \<Rightarrow> ('b, 'm) response_builder \<Rightarrow> ('b, 'm) response_builder" where
  "response_set_status_code status_code b = b\<lparr>rsb_status_code := status_code\<rparr>"

definition response_typed_header ::
  "'m header_map_ops \<Rightarrow> HeaderName \<Rightarrow> ('h \<Rightarrow> HeaderValue list) \<Rightarrow> 'h \<Rightarrow> ('b, 'm) response_builder
     \<Rightarrow> ('b, 'm) response_builder"
where
  "response_typed_header M name encode header b =
     b\<lparr>rsb_headers := typed_insert M name encode header (rsb_headers b)\<rparr>"

definition response_set_version :: "Version \<Rightarrow> ('b, 'm) response_builder \<Rightarrow> ('b, 'm) response_builder" where
  "response_set_version version b = b\<lparr>rsb_version := version\<rparr>"

definition response_with_body :: "'c \<Rightarrow> ('b, 'm) response_builder \<Rightarrow> ('c, 'm) response_builder" where
  "response_with_body body b =
     \<lparr>rsb_body = Some body, rsb_custom_reason_phrase = rsb_custom_reason_phrase b,
      rsb_headers = rsb_headers b, rsb_status_code = rsb_status_code b, rsb_version = rsb_version b\<rparr>"

definition response_from_parts ::
  "'m header_map_ops \<Rightarrow> Version \<Rightarrow> StatusCode \<Rightarrow> ReasonPhrase \<Rightarrow> 'm \<Rightarrow> 'b
     \<Rightarrow> (ResponseError + ('b, 'm) Response) option"
where
  "response_from_parts M version status_code reason_phrase headers body =
     (let builder = response_with_body body
            (response_set_reason_phrase (Some reason_phrase)
              (response_set_status_code status_code
                (response_set_version version (response_builder_new M :: (unit, 'm) response_builder))))
      in response_build (builder\<lparr>rsb_headers := headers\<rparr>))"

definition response_into_builder :: "('b, 'm) Response \<Rightarrow> ('b, 'm) response_builder" where
  "response_into_builder r =
     \<lparr>rsb_body = Some (resp_body r), rsb_custom_reason_phrase = Some (resp_reason_phrase r),
      rsb_headers = resp_headers r, rsb_status_code = resp_status_code r, rsb_version = resp_version r\<rparr>"

definition response_into_parts :: "('b, 'm) Response \<Rightarrow> Version \<times> StatusCode \<times> ReasonPhrase \<times> 'm \<times> 'b" where
  "response_into_parts r =
     (resp_version r, resp_status_code r, resp_reason_phrase r, resp_headers r, resp_body r)"

definition response_map :: "('b \<Rightarrow> 'c) \<Rightarrow> ('b, 'm) Response \<Rightarrow> ('c, 'm) Response" where
  "response_map mapper r =
     \<lparr>resp_body = mapper (resp_body r), resp_reason_phrase = resp_reason_phrase r,
      resp_headers = resp_headers r, resp_status_code = resp_status_code r, resp_version = resp_version r\<rparr>"

text \<open>The lazily built constants: a status code and an empty body, with \<open>expect\<close> on the result.\<close>

definition canned_response :: "'m header_map_ops \<Rightarrow> StatusCode \<Rightarrow> (bytes, 'm) Response option" where
  "canned_response M status_code =
     (case response_build (response_with_body []
         (response_set_status_code status_code (response_builder_new M :: (unit, 'm) response_builder))) of
        Some (Ok r) \<Rightarrow> Some r
      | _ \<Rightarrow> None)"

definition BAD_REQUEST_RESPONSE :: "'m header_map_ops \<Rightarrow> (bytes, 'm) Response option" where
  "BAD_REQUEST_RESPONSE M = canned_response M BadRequest"
definition CONTINUE_RESPONSE :: "'m header_map_ops \<Rightarrow> (bytes, 'm) Response option" where
  "CONTINUE_RESPONSE M = canned_response M Continue"
definition INTERNAL_SERVER_ERROR_RESPONSE :: "'m header_map_ops \<Rightarrow> (bytes, 'm) Response option" where
  "INTERNAL_SERVER_ERROR_RESPONSE M = canned_response M InternalServerError"
definition NOT_IMPLEMENTED_RESPONSE :: "'m header_map_ops \<Rightarrow> (bytes, 'm) Response option" where
  "NOT_IMPLEMENTED_RESPONSE M = canned_response M NotImplemented"
definition REQUEST_MESSAGE_BODY_TOO_LARGE_RESPONSE :: "'m header_map_ops \<Rightarrow> (bytes, 'm) Response option" where
  "REQUEST_MESSAGE_BODY_TOO_LARGE_RESPONSE M = canned_response M RequestMessageBodyTooLarge"
definition REQUEST_URI_TOO_LONG_RESPONSE :: "'m header_map_ops \<Rightarrow> (bytes, 'm) Response option" where
  "REQUEST_URI_TOO_LONG_RESPONSE M = canned_response M RequestURITooLong"
definition FORBIDDEN_RESPONSE :: "'m header_map_ops \<Rightarrow> (bytes, 'm) Response option" where
  "FORBIDDEN_RESPONSE M = canned_response M Forbidden"
definition VERSION_NOT_SUPPORTED_RESPONSE :: "'m header_map_ops \<Rightarrow> (bytes, 'm) Response option" where
  "VERSION_NOT_SUPPORTED_RESPONSE M = canned_response M RTSPVersionNotSupported"

subsection \<open>Facts\<close>

definition is_status_extension :: "StatusCode \<Rightarrow> bool" where
  "is_status_extension s = (case s of StatusExtension _ \<Rightarrow> True | _ \<Rightarrow> False)"

lemma is_status_extension_simps:
  "is_status_extension (StatusExtension n)" "s \<in> set status_variants \<Longrightarrow> \<not> is_status_extension s"
  unfolding status_variants_def by (auto simp: is_status_extension_def)

lemma canonical_phrase_standard: "\<not> is_status_extension s \<Longrightarrow> \<exists>p. canonical_phrase s = Some p"
  by (cases s) (simp_all add: is_status_extension_def)

text \<open>The phrase a built response carries.\<close>

definition built_phrase :: "StatusCode \<Rightarrow> ReasonPhrase option \<Rightarrow> ReasonPhrase option" where
  "built_phrase s custom = (if is_status_extension s then custom else canonical_reason s)"

lemma response_build_eq:
  "response_build b =
     Some (case built_phrase (rsb_status_code b) (rsb_custom_reason_phrase b) of
             None \<Rightarrow> Err ResponseMissingReasonPhrase
           | Some p \<Rightarrow>
               (case rsb_body b of None \<Rightarrow> Err ResponseMissingBody | Some body \<Rightarrow>
                  if rsb_version b \<noteq> Rtsp2_0 then Err ResponseUnsupportedVersion
                  else Ok \<lparr>resp_body = body, resp_reason_phrase = p, resp_headers = rsb_headers b,
                           resp_status_code = rsb_status_code b, resp_version = rsb_version b\<rparr>))"
proof (cases "is_status_extension (rsb_status_code b)")
  case True
  then obtain n where "rsb_status_code b = StatusExtension n"
    using status_variants_complete is_status_extension_simps(2) by blast
  then show ?thesis by (simp add: response_build_def built_phrase_def is_status_extension_def)
next
  case False
  then obtain p where "canonical_reason (rsb_status_code b) = Some p"
    using canonical_phrase_standard by (force simp: canonical_reason_def)
  with False show ?thesis
    by (cases "rsb_status_code b")
       (simp_all add: response_build_def built_phrase_def is_status_extension_def Let_def)
qed

lemma response_build_Ok:
  "response_build b = Some (Ok r) \<longleftrightarrow>
     built_phrase (rsb_status_code b) (rsb_custom_reason_phrase b) = Some (resp_reason_phrase r)
     \<and> rsb_body b = Some (resp_body r) \<and> rsb_version b = Rtsp2_0 \<and> resp_version r = Rtsp2_0
     \<and> rsb_headers b = resp_headers r \<and> rsb_status_code b = resp_status_code r"
  by (cases r) (auto simp: response_build_eq split: option.splits)

lemma canned_response_total:
  assumes "\<not> is_status_extension s"
  shows "\<exists>p. canned_response M s = Some
    \<lparr>resp_body = [], resp_reason_phrase = p, resp_headers = map_default M, resp_status_code = s,
     resp_version = Rtsp2_0\<rparr>"
proof -
  obtain p where "canonical_reason s = Some p"
    using canonical_phrase_standard [OF assms] by (auto simp: canonical_reason_def)
  with assms show ?thesis
    by (simp add: canned_response_def response_build_eq built_phrase_def response_with_body_def
        response_set_status_code_def response_builder_new_def version_default_def)
qed

lemma canned_total_one:
  "\<not> is_status_extension s \<Longrightarrow> \<exists>r. canned_response M s = Some r \<and> resp_status_code r = s"
  using canned_response_total [of s M] by auto

lemmas canned_response_defs =
  BAD_REQUEST_RESPONSE_def CONTINUE_RESPONSE_def INTERNAL_SERVER_ERROR_RESPONSE_def NOT_IMPLEMENTED_RESPONSE_def
  REQUEST_MESSAGE_BODY_TOO_LARGE_RESPONSE_def REQUEST_URI_TOO_LONG_RESPONSE_def FORBIDDEN_RESPONSE_def VERSION_NOT_SUPPORTED_RESPONSE_def

lemma canned_total:
  "\<exists>r. BAD_REQUEST_RESPONSE M = Some r \<and> resp_status_code r = BadRequest"
  "\<exists>r. CONTINUE_RESPONSE M = Some r \<and> resp_status_code r = Continue"
  "\<exists>r. INTERNAL_SERVER_ERROR_RESPONSE M = Some r \<and> resp_status_code r = InternalServerError"
  "\<exists>r. NOT_IMPLEMENTED_RESPONSE M = Some r \<and> resp_status_code r = NotImplemented"
  "\<exists>r. REQUEST_MESSAGE_BODY_TOO_LARGE_RESPONSE M = Some r \<and> resp_status_code r = RequestMessageBodyTooLarge"
  "\<exists>r. REQUEST_URI_TOO_LONG_RESPONSE M = Some r \<and> resp_status_code r = RequestURITooLong"
  "\<exists>r. FORBIDDEN_RESPONSE M = Some r \<and> resp_status_code r = Forbidden"
  "\<exists>r. VERSION_NOT_SUPPORTED_RESPONSE M = Some r \<and> resp_status_code r = RTSPVersionNotSupported"
  unfolding canned_response_defs by (rule canned_total_one; simp add: is_status_extension_def)+

subsection \<open>Properties\<close>

text \<open>
  Building a response never panics. It succeeds exactly when a body is set, the version is 2.0
  and there is a reason phrase: the canonical one for a standard status code, whatever custom
  phrase was set, and the custom phrase for an extension code.
\<close>

theorem response_builder_exact:
  "response_build b \<noteq> None
   \<and> (response_build b = Some (Ok r) \<longleftrightarrow>
        (if is_status_extension (rsb_status_code b)
         then rsb_custom_reason_phrase b = Some (resp_reason_phrase r)
         else canonical_reason (rsb_status_code b) = Some (resp_reason_phrase r))
        \<and> rsb_body b = Some (resp_body r) \<and> rsb_version b = Rtsp2_0 \<and> resp_version r = Rtsp2_0
        \<and> rsb_headers b = resp_headers r \<and> rsb_status_code b = resp_status_code r)"
  by (simp add: response_build_Ok built_phrase_def) (simp add: response_build_eq)

text \<open>
  The responses the connection sends on its own can all be built: none of the lazily
  initialised constants panics, and each has its status code, no body and no header.
\<close>

theorem canned_responses_exist:
  "list_all (\<lambda>(c, s). \<exists>r. c = Some r \<and> resp_status_code r = s \<and> resp_body r = [] \<and> resp_headers r = map_default M)
     [(BAD_REQUEST_RESPONSE M, BadRequest), (CONTINUE_RESPONSE M, Continue),
      (FORBIDDEN_RESPONSE M, Forbidden), (INTERNAL_SERVER_ERROR_RESPONSE M, InternalServerError),
      (NOT_IMPLEMENTED_RESPONSE M, NotImplemented),
      (REQUEST_MESSAGE_BODY_TOO_LARGE_RESPONSE M, RequestMessageBodyTooLarge),
      (REQUEST_URI_TOO_LONG_RESPONSE M, RequestURITooLong),
      (VERSION_NOT_SUPPORTED_RESPONSE M, RTSPVersionNotSupported)]"
proof -
  have c: "\<exists>r. canned_response M s = Some r \<and> resp_status_code r = s \<and> resp_body r = [] \<and> resp_headers r = map_default M"
    if "\<not> is_status_extension s" for s
    using canned_response_total [OF that, of M] by auto
  show ?thesis
    by (simp add: c is_status_extension_def canned_response_defs)
qed

end
