(* ===== verification/ResponseDecoder.thy ===== *)
theory ResponseDecoder
  imports Decoder Response
begin

text \<open>
  The response decoder: \<^verbatim>\<open>rtsp-2/src/protocol/codec/decoder/response.rs\<close>. A decoding function
  takes the decoder and the buffer and returns both with the result; the outer option of the loop
  is the panic on a missing part when the response is built.
\<close>

datatype response_decode_error =
    RsBodyTooLong | RsHeaderName HeaderNameError | RsHeaderNameTooLong | RsHeaderValue HeaderValueError
  | RsHeaderValueTooLong | RsInvalidContentLength | RsReasonPhrase ReasonPhraseError
  | RsReasonPhraseTooLong | RsStatusCode StatusCodeError | RsTooManyHeaders | RsUnsupportedVersion
  | RsVersion VersionDecodeError

datatype response_decode_state =
    RsStBody | RsStEnd | RsStError response_decode_error | RsStHeader | RsStReasonPhrase
  | RsStStatusCode | RsStVersion

record response_config =
  rsc_body_max_length :: nat
  rsc_header_max_count :: nat
  rsc_header_name_max_length :: nat
  rsc_header_value_max_length :: nat
  rsc_reason_phrase_max_length :: nat

definition response_config_default :: response_config where
  "response_config_default =
     \<lparr>rsc_body_max_length = BODY_DEFAULT_MAX_LENGTH,
      rsc_header_max_count = HEADER_DEFAULT_MAX_COUNT,
      rsc_header_name_max_length = HEADER_NAME_DEFAULT_MAX_LENGTH,
      rsc_header_value_max_length = HEADER_VALUE_DEFAULT_MAX_LENGTH,
      rsc_reason_phrase_max_length = REASON_PHRASE_DEFAULT_MAX_LENGTH\<rparr>"

record 'm response_decoder =
  rsd_builder :: "(bytes, 'm) response_builder"
  rsd_config :: response_config
  rsd_content_length :: ContentLength
  rsd_state :: response_decode_state

definition response_decoder_with_config :: "'m header_map_ops \<Rightarrow> response_config \<Rightarrow> 'm response_decoder" where
  "response_decoder_with_config M config =
     \<lparr>rsd_builder = response_builder_new M, rsd_config = config,
      rsd_content_length = content_length_default, rsd_state = RsStVersion\<rparr>"

definition response_decoder_new :: "'m header_map_ops \<Rightarrow> 'm response_decoder" where
  "response_decoder_new M = response_decoder_with_config M response_config_default"

definition response_decoder_reset :: "'m header_map_ops \<Rightarrow> 'm response_decoder \<Rightarrow> 'm response_decoder" where
  "response_decoder_reset M d =
     d\<lparr>rsd_builder := response_builder_new M, rsd_content_length := content_length_default,
       rsd_state := RsStVersion\<rparr>"

type_synonym 'm response_step =
  "'m response_decoder \<times> bytes \<times> (unit, response_decode_error) DecodeResult"

definition rs_decode_body :: "'m response_decoder \<Rightarrow> bytes \<Rightarrow> 'm response_step" where
  "rs_decode_body d buffer =
     (if content_length_value (rsd_content_length d) > length buffer then (d, buffer, Incomplete)
      else let body = take (content_length_value (rsd_content_length d)) buffer;
               undecoded_buffer = drop (content_length_value (rsd_content_length d)) buffer
           in (d\<lparr>rsd_state := RsStEnd, rsd_builder := response_set_body body (rsd_builder d)\<rparr>,
               undecoded_buffer, Complete ()))"

definition rs_decode_header_name ::
  "response_config \<Rightarrow> bytes \<Rightarrow> (bytes option, response_decode_error) DecodeResult" where
  "rs_decode_header_name config buffer =
     (if starts_with buffer CRLF then Complete None
      else let max_length = rsc_header_name_max_length config + 1
           in case position (\<lambda>byte. byte = COLON) (take max_length buffer) of
                Some index \<Rightarrow> Complete (Some (take index buffer))
              | None \<Rightarrow>
                  if length buffer \<ge> max_length then DecodeFailed RsHeaderNameTooLong else Incomplete)"

text \<open>The \<open>for\<close> loop over the line ends; \<^const>\<open>None\<close> when it runs out of them.\<close>

fun rs_header_value_loop :: "bytes \<Rightarrow> nat list \<Rightarrow> (bytes, response_decode_error) DecodeResult option" where
  "rs_header_value_loop buffer [] = None"
| "rs_header_value_loop buffer (index # iter) =
     (if index + 2 < length buffer then
        (if buffer ! (index + 2) = SP \<or> buffer ! (index + 2) = HT
         then rs_header_value_loop buffer iter
         else Some (Complete (take index buffer)))
      else Some Incomplete)"

definition rs_decode_header_value ::
  "response_config \<Rightarrow> bytes \<Rightarrow> (bytes, response_decode_error) DecodeResult" where
  "rs_decode_header_value config buffer =
     (let max_length = rsc_header_value_max_length config + 1
      in case rs_header_value_loop buffer (eol_indices max_length buffer) of
           Some r \<Rightarrow> r
         | None \<Rightarrow>
             if length buffer \<ge> max_length then DecodeFailed RsHeaderValueTooLong else Incomplete)"

definition rs_decode_header ::
  "'m header_map_ops \<Rightarrow> 'm response_decoder \<Rightarrow> bytes \<Rightarrow> 'm response_step" where
  "rs_decode_header M d buffer =
     (case rs_decode_header_name (rsd_config d) buffer of
        DecodeFailed e \<Rightarrow> (d, buffer, DecodeFailed e)
      | Incomplete \<Rightarrow> (d, buffer, Incomplete)
      | Complete (Some header_name) \<Rightarrow>
          (if map_values_len M (rsb_headers (rsd_builder d)) \<ge> rsc_header_max_count (rsd_config d)
           then (d, buffer, DecodeFailed RsTooManyHeaders)
           else let rest = drop (length header_name + 1) buffer
                in case rs_decode_header_value (rsd_config d) rest of
                     DecodeFailed e \<Rightarrow> (d, buffer, DecodeFailed e)
                   | Incomplete \<Rightarrow> (d, buffer, Incomplete)
                   | Complete header_value \<Rightarrow>
                       let header_end_index = length header_value + 2
                       in (case header_try_from (trim_header_name header_name) of
                             Err error \<Rightarrow> (d, buffer, DecodeFailed (RsHeaderName error))
                           | Ok name \<Rightarrow>
                               (case value_try_from (trim_header_value header_value) of
                                  Err error \<Rightarrow> (d, buffer, DecodeFailed (RsHeaderValue error))
                                | Ok value \<Rightarrow>
                                    (d\<lparr>rsd_builder := response_header M name value (rsd_builder d)\<rparr>,
                                     drop header_end_index rest, Complete ()))))
      | Complete None \<Rightarrow>
          let buffer = drop 2 buffer;
              d = d\<lparr>rsd_state := RsStBody\<rparr>
          in (case typed_try_get M content_length_header_name content_length_decode
                     (rsb_headers (rsd_builder d)) of
                Ok (Some content_length) \<Rightarrow>
                  if content_length_value content_length > rsc_body_max_length (rsd_config d)
                  then (d, buffer, DecodeFailed RsBodyTooLong)
                  else (d\<lparr>rsd_content_length := content_length\<rparr>, buffer, Complete ())
              | Ok None \<Rightarrow> (d\<lparr>rsd_content_length := content_length_default\<rparr>, buffer, Complete ())
              | Err _ \<Rightarrow> (d, buffer, DecodeFailed RsInvalidContentLength)))"

definition rs_decode_reason_phrase :: "'m response_decoder \<Rightarrow> bytes \<Rightarrow> 'm response_step" where
  "rs_decode_reason_phrase d buffer =
     (let max_length = rsc_reason_phrase_max_length (rsd_config d) + 2
      in case position (\<lambda>bytes. bytes = (CR, LF)) (take max_length (windows2 buffer)) of
           Some index \<Rightarrow>
             (case reason_try_from (take index buffer) of
                Ok reason_phrase \<Rightarrow>
                  (d\<lparr>rsd_builder := response_set_reason_phrase (Some reason_phrase) (rsd_builder d),
                     rsd_state := RsStHeader\<rparr>,
                   drop (index + 2) buffer, Complete ())
              | Err error \<Rightarrow> (d, buffer, DecodeFailed (RsReasonPhrase error)))
         | None \<Rightarrow>
             if length buffer \<ge> max_length then (d, buffer, DecodeFailed RsReasonPhraseTooLong)
             else (d, buffer, Incomplete))"

definition rs_decode_status_code :: "'m response_decoder \<Rightarrow> bytes \<Rightarrow> 'm response_step" where
  "rs_decode_status_code d buffer =
     (if length buffer < 4 then (d, buffer, Incomplete)
      else if buffer ! 3 \<noteq> SP then (d, buffer, DecodeFailed (RsStatusCode StatusInvalid))
      else case status_try_from (take 3 buffer) of
        Ok status_code \<Rightarrow>
          (d\<lparr>rsd_builder := response_set_status_code status_code (rsd_builder d),
             rsd_state := RsStReasonPhrase\<rparr>,
           drop 4 buffer, Complete ())
      | Err error \<Rightarrow> (d, buffer, DecodeFailed (RsStatusCode error)))"

definition rs_decode_version :: "'m response_decoder \<Rightarrow> bytes \<Rightarrow> 'm response_step" where
  "rs_decode_version d buffer =
     (if length buffer < 9 then (d, buffer, Incomplete)
      else if buffer ! 8 \<noteq> SP then (d, buffer, DecodeFailed (RsVersion VersionInvalid))
      else case version_try_decode (take 8 buffer) of
        Ok version \<Rightarrow>
          (if version = Rtsp2_0 then
             (d\<lparr>rsd_builder := response_set_version version (rsd_builder d),
                rsd_state := RsStStatusCode\<rparr>,
              drop 9 buffer, Complete ())
           else (d, buffer, DecodeFailed RsUnsupportedVersion))
      | Err error \<Rightarrow> (d, buffer, DecodeFailed (RsVersion error)))"

text \<open>The \<open>match\<close> on the state, for the states that decode.\<close>

definition rs_step ::
  "'m header_map_ops \<Rightarrow> 'm response_decoder \<Rightarrow> bytes \<Rightarrow> 'm response_step option"
where
  "rs_step M d buffer =
     (case rsd_state d of
        RsStHeader \<Rightarrow> Some (rs_decode_header M d buffer)
      | RsStStatusCode \<Rightarrow> Some (rs_decode_status_code d buffer)
      | RsStReasonPhrase \<Rightarrow> Some (rs_decode_reason_phrase d buffer)
      | RsStVersion \<Rightarrow> Some (rs_decode_version d buffer)
      | RsStBody \<Rightarrow> Some (rs_decode_body d buffer)
      | RsStEnd \<Rightarrow> None
      | RsStError e \<Rightarrow> None)"

definition rs_weight :: "'m response_decoder \<Rightarrow> nat" where
  "rs_weight d = (if rsd_state d = RsStEnd then 0 else 1)"

definition rs_running :: "'m response_decoder \<Rightarrow> bool" where
  "rs_running d \<longleftrightarrow> (case rsd_state d of RsStEnd \<Rightarrow> False | RsStError _ \<Rightarrow> False | _ \<Rightarrow> True)"

subsection \<open>What the steps do\<close>

lemma rs_header_name_scan:
  "rs_decode_header_name c b =
     decode_result_map_error (\<lambda>_. RsHeaderNameTooLong) (scan_header_name (rsc_header_name_max_length c) b)"
  by (auto simp: rs_decode_header_name_def scan_header_name_def decode_result_map_error_def Let_def
      split: option.splits)

lemma rs_header_value_loop_find:
  "rs_header_value_loop b (filter (eol_at b) is) =
     map_option (\<lambda>i. if i + 2 < length b then Complete (take i b) else Incomplete)
       (find (line_end b) is)"
  by (induction "is") (auto simp: line_end_def fold_at_def is_blank_def)

lemma rs_header_value_scan:
  "rs_decode_header_value c b =
     decode_result_map_error (\<lambda>_. RsHeaderValueTooLong) (scan_header_value (rsc_header_value_max_length c) b)"
  by (auto simp: rs_decode_header_value_def scan_header_value_def eol_indices_eq rs_header_value_loop_find
      first_index_def decode_result_map_error_def Let_def simp del: upt_Suc split: option.splits)

lemmas rs_scans = rs_header_name_scan rs_header_value_scan

text \<open>One lemma per decoding function.\<close>

lemma eol_indices_stable:
  assumes "position (\<lambda>w. w = (CR, LF)) (take m (windows2 b)) = Some i"
  shows "i + 1 < length b" "i < m" "position (\<lambda>w. w = (CR, LF)) (take m (windows2 (b @ x))) = Some i"
  using position_less [OF assms] eol_indices_extend [OF assms] by auto

lemma rs_decode_reason_phrase_well: "well_step (\<lambda>b. Some (rs_decode_reason_phrase d b)) d"
proof (rule well_stepI; clarsimp)
  fix b s' b'
  assume "rs_decode_reason_phrase d b = (s', b', Complete ())"
  then obtain i r where
    pos: "position (\<lambda>w. w = (CR, LF)) (take (rsc_reason_phrase_max_length (rsd_config d) + 2) (windows2 b)) = Some i"
    and "reason_try_from (take i b) = Ok r" "b' = drop (i + 2) b"
    "s' = d\<lparr>rsd_builder := response_set_reason_phrase (Some r) (rsd_builder d), rsd_state := RsStHeader\<rparr>"
    by (auto simp: rs_decode_reason_phrase_def Let_def split: option.splits sum.splits if_splits)
  moreover note eol_indices_stable [OF pos]
  ultimately show "(\<exists>p. b = p @ b') \<and> (\<forall>x. rs_decode_reason_phrase d (b @ x) = (s', b' @ x, Complete ()))"
    using drop_suffix [of b] by (simp add: rs_decode_reason_phrase_def Let_def)
qed (auto simp: rs_decode_reason_phrase_def Let_def split: option.splits sum.splits if_splits)

lemma rs_decode_status_code_well: "well_step (\<lambda>b. Some (rs_decode_status_code d b)) d"
proof (rule well_stepI; clarsimp)
  fix b s' b'
  assume "rs_decode_status_code d b = (s', b', Complete ())"
  then show "(\<exists>p. b = p @ b') \<and> (\<forall>x. rs_decode_status_code d (b @ x) = (s', b' @ x, Complete ()))"
    using drop_suffix
    by (auto simp: rs_decode_status_code_def nth_append split: sum.splits if_splits)
qed (auto simp: rs_decode_status_code_def split: sum.splits if_splits)

lemma rs_decode_version_well: "well_step (\<lambda>b. Some (rs_decode_version d b)) d"
proof (rule well_stepI; clarsimp)
  fix b s' b'
  assume "rs_decode_version d b = (s', b', Complete ())"
  then show "(\<exists>p. b = p @ b') \<and> (\<forall>x. rs_decode_version d (b @ x) = (s', b' @ x, Complete ()))"
    using drop_suffix
    by (auto simp: rs_decode_version_def nth_append split: sum.splits if_splits)
qed (auto simp: rs_decode_version_def split: sum.splits if_splits)

lemma rs_decode_body_well: "well_step (\<lambda>b. Some (rs_decode_body d b)) d"
proof (rule well_stepI; clarsimp)
  fix b s' b'
  assume "rs_decode_body d b = (s', b', Complete ())"
  then show "(\<exists>p. b = p @ b') \<and> (\<forall>x. rs_decode_body d (b @ x) = (s', b' @ x, Complete ()))"
    using drop_suffix
    by (auto simp: rs_decode_body_def Let_def split: if_splits)
qed (auto simp: rs_decode_body_def Let_def split: if_splits)

text \<open>The two ways a header step completes: one header taken, or the end of the headers.\<close>

lemma rs_decode_header_Complete:
  fixes d :: "'m response_decoder"
  assumes "rs_decode_header M d b = (d', b', Complete ())"
  obtains (header) h v name val where
      "scan_header_name (rsc_header_name_max_length (rsd_config d)) b = Complete (Some h)"
      "map_values_len M (rsb_headers (rsd_builder d)) < rsc_header_max_count (rsd_config d)"
      "scan_header_value (rsc_header_value_max_length (rsd_config d)) (drop (length h + 1) b) = Complete v"
      "header_try_from (trim_header_name h) = Ok name"
      "value_try_from (trim_header_value v) = Ok val"
      "d' = d\<lparr>rsd_builder := response_header M name val (rsd_builder d)\<rparr>"
      "b' = drop (length v + 2) (drop (length h + 1) b)"
  | (finish) c where
      "scan_header_name (rsc_header_name_max_length (rsd_config d)) b = Complete None"
      "c = content_length_default
         \<and> typed_try_get M content_length_header_name content_length_decode (rsb_headers (rsd_builder d))
             = Ok None
       \<or> typed_try_get M content_length_header_name content_length_decode (rsb_headers (rsd_builder d))
             = Ok (Some c)
         \<and> content_length_value c \<le> rsc_body_max_length (rsd_config d)"
      "d' = d\<lparr>rsd_state := RsStBody, rsd_content_length := c\<rparr>" "b' = drop 2 b"
proof (cases "scan_header_name (rsc_header_name_max_length (rsd_config d)) b")
  case (Complete r)
  show thesis
  proof (cases r)
    case None
    with Complete assms show thesis
      by (intro finish [of "rsd_content_length d'"])
         (auto simp: rs_decode_header_def rs_scans decode_result_map_error_def Let_def
           split: sum.splits option.splits if_splits)
  next
    case (Some h)
    with Complete assms obtain v name val where
        "map_values_len M (rsb_headers (rsd_builder d)) < rsc_header_max_count (rsd_config d)"
        "scan_header_value (rsc_header_value_max_length (rsd_config d)) (drop (length h + 1) b) = Complete v"
        "header_try_from (trim_header_name h) = Ok name"
        "value_try_from (trim_header_value v) = Ok val"
        "d' = d\<lparr>rsd_builder := response_header M name val (rsd_builder d)\<rparr>"
        "b' = drop (length v + 2) (drop (length h + 1) b)"
      by (auto simp: rs_decode_header_def rs_scans decode_result_map_error_def Let_def
          split: sum.splits if_splits DecodeResult.splits)
    with Complete Some show thesis by (intro header) simp_all
  qed
qed (use assms in \<open>simp_all add: rs_decode_header_def rs_scans decode_result_map_error_def\<close>)

lemma rs_decode_header_well:
  fixes d :: "'m response_decoder"
  shows "well_step (\<lambda>b. Some (rs_decode_header M d b)) d"
proof (rule well_stepI; clarsimp)
  fix b s' b'
  assume "rs_decode_header M d b = (s', b', Complete ())"
  then show "(\<exists>p. b = p @ b') \<and> (\<forall>x. rs_decode_header M d (b @ x) = (s', b' @ x, Complete ()))"
  proof (cases rule: rs_decode_header_Complete)
    case (header h v name val)
    note hn = scan_header_name_Complete [OF header(1)] and hv = scan_header_value_Complete [OF header(3)]
    have "drop (length h + 1) (b @ x) = drop (length h + 1) b @ x" for x using hn(1) by simp
    moreover have "drop (length v + 2) (drop (length h + 1) b @ x) = b' @ x" for x
      using header(7) hv(1) by simp
    ultimately show ?thesis
      using header hn(5) hv(5) drop_suffix [of b "length v + 2 + (length h + 1)"]
      by (simp add: rs_decode_header_def rs_scans decode_result_map_error_def Let_def del: drop_append)
  next
    case (finish c)
    note he = scan_header_name_end [OF finish(1)]
    then have "drop 2 (b @ x) = drop 2 b @ x" for x using starts_with_length [OF he(1)] by simp
    then show ?thesis
      using finish(2-4) he(2) drop_suffix [of b 2]
      by (auto simp: rs_decode_header_def rs_scans decode_result_map_error_def Let_def simp del: drop_append)
  qed
next
  fix b s' b' e
  assume "rs_decode_header M d b = (s', b', DecodeFailed e)"
  then show "\<exists>p. b = p @ b'"
    using drop_suffix [of b 2]
    by (auto simp: rs_decode_header_def Let_def
        split: DecodeResult.splits option.splits sum.splits if_splits)
next
  fix b s' b'
  assume "rs_decode_header M d b = (s', b', Incomplete)"
  then show "s' = d \<and> b' = b"
    by (auto simp: rs_decode_header_def Let_def
        split: DecodeResult.splits option.splits sum.splits if_splits)
qed

lemma rs_step_eq:
  "rsd_state d = RsStStatusCode \<Longrightarrow> rs_step M d = (\<lambda>b. Some (rs_decode_status_code d b))"
  "rsd_state d = RsStReasonPhrase \<Longrightarrow> rs_step M d = (\<lambda>b. Some (rs_decode_reason_phrase d b))"
  "rsd_state d = RsStVersion \<Longrightarrow> rs_step M d = (\<lambda>b. Some (rs_decode_version d b))"
  "rsd_state d = RsStHeader \<Longrightarrow> rs_step M d = (\<lambda>b. Some (rs_decode_header M d b))"
  "rsd_state d = RsStBody \<Longrightarrow> rs_step M d = (\<lambda>b. Some (rs_decode_body d b))"
  "rsd_state d = RsStEnd \<Longrightarrow> rs_step M d = (\<lambda>b. None)"
  "rsd_state d = RsStError e \<Longrightarrow> rs_step M d = (\<lambda>b. None)"
  by (simp_all add: rs_step_def fun_eq_iff)

lemma rs_step_well: "well_step (rs_step M d) d"
  by (cases "rsd_state d")
     (simp_all add: rs_step_eq rs_decode_status_code_well rs_decode_reason_phrase_well rs_decode_version_well
      rs_decode_body_well rs_decode_header_well well_step_def [of "\<lambda>_. None"])

text \<open>What each state moves to.\<close>

lemma rs_step_Complete:
  assumes "rs_step M d b = Some (d', b', Complete u)"
  shows "rsd_config d' = rsd_config d"
    "(rsd_state d, rsd_state d') \<in> {(RsStVersion, RsStStatusCode), (RsStStatusCode, RsStReasonPhrase),
       (RsStReasonPhrase, RsStHeader), (RsStHeader, RsStHeader), (RsStHeader, RsStBody), (RsStBody, RsStEnd)}"
    "rsd_state d \<noteq> RsStBody \<Longrightarrow> length b' < length b"
proof -
  have "rsd_config d' = rsd_config d \<and> (rsd_state d, rsd_state d') \<in> {(RsStVersion, RsStStatusCode),
       (RsStStatusCode, RsStReasonPhrase), (RsStReasonPhrase, RsStHeader), (RsStHeader, RsStHeader),
       (RsStHeader, RsStBody), (RsStBody, RsStEnd)}
     \<and> (rsd_state d \<noteq> RsStBody \<longrightarrow> length b' < length b)"
  proof (cases "rsd_state d")
    case RsStHeader
    with assms have "rs_decode_header M d b = (d', b', Complete ())" by (simp add: rs_step_eq)
    then show ?thesis
    proof (cases rule: rs_decode_header_Complete)
      case (header h v name val)
      have "length h < length b" by (rule scan_header_name_Complete [OF header(1)])
      with header RsStHeader show ?thesis by simp
    next
      case (finish c)
      have "2 \<le> length b" using starts_with_length [OF scan_header_name_end(1) [OF finish(1)]] by simp
      with finish RsStHeader show ?thesis by auto
    qed
  qed (use assms in \<open>auto simp: rs_step_eq rs_decode_status_code_def rs_decode_reason_phrase_def rs_decode_version_def
      rs_decode_body_def Let_def dest!: position_less split: option.splits sum.splits if_splits\<close>)
  then show "rsd_config d' = rsd_config d"
    "(rsd_state d, rsd_state d') \<in> {(RsStVersion, RsStStatusCode), (RsStStatusCode, RsStReasonPhrase),
       (RsStReasonPhrase, RsStHeader), (RsStHeader, RsStHeader), (RsStHeader, RsStBody), (RsStBody, RsStEnd)}"
    "rsd_state d \<noteq> RsStBody \<Longrightarrow> length b' < length b" by blast+
qed

lemma rs_step_progress:
  assumes "rs_step M d b = Some (d', b', Complete u)"
  shows "2 * length b' + rs_weight d' < 2 * length b + rs_weight d"
proof -
  have "length b' \<le> length b"
    using well_stepD(1) [OF rs_step_well assms] by auto
  with rs_step_Complete [OF assms] show ?thesis
    by (auto simp: rs_weight_def)
qed

subsection \<open>The loop\<close>

text \<open>
  \<open>decode\<close>: the loop keeps the size of the whole buffer, from which it computes the number of
  bytes it reports. At the end the builder is replaced and built; the \<open>expect\<close> is \<^const>\<open>None\<close>.
\<close>

function rs_loop ::
  "'m header_map_ops \<Rightarrow> nat \<Rightarrow> 'm response_decoder \<Rightarrow> bytes
     \<Rightarrow> ('m response_decoder
         \<times> ((bytes, 'm) Response, response_decode_error) DecodeResult \<times> nat) option"
where
  "rs_loop M buffer_size d buffer =
     (case rsd_state d of
        RsStEnd \<Rightarrow>
          (let difference = buffer_size - length buffer;
               builder = rsd_builder d
           in case response_build builder of
                Some (Ok response) \<Rightarrow>
                  Some (d\<lparr>rsd_builder := response_builder_new M, rsd_state := RsStVersion\<rparr>,
                        Complete response, difference)
              | _ \<Rightarrow> None)
      | RsStError error \<Rightarrow> Some (d, DecodeFailed error, 0)
      | _ \<Rightarrow>
          (case rs_step M d buffer of
             None \<Rightarrow> None
           | Some (d', buffer', Complete _) \<Rightarrow> rs_loop M buffer_size d' buffer'
           | Some (d', buffer', DecodeFailed error) \<Rightarrow>
               Some (d'\<lparr>rsd_state := RsStError error\<rparr>, DecodeFailed error,
                     buffer_size - length buffer')
           | Some (d', buffer', Incomplete) \<Rightarrow> Some (d', Incomplete, buffer_size - length buffer')))"
  by pat_completeness auto
termination
  by (relation "measure (\<lambda>(M, n, d, b). 2 * length b + rs_weight d)")
     (auto dest: rs_step_progress)

declare rs_loop.simps [simp del]

definition response_decode ::
  "'m header_map_ops \<Rightarrow> 'm response_decoder \<Rightarrow> bytes
     \<Rightarrow> ('m response_decoder
         \<times> ((bytes, 'm) Response, response_decode_error) DecodeResult \<times> nat) option"
where
  "response_decode M d buffer = rs_loop M (length buffer) d buffer"

subsection \<open>The contract\<close>

definition rs_stop ::
  "'m header_map_ops \<Rightarrow> 'm response_decoder
     \<Rightarrow> ('m response_decoder \<times> ((bytes, 'm) Response, response_decode_error) DecodeResult) option"
where
  "rs_stop M d =
     (case rsd_state d of
        RsStEnd \<Rightarrow>
          (case response_build (rsd_builder d) of
             Some (Ok response) \<Rightarrow>
               Some (d\<lparr>rsd_builder := response_builder_new M, rsd_state := RsStVersion\<rparr>, Complete response)
           | _ \<Rightarrow> None)
      | RsStError error \<Rightarrow> Some (d, DecodeFailed error)
      | _ \<Rightarrow> None)"

definition rs_fail :: "response_decode_error \<Rightarrow> 'm response_decoder \<Rightarrow> 'm response_decoder" where
  "rs_fail error d = d\<lparr>rsd_state := RsStError error\<rparr>"

lemma rs_loop_running:
  "rs_running d \<Longrightarrow> rs_loop M sz d b =
     (case rs_step M d b of
        None \<Rightarrow> None
      | Some (d', b', r) \<Rightarrow>
          (case r of
             Complete _ \<Rightarrow> rs_loop M sz d' b'
           | DecodeFailed e \<Rightarrow> Some (rs_fail e d', DecodeFailed e, sz - length b')
           | Incomplete \<Rightarrow> Some (d', Incomplete, sz - length b')))"
  by (subst rs_loop.simps)
     (auto simp: rs_running_def rs_fail_def
       split: response_decode_state.splits option.splits prod.splits DecodeResult.splits)

lemma rs_loop_stopped:
  "\<not> rs_running d \<Longrightarrow> rs_loop M sz d b =
     map_option (\<lambda>(t, q). (t, q, if is_complete q then sz - length b else 0)) (rs_stop M d)"
  by (subst rs_loop.simps)
     (auto simp: rs_running_def rs_stop_def is_complete_def Let_def
       split: response_decode_state.splits sum.splits option.splits)

interpretation rs: incremental_decoder "rs_step M" rs_running "rs_stop M" rs_fail rs_weight "rs_loop M"
  for M :: "'m header_map_ops"
proof unfold_locales
  fix d b d' b' and u :: unit and x
  assume st: "rs_step M d b = Some (d', b', Complete u)"
  show "rs_step M d (b @ x) = Some (d', b' @ x, Complete u)"
    by (rule well_stepD(3) [OF rs_step_well st refl])
  show "2 * length b' + rs_weight d' < 2 * length b + rs_weight d"
    by (rule rs_step_progress [OF st])
  show "rs_running d' \<or> (\<forall>t q. rs_stop M d' = Some (t, q) \<longrightarrow> is_complete q)"
    using rs_step_Complete(2) [OF st]
    by (auto simp: rs_running_def rs_stop_def is_complete_def split: sum.splits option.splits)
next
  fix d b d' b' r
  assume st: "rs_step M d b = Some (d', b', r)"
  show "\<exists>p. b = p @ b'" by (rule well_stepD(1) [OF rs_step_well st])
next
  fix d b d' b'
  assume st: "rs_step M d b = Some (d', b', Incomplete)"
  show "d' = d \<and> b' = b" by (rule well_stepD(2) [OF rs_step_well st refl])
next
  fix d t q
  assume "rs_stop M d = Some (t, q)"
  then show "q \<noteq> Incomplete"
    by (auto simp: rs_stop_def split: response_decode_state.splits sum.splits option.splits)
qed (simp_all add: rs_loop_running rs_loop_stopped)

subsection \<open>The invariant\<close>

text \<open>
  What a decoder has collected in each state: exactly the parts of the states before, each within
  the limits of the configuration. A decoder that waits for a version holds a fresh builder.
\<close>

definition rs_headers_inv :: "'m header_map_ops \<Rightarrow> response_config \<Rightarrow> 'm \<Rightarrow> bool" where
  "rs_headers_inv M c m \<longleftrightarrow>
     map_values_len M m \<le> rsc_header_max_count c
     \<and> (\<forall>(h, v) \<in> set (map_iter M m). value_valid v \<and> value_len v \<le> rsc_header_value_max_length c)"

definition rs_phrase_inv :: "response_config \<Rightarrow> ReasonPhrase option \<Rightarrow> bool" where
  "rs_phrase_inv c p \<longleftrightarrow>
     (\<exists>r. p = Some r \<and> reason_valid r \<and> length (reason_as_str r) \<le> rsc_reason_phrase_max_length c + 1)"

definition rs_inv :: "'m header_map_ops \<Rightarrow> 'm response_decoder \<Rightarrow> bool" where
  "rs_inv M d \<longleftrightarrow>
     (let b = rsd_builder d; c = rsd_config d in
      case rsd_state d of
        RsStVersion \<Rightarrow> b = response_builder_new M
      | RsStStatusCode \<Rightarrow> rsb_version b = Rtsp2_0 \<and> rsb_headers b = map_default M
      | RsStReasonPhrase \<Rightarrow>
          rsb_version b = Rtsp2_0 \<and> rsb_headers b = map_default M \<and> status_valid (rsb_status_code b)
      | RsStHeader \<Rightarrow>
          rsb_version b = Rtsp2_0 \<and> status_valid (rsb_status_code b)
          \<and> rs_phrase_inv c (rsb_custom_reason_phrase b) \<and> rs_headers_inv M c (rsb_headers b)
      | RsStBody \<Rightarrow>
          rsb_version b = Rtsp2_0 \<and> status_valid (rsb_status_code b)
          \<and> rs_phrase_inv c (rsb_custom_reason_phrase b) \<and> rs_headers_inv M c (rsb_headers b)
          \<and> content_length_value (rsd_content_length d) \<le> rsc_body_max_length c
      | RsStEnd \<Rightarrow>
          rsb_version b = Rtsp2_0 \<and> status_valid (rsb_status_code b)
          \<and> rs_phrase_inv c (rsb_custom_reason_phrase b) \<and> rs_headers_inv M c (rsb_headers b)
          \<and> (\<exists>body. rsb_body b = Some body \<and> length body \<le> rsc_body_max_length c)
      | RsStError _ \<Rightarrow> True)"

lemma rs_inv_new: "rs_inv M (response_decoder_with_config M c)"
  by (simp add: rs_inv_def response_decoder_with_config_def)

lemma rs_inv_reset: "rs_inv M (response_decoder_reset M d)"
  by (simp add: rs_inv_def response_decoder_reset_def)

lemma rs_headers_inv_default:
  "header_map_laws M \<Longrightarrow> rs_headers_inv M c (map_default M)"
  by (simp add: rs_headers_inv_def header_map_lawsD)

lemma rs_headers_inv_append:
  assumes "header_map_laws M" "rs_headers_inv M c m" "map_values_len M m < rsc_header_max_count c"
    "value_valid v" "value_len v \<le> rsc_header_value_max_length c"
  shows "rs_headers_inv M c (map_append M m h v)"
  using assms(2-) by (auto simp: rs_headers_inv_def header_map_lawsD [OF assms(1)])

lemma rs_step_inv:
  assumes laws: "header_map_laws M" and inv: "rs_inv M d"
    and st: "rs_step M d b = Some (d', b', Complete u)"
  shows "rs_inv M d'"
proof (cases "rsd_state d")
  case RsStVersion
  with inv st show ?thesis
    by (auto simp: rs_step_eq rs_decode_version_def rs_inv_def response_set_version_def
        response_builder_new_def Let_def split: sum.splits if_splits)
next
  case RsStStatusCode
  with inv st show ?thesis
    by (auto simp: rs_step_eq rs_decode_status_code_def rs_inv_def response_set_status_code_def Let_def
        dest: status_try_from_Ok split: sum.splits if_splits)
next
  case RsStReasonPhrase
  with st obtain i r where
    pos: "position (\<lambda>w. w = (CR, LF)) (take (rsc_reason_phrase_max_length (rsd_config d) + 2) (windows2 b)) = Some i"
    and r: "reason_try_from (take i b) = Ok r"
    and d': "d' = d\<lparr>rsd_builder := response_set_reason_phrase (Some r) (rsd_builder d), rsd_state := RsStHeader\<rparr>"
    by (auto simp: rs_step_eq rs_decode_reason_phrase_def Let_def split: option.splits sum.splits if_splits)
  have "reason_valid r" "length (reason_as_str r) \<le> rsc_reason_phrase_max_length (rsd_config d) + 1"
    using r eol_indices_stable [OF pos] by (auto simp: reason_try_from_Ok)
  with inv d' RsStReasonPhrase rs_headers_inv_default [OF laws] show ?thesis
    by (simp add: rs_inv_def rs_phrase_inv_def response_set_reason_phrase_def Let_def)
next
  case RsStBody
  with inv st show ?thesis
    by (auto simp: rs_step_eq rs_decode_body_def rs_inv_def response_set_body_def Let_def split: if_splits)
next
  case RsStHeader
  with st have "rs_decode_header M d b = (d', b', Complete ())" by (simp add: rs_step_eq)
  then show ?thesis
  proof (cases rule: rs_decode_header_Complete)
    case (header h v name val)
    have "value_valid val" "value_len val \<le> rsc_header_value_max_length (rsd_config d)"
      using header(5) length_trim_header_value [of v] scan_header_value_Complete(2) [OF header(3)]
      by (auto simp: value_try_from_Ok value_len_def)
    with header inv RsStHeader rs_headers_inv_append [OF laws] show ?thesis
      by (simp add: rs_inv_def response_header_def Let_def)
  next
    case (finish c)
    with inv RsStHeader show ?thesis
      by (auto simp: rs_inv_def content_length_default_def Let_def)
  qed
qed (use st in \<open>simp_all add: rs_step_eq\<close>)

text \<open>What a decoded response satisfies.\<close>

definition response_within ::
  "'m header_map_ops \<Rightarrow> response_config \<Rightarrow> (bytes, 'm) Response \<Rightarrow> bool" where
  "response_within M c r \<longleftrightarrow>
     status_valid (resp_status_code r) \<and> resp_version r = Rtsp2_0
     \<and> rs_headers_inv M c (resp_headers r) \<and> length (resp_body r) \<le> rsc_body_max_length c
     \<and> (if is_status_extension (resp_status_code r)
        then rs_phrase_inv c (Some (resp_reason_phrase r))
        else canonical_reason (resp_status_code r) = Some (resp_reason_phrase r))"

lemma rs_inv_end:
  assumes "rs_inv M d" "rsd_state d = RsStEnd"
  shows "\<exists>r. response_build (rsd_builder d) = Some (Ok r) \<and> response_within M (rsd_config d) r"
proof -
  let ?b = "rsd_builder d"
  from assms obtain p body where parts: "rsb_custom_reason_phrase ?b = Some p"
      "rsb_body ?b = Some body" "rsb_version ?b = Rtsp2_0"
    and ok: "status_valid (rsb_status_code ?b)" "rs_phrase_inv (rsd_config d) (Some p)"
      "rs_headers_inv M (rsd_config d) (rsb_headers ?b)"
      "length body \<le> rsc_body_max_length (rsd_config d)"
    by (auto simp: rs_inv_def rs_phrase_inv_def Let_def)
  obtain q where q: "built_phrase (rsb_status_code ?b) (Some p) = Some q"
    using canonical_phrase_standard by (force simp: built_phrase_def canonical_reason_def)
  with parts have "response_build ?b = Some (Ok \<lparr>resp_body = body, resp_reason_phrase = q,
      resp_headers = rsb_headers ?b, resp_status_code = rsb_status_code ?b, resp_version = Rtsp2_0\<rparr>)"
    by (simp add: response_build_eq)
  with ok q show ?thesis by (auto simp: response_within_def built_phrase_def split: if_splits)
qed

lemma rs_step_config:
  "rs_step M d b = Some (d', b', r) \<Longrightarrow> rsd_config d' = rsd_config d"
proof (cases r)
  case (Complete u)
  then show "rs_step M d b = Some (d', b', r) \<Longrightarrow> ?thesis" using rs_step_Complete(1) by blast
next
  case (DecodeFailed e)
  then show "rs_step M d b = Some (d', b', r) \<Longrightarrow> ?thesis"
    by (cases "rsd_state d")
       (auto simp: rs_step_eq rs_decode_status_code_def rs_decode_reason_phrase_def rs_decode_version_def
          rs_decode_body_def rs_decode_header_def Let_def
         split: option.splits sum.splits if_splits DecodeResult.splits)
next
  case Incomplete
  then show "rs_step M d b = Some (d', b', r) \<Longrightarrow> ?thesis"
    using well_stepD(2) [OF rs_step_well] by metis
qed

lemma rs_loop_inv:
  assumes laws: "header_map_laws M"
  shows "rs_inv M d \<Longrightarrow> rs_loop M sz d b = Some (d', r, n) \<Longrightarrow>
    rs_inv M d' \<and> rsd_config d' = rsd_config d
    \<and> (\<forall>req. r = Complete req \<longrightarrow> rsd_state d' = RsStVersion \<and> response_within M (rsd_config d) req)"
proof (induction d b rule: rs.run_induct [where M = M])
  case (run d b)
  show ?case
  proof (cases "rs_running d")
    case False
    then show ?thesis
      using run.prems rs_inv_end [OF run.prems(1)]
      by (auto simp: rs_loop_stopped rs_stop_def rs_running_def rs_inv_def
          split: response_decode_state.splits sum.splits option.splits)
  next
    case True
    with run.prems(2) obtain d1 b1 r1 where st: "rs_step M d b = Some (d1, b1, r1)"
      by (auto simp: rs_loop_running split: option.splits)
    note c = rs_step_config [OF st]
    show ?thesis
    proof (cases r1)
      case (Complete u)
      with st have st': "rs_step M d b = Some (d1, b1, Complete u)" by simp
      have "rs_loop M sz d1 b1 = Some (d', r, n)"
        using run.prems(2) True st' by (simp add: rs_loop_running)
      with run.IH [OF True st' rs_step_inv [OF laws run.prems(1) st']] c show ?thesis by simp
    next
      case (DecodeFailed e)
      with run.prems(2) True st c show ?thesis
        by (auto simp: rs_loop_running rs_fail_def rs_inv_def)
    next
      case Incomplete
      with st have "d1 = d" using well_stepD(2) [OF rs_step_well] by blast
      with Incomplete run.prems True st show ?thesis by (auto simp: rs_loop_running)
    qed
  qed
qed

lemma rs_step_total:
  assumes "rs_running d"
  shows "rs_step M d b \<noteq> None"
  using assms
  by (cases "rsd_state d")
     (auto simp: rs_step_eq rs_running_def)

lemma rs_loop_total:
  assumes laws: "header_map_laws M"
  shows "rs_inv M d \<Longrightarrow> rs_loop M sz d b \<noteq> None"
proof (induction d b rule: rs.run_induct [where M = M])
  case (run d b)
  show ?case
  proof (cases "rs_running d")
    case False
    then show ?thesis
      using rs_inv_end [OF run.prems]
      by (auto simp: rs_loop_stopped rs_stop_def rs_running_def split: response_decode_state.splits)
  next
    case True
    then obtain d1 b1 r1 where st: "rs_step M d b = Some (d1, b1, r1)"
      using rs_step_total [OF True] by fastforce
    show ?thesis
    proof (cases r1)
      case (Complete u)
      with st have st': "rs_step M d b = Some (d1, b1, Complete u)" by simp
      from run.IH [OF True st' rs_step_inv [OF laws run.prems st']] True st' show ?thesis
        by (simp add: rs_loop_running)
    qed (use True st in \<open>simp_all add: rs_loop_running\<close>)
  qed
qed

subsection \<open>Properties\<close>

text \<open>What holds after any number of runs on pieces of the input.\<close>

lemma rs_feed_inv:
  assumes laws: "header_map_laws M"
  shows "rs_inv M d \<Longrightarrow> \<exists>d' r left. feed (rs_loop M) d rest cs = Some (d', r, left)
    \<and> rs_inv M d' \<and> (\<forall>q. r = Complete q \<longrightarrow> response_within M (rsd_config d) q)"
proof (induction cs arbitrary: d rest)
  case (Cons c cs)
  let ?b = "rest @ c"
  obtain d' r n where run: "rs_loop M (length ?b) d ?b = Some (d', r, n)"
    using rs_loop_total [OF laws Cons.prems] by (metis not_None_eq prod_cases3)
  note inv = rs_loop_inv [OF laws Cons.prems run]
  show ?case
  proof (cases r)
    case Incomplete
    have "rs_inv M d'" using inv by blast
    from Cons.IH [OF this, of "drop n ?b"] show ?thesis using run Incomplete inv by simp
  qed (use run inv in simp_all)
qed simp



end
