(* ===== verification/DecoderConfig.thy ===== *)
theory DecoderConfig
  imports RequestDecoder ResponseDecoder
begin

text \<open>
  The builders of the decoders' limits: \<open>ConfigBuilder\<close> of
  \<^verbatim>\<open>rtsp-2/src/protocol/codec/decoder/request.rs\<close> and of
  \<^verbatim>\<open>rtsp-2/src/protocol/codec/decoder/response.rs\<close>. The functions \<open>with_*\<close> are the setters on an
  owned builder.
\<close>

subsection \<open>Requests\<close>

record request_config_builder =
  rql_body_max_length :: nat
  rql_header_max_count :: nat
  rql_header_name_max_length :: nat
  rql_header_value_max_length :: nat
  rql_method_max_length :: nat
  rql_uri_max_length :: nat

definition request_config_builder_new :: request_config_builder where
  "request_config_builder_new =
     \<lparr>rql_body_max_length = BODY_DEFAULT_MAX_LENGTH,
      rql_header_max_count = HEADER_DEFAULT_MAX_COUNT,
      rql_header_name_max_length = HEADER_NAME_DEFAULT_MAX_LENGTH,
      rql_header_value_max_length = HEADER_VALUE_DEFAULT_MAX_LENGTH,
      rql_method_max_length = METHOD_DEFAULT_MAX_LENGTH,
      rql_uri_max_length = URI_DEFAULT_MAX_LENGTH\<rparr>"

definition request_set_body_max_length :: "nat \<Rightarrow> request_config_builder \<Rightarrow> request_config_builder" where
  "request_set_body_max_length limit b = b\<lparr>rql_body_max_length := limit\<rparr>"

definition request_set_header_max_count :: "nat \<Rightarrow> request_config_builder \<Rightarrow> request_config_builder" where
  "request_set_header_max_count limit b = b\<lparr>rql_header_max_count := limit\<rparr>"

definition request_set_header_name_max_length :: "nat \<Rightarrow> request_config_builder \<Rightarrow> request_config_builder" where
  "request_set_header_name_max_length limit b = b\<lparr>rql_header_name_max_length := limit\<rparr>"

definition request_set_header_value_max_length :: "nat \<Rightarrow> request_config_builder \<Rightarrow> request_config_builder" where
  "request_set_header_value_max_length limit b = b\<lparr>rql_header_value_max_length := limit\<rparr>"

definition request_set_method_max_length :: "nat \<Rightarrow> request_config_builder \<Rightarrow> request_config_builder" where
  "request_set_method_max_length limit b = b\<lparr>rql_method_max_length := limit\<rparr>"

definition request_set_uri_max_length :: "nat \<Rightarrow> request_config_builder \<Rightarrow> request_config_builder" where
  "request_set_uri_max_length limit b = b\<lparr>rql_uri_max_length := limit\<rparr>"

definition request_config_build :: "request_config_builder \<Rightarrow> request_config" where
  "request_config_build b =
     \<lparr>rqc_body_max_length = rql_body_max_length b,
      rqc_header_max_count = rql_header_max_count b,
      rqc_header_name_max_length = rql_header_name_max_length b,
      rqc_header_value_max_length = rql_header_value_max_length b,
      rqc_method_max_length = rql_method_max_length b,
      rqc_uri_max_length = rql_uri_max_length b\<rparr>"

lemmas request_setters = request_set_body_max_length_def
  request_set_header_max_count_def
  request_set_header_name_max_length_def
  request_set_header_value_max_length_def
  request_set_method_max_length_def
  request_set_uri_max_length_def

subsection \<open>Responses\<close>

record response_config_builder =
  rsl_body_max_length :: nat
  rsl_header_max_count :: nat
  rsl_header_name_max_length :: nat
  rsl_header_value_max_length :: nat
  rsl_reason_phrase_max_length :: nat

definition response_config_builder_new :: response_config_builder where
  "response_config_builder_new =
     \<lparr>rsl_body_max_length = BODY_DEFAULT_MAX_LENGTH,
      rsl_header_max_count = HEADER_DEFAULT_MAX_COUNT,
      rsl_header_name_max_length = HEADER_NAME_DEFAULT_MAX_LENGTH,
      rsl_header_value_max_length = HEADER_VALUE_DEFAULT_MAX_LENGTH,
      rsl_reason_phrase_max_length = REASON_PHRASE_DEFAULT_MAX_LENGTH\<rparr>"

definition response_set_body_max_length :: "nat \<Rightarrow> response_config_builder \<Rightarrow> response_config_builder" where
  "response_set_body_max_length limit b = b\<lparr>rsl_body_max_length := limit\<rparr>"

definition response_set_header_max_count :: "nat \<Rightarrow> response_config_builder \<Rightarrow> response_config_builder" where
  "response_set_header_max_count limit b = b\<lparr>rsl_header_max_count := limit\<rparr>"

definition response_set_header_name_max_length :: "nat \<Rightarrow> response_config_builder \<Rightarrow> response_config_builder" where
  "response_set_header_name_max_length limit b = b\<lparr>rsl_header_name_max_length := limit\<rparr>"

definition response_set_header_value_max_length :: "nat \<Rightarrow> response_config_builder \<Rightarrow> response_config_builder" where
  "response_set_header_value_max_length limit b = b\<lparr>rsl_header_value_max_length := limit\<rparr>"

definition response_set_reason_phrase_max_length :: "nat \<Rightarrow> response_config_builder \<Rightarrow> response_config_builder" where
  "response_set_reason_phrase_max_length limit b = b\<lparr>rsl_reason_phrase_max_length := limit\<rparr>"

definition response_config_build :: "response_config_builder \<Rightarrow> response_config" where
  "response_config_build b =
     \<lparr>rsc_body_max_length = rsl_body_max_length b,
      rsc_header_max_count = rsl_header_max_count b,
      rsc_header_name_max_length = rsl_header_name_max_length b,
      rsc_header_value_max_length = rsl_header_value_max_length b,
      rsc_reason_phrase_max_length = rsl_reason_phrase_max_length b\<rparr>"

lemmas response_setters = response_set_body_max_length_def
  response_set_header_max_count_def
  response_set_header_name_max_length_def
  response_set_header_value_max_length_def
  response_set_reason_phrase_max_length_def

subsection \<open>Facts\<close>

text \<open>The default limits are those of an untouched builder.\<close>

lemma config_defaults_built:
  "request_config_build request_config_builder_new = request_config_default"
  "response_config_build response_config_builder_new = response_config_default"
  by (simp_all add: request_config_build_def request_config_builder_new_def request_config_default_def
      response_config_build_def response_config_builder_new_def response_config_default_def)

text \<open>A limit that was set is the limit of what is built; the others stay.\<close>

lemma request_config_built:
  "request_config_build (request_set_body_max_length n b) = (request_config_build b)\<lparr>rqc_body_max_length := n\<rparr>"
  "request_config_build (request_set_header_max_count n b) = (request_config_build b)\<lparr>rqc_header_max_count := n\<rparr>"
  "request_config_build (request_set_header_name_max_length n b) = (request_config_build b)\<lparr>rqc_header_name_max_length := n\<rparr>"
  "request_config_build (request_set_header_value_max_length n b) = (request_config_build b)\<lparr>rqc_header_value_max_length := n\<rparr>"
  "request_config_build (request_set_method_max_length n b) = (request_config_build b)\<lparr>rqc_method_max_length := n\<rparr>"
  "request_config_build (request_set_uri_max_length n b) = (request_config_build b)\<lparr>rqc_uri_max_length := n\<rparr>"
  by (simp_all add: request_config_build_def request_setters)

lemma response_config_built:
  "response_config_build (response_set_body_max_length n b) = (response_config_build b)\<lparr>rsc_body_max_length := n\<rparr>"
  "response_config_build (response_set_header_max_count n b) = (response_config_build b)\<lparr>rsc_header_max_count := n\<rparr>"
  "response_config_build (response_set_header_name_max_length n b) = (response_config_build b)\<lparr>rsc_header_name_max_length := n\<rparr>"
  "response_config_build (response_set_header_value_max_length n b) = (response_config_build b)\<lparr>rsc_header_value_max_length := n\<rparr>"
  "response_config_build (response_set_reason_phrase_max_length n b) = (response_config_build b)\<lparr>rsc_reason_phrase_max_length := n\<rparr>"
  by (simp_all add: response_config_build_def response_setters)

end
