(* ===== verification/Futures.thy ===== *)
theory Futures
  imports Prelude
begin

text \<open>
  What the connection uses of the third-party crates \<open>futures\<close> and \<open>tokio_timer\<close>: the results
  of polling, sinks, and timers. A sink is a parameter \<open>S\<close> of the definitions that use it;
  \<open>sink_laws\<close> states its documented behaviour. Receivers, timers and single-use channels show up
  as the answers that polling them gives, which the environment chooses.
\<close>

datatype 'a Async = Ready 'a | NotReady

type_synonym ('a, 'e) Poll = "'e + 'a Async"

datatype 'a AsyncSink = SinkReady | SinkNotReady 'a

record ('c, 'a, 'e) sink_ops =
  sink_start_send :: "'c \<Rightarrow> 'a \<Rightarrow> 'c \<times> ('e + 'a AsyncSink)"
  sink_poll_complete :: "'c \<Rightarrow> 'c \<times> ('e + unit Async)"
  sink_close :: "'c \<Rightarrow> 'c \<times> ('e + unit Async)"
  sink_accepted :: "'c \<Rightarrow> 'a list"

text \<open>
  \<open>start_send\<close> accepts the item, or refuses it for now and gives it back, or fails; only an
  accepted item is added to what the sink holds, at its end. Flushing and closing add nothing.
\<close>

definition sink_laws :: "('c, 'a, 'e) sink_ops \<Rightarrow> bool" where
  "sink_laws S \<longleftrightarrow>
     (\<forall>c x c'. sink_start_send S c x = (c', Ok SinkReady) \<longrightarrow> sink_accepted S c' = sink_accepted S c @ [x])
     \<and> (\<forall>c x c' y. sink_start_send S c x = (c', Ok (SinkNotReady y)) \<longrightarrow>
          y = x \<and> sink_accepted S c' = sink_accepted S c)
     \<and> (\<forall>c x c' e. sink_start_send S c x = (c', Err e) \<longrightarrow> sink_accepted S c' = sink_accepted S c)
     \<and> (\<forall>c c' r. sink_poll_complete S c = (c', r) \<longrightarrow> sink_accepted S c' = sink_accepted S c)
     \<and> (\<forall>c c' r. sink_close S c = (c', r) \<longrightarrow> sink_accepted S c' = sink_accepted S c)"

lemma sink_lawsD:
  assumes "sink_laws S"
  shows "sink_start_send S c x = (c', Ok SinkReady) \<Longrightarrow> sink_accepted S c' = sink_accepted S c @ [x]"
    "sink_start_send S c x = (c', Ok (SinkNotReady y)) \<Longrightarrow> y = x \<and> sink_accepted S c' = sink_accepted S c"
    "sink_start_send S c x = (c', Err e) \<Longrightarrow> sink_accepted S c' = sink_accepted S c"
    "sink_poll_complete S c = (c', r) \<Longrightarrow> sink_accepted S c' = sink_accepted S c"
    "sink_close S c = (c', r') \<Longrightarrow> sink_accepted S c' = sink_accepted S c"
  using assms unfolding sink_laws_def by blast+

text \<open>A bounded list, to instantiate the parameter.\<close>

definition list_sink :: "nat \<Rightarrow> ('a list, 'a, 'e) sink_ops" where
  "list_sink capacity = \<lparr>
     sink_start_send = (\<lambda>l x. if length l < capacity then (l @ [x], Ok SinkReady) else (l, Ok (SinkNotReady x))),
     sink_poll_complete = (\<lambda>l. (l, Ok (Ready ()))),
     sink_close = (\<lambda>l. (l, Ok (Ready ()))),
     sink_accepted = (\<lambda>l. l)\<rparr>"

lemma list_sink_laws: "sink_laws (list_sink n)"
  by (simp add: sink_laws_def list_sink_def)

text \<open>
  The sending half of an unbounded channel: \<open>unbounded_send\<close> succeeds and queues the item at the
  end, or fails because the receiver is gone. A shared handle is a state \<open>'h\<close> with this operation.
\<close>

record ('h, 'a) unbounded_ops =
  chan_send :: "'h \<Rightarrow> 'a \<Rightarrow> 'h \<times> bool"
  chan_sent :: "'h \<Rightarrow> 'a list"

definition unbounded_laws :: "('h, 'a) unbounded_ops \<Rightarrow> bool" where
  "unbounded_laws H \<longleftrightarrow>
     (\<forall>h x h' b. chan_send H h x = (h', b) \<longrightarrow> chan_sent H h' = chan_sent H h @ (if b then [x] else []))"

lemma unbounded_lawsD:
  "unbounded_laws H \<Longrightarrow> chan_send H h x = (h', b) \<Longrightarrow> chan_sent H h' = chan_sent H h @ (if b then [x] else [])"
  unfolding unbounded_laws_def by blast

text \<open>A channel whose receiver never goes away.\<close>

definition never_closed :: "('h, 'a) unbounded_ops \<Rightarrow> bool" where
  "never_closed H \<longleftrightarrow> (\<forall>h x. snd (chan_send H h x))"

text \<open>A queue with a receiver that is alive for a while, to instantiate the parameter.\<close>

definition list_channel :: "(nat \<times> 'a list, 'a) unbounded_ops" where
  "list_channel = \<lparr>
     chan_send = (\<lambda>(room, l) x. if 0 < room then ((room - 1, l @ [x]), True) else ((room, l), False)),
     chan_sent = snd\<rparr>"

lemma list_channel_laws: "unbounded_laws list_channel"
  by (auto simp: unbounded_laws_def list_channel_def)

text \<open>
  What a receiver gives until it has nothing more for now: the items, and whether the channel then
  turned out to be closed. This is the environment's choice at every poll.
\<close>

datatype DrainEnd = DrainPending | DrainClosed

text \<open>The four answers of polling a \<open>Delay\<close>: elapsed, not yet, and its two errors.\<close>

datatype TimerPoll = TimerElapsed | TimerPending | TimerAtCapacity | TimerShutdown

subsection \<open>Runs\<close>

text \<open>
  A task is polled again and again while the environment acts in between. Its runs are the
  sequences of labelled steps; an invariant may speak of the labels so far.
\<close>

inductive runs :: "('s \<Rightarrow> 'l \<Rightarrow> 's \<Rightarrow> bool) \<Rightarrow> 's \<Rightarrow> 'l list \<Rightarrow> 's \<Rightarrow> bool"
  for step :: "'s \<Rightarrow> 'l \<Rightarrow> 's \<Rightarrow> bool" and s :: 's
where
  runs_nil: "runs step s [] s"
| runs_step: "runs step s ls s' \<Longrightarrow> step s' l s'' \<Longrightarrow> runs step s (ls @ [l]) s''"

inductive_simps runs_nil_simp [simp]: "runs step s [] s'"

lemma runs_single: "step s l s' \<Longrightarrow> runs step s [l] s'"
  using runs_step [OF runs_nil, of step s l s'] by simp

lemma runs_append: "runs step s' ls' s'' \<Longrightarrow> runs step s ls s' \<Longrightarrow> runs step s (ls @ ls') s''"
  by (induction rule: runs.induct)
     (simp_all add: append_assoc [symmetric] runs_step del: append_assoc)

lemma runs_Cons: "step s l s' \<Longrightarrow> runs step s' ls s'' \<Longrightarrow> runs step s (l # ls) s''"
  using runs_append [OF _ runs_single, of step s' ls s'' s l] by simp

lemma runs_deadlock: "runs step s ls s' \<Longrightarrow> (\<And>l s'. step s l s' \<Longrightarrow> s' = s) \<Longrightarrow> s' = s"
  by (induction rule: runs.induct) auto

locale step_invariant =
  fixes step :: "'s \<Rightarrow> 'l \<Rightarrow> 's \<Rightarrow> bool"
    and start :: 's
    and inv :: "'l list \<Rightarrow> 's \<Rightarrow> bool"
  assumes inv_start: "inv [] start"
    and inv_step: "inv ls s \<Longrightarrow> step s l s' \<Longrightarrow> inv (ls @ [l]) s'"
begin

lemma inv_runs: "runs step start ls s \<Longrightarrow> inv ls s"
  by (induction rule: runs.induct) (simp_all add: inv_start inv_step)

end

end
