(* ===== verification/Pending.thy ===== *)
theory Pending
  imports Futures Response CSeq
begin

text \<open>
  Requests that wait for their response: \<^verbatim>\<open>rtsp-2/src/protocol/connection/pending.rs\<close>, with
  the error type of \<^verbatim>\<open>rtsp-2/src/protocol/connection/mod.rs\<close>. A single-use channel is named by
  a value of type \<open>'ch\<close>; the answers of polling it and the timers are arguments. Timers only
  count as present or absent. The option around a result is a panic.
\<close>

type_synonym Duration = nat

definition REQUEST_MAX_TIMEOUT_DEFAULT_DURATION :: Duration where
  "REQUEST_MAX_TIMEOUT_DEFAULT_DURATION = 20"

definition REQUEST_TIMEOUT_DEFAULT_DURATION :: Duration where
  "REQUEST_TIMEOUT_DEFAULT_DURATION = 10"

datatype RequestTimeoutType = TimeoutLong | TimeoutShort

datatype OperationError = OperationClosed | RequestCancelled | RequestTimedOut RequestTimeoutType

definition operation_error_text :: "OperationError \<Rightarrow> string" where
  "operation_error_text e =
     (case e of
        OperationClosed \<Rightarrow> ''closed''
      | RequestCancelled \<Rightarrow> ''request cancelled''
      | RequestTimedOut TimeoutLong \<Rightarrow> ''request timed out (long)''
      | RequestTimedOut TimeoutShort \<Rightarrow> ''request timed out (short)'')"

datatype ('m, 'ch) PendingRequestResponse =
  PendingContinue 'ch | PendingNone | PendingResponse "(bytes, 'm) Response"

datatype 'ch PendingRequestUpdate = AddPendingRequest CSeq 'ch | RemovePendingRequest CSeq

subsection \<open>The future of a sent request\<close>

record 'ch send_request =
  sr_max_timer :: bool
  sr_rx_response :: 'ch
  sr_rx_closed :: bool
  sr_sequence_number :: CSeq
  sr_timeout_duration :: "Duration option"
  sr_timer :: bool

definition send_request_new :: "'ch \<Rightarrow> CSeq \<Rightarrow> Duration option \<Rightarrow> Duration option \<Rightarrow> 'ch send_request" where
  "send_request_new rx_response sequence_number timeout_duration max_timeout_duration =
     \<lparr>sr_max_timer = (max_timeout_duration \<noteq> None), sr_rx_response = rx_response, sr_rx_closed = False,
      sr_sequence_number = sequence_number, sr_timeout_duration = timeout_duration,
      sr_timer = (timeout_duration \<noteq> None)\<rparr>"

text \<open>The updates sent to the response receiver are the second component.\<close>

definition cancel_request :: "'ch send_request \<Rightarrow> 'ch send_request \<times> 'ch PendingRequestUpdate list" where
  "cancel_request sr = (sr\<lparr>sr_rx_closed := True\<rparr>, [RemovePendingRequest (sr_sequence_number sr)])"

text \<open>Polling the single-use channel: a message, nothing yet, or cancelled.\<close>

datatype 'a OneshotPoll = OneshotMessage 'a | OneshotPending | OneshotCanceled

definition poll_is_cancelled :: "('m, 'ch) PendingRequestResponse OneshotPoll \<Rightarrow> bool" where
  "poll_is_cancelled answer \<longleftrightarrow> (case answer of OneshotCanceled \<Rightarrow> True | _ \<Rightarrow> False)"

definition poll_request ::
  "('m, 'ch) PendingRequestResponse OneshotPoll \<Rightarrow> 'ch send_request
     \<Rightarrow> ('ch send_request \<times> (OperationError + (bytes, 'm) Response Async)) option"
where
  "poll_request answer sr =
     (case answer of
        OneshotCanceled \<Rightarrow> None
      | OneshotPending \<Rightarrow> Some (sr, Ok NotReady)
      | OneshotMessage (PendingContinue rx_response) \<Rightarrow>
          Some (sr\<lparr>sr_rx_response := rx_response, sr_timer := (sr_timeout_duration sr \<noteq> None)\<rparr>, Ok NotReady)
      | OneshotMessage PendingNone \<Rightarrow> Some (sr, Err RequestCancelled)
      | OneshotMessage (PendingResponse response) \<Rightarrow> Some (sr, Ok (Ready response)))"

text \<open>The common text of \<open>poll_max_timer\<close> and \<open>poll_timer\<close>.\<close>

definition poll_request_timer ::
  "RequestTimeoutType \<Rightarrow> bool \<Rightarrow> TimerPoll \<Rightarrow> 'ch send_request
     \<Rightarrow> ('ch send_request \<times> 'ch PendingRequestUpdate list \<times> (OperationError + unit)) option"
where
  "poll_request_timer timeout present answer sr =
     (if \<not> present then Some (sr, [], Ok ())
      else case answer of
        TimerElapsed \<Rightarrow> (case cancel_request sr of (sr, us) \<Rightarrow> Some (sr, us, Err (RequestTimedOut timeout)))
      | TimerPending \<Rightarrow> Some (sr, [], Ok ())
      | TimerAtCapacity \<Rightarrow> (case cancel_request sr of (sr, us) \<Rightarrow> Some (sr, us, Err RequestCancelled))
      | TimerShutdown \<Rightarrow> None)"

definition poll_max_timer ::
  "TimerPoll \<Rightarrow> 'ch send_request \<Rightarrow> ('ch send_request \<times> 'ch PendingRequestUpdate list \<times> (OperationError + unit)) option"
where
  "poll_max_timer answer sr = poll_request_timer TimeoutLong (sr_max_timer sr) answer sr"

definition poll_timer ::
  "TimerPoll \<Rightarrow> 'ch send_request \<Rightarrow> ('ch send_request \<times> 'ch PendingRequestUpdate list \<times> (OperationError + unit)) option"
where
  "poll_timer answer sr = poll_request_timer TimeoutShort (sr_timer sr) answer sr"

definition send_request_poll ::
  "('m, 'ch) PendingRequestResponse OneshotPoll \<Rightarrow> TimerPoll \<Rightarrow> TimerPoll \<Rightarrow> 'ch send_request
     \<Rightarrow> ('ch send_request \<times> 'ch PendingRequestUpdate list \<times> (OperationError + (bytes, 'm) Response Async)) option"
where
  "send_request_poll answer max_answer timer_answer sr =
     (case poll_request answer sr of
        None \<Rightarrow> None
      | Some (sr, Ok (Ready response)) \<Rightarrow> Some (sr, [], Ok (Ready response))
      | Some (sr, Err e) \<Rightarrow> Some (sr, [], Err e)
      | Some (sr, Ok NotReady) \<Rightarrow>
          (case poll_max_timer max_answer sr of
             None \<Rightarrow> None
           | Some (sr, us, Err e) \<Rightarrow> Some (sr, us, Err e)
           | Some (sr, us, Ok _) \<Rightarrow>
               (case poll_timer timer_answer sr of
                  None \<Rightarrow> None
                | Some (sr, us', Err e) \<Rightarrow> Some (sr, us @ us', Err e)
                | Some (sr, us', Ok _) \<Rightarrow> Some (sr, us @ us', Ok NotReady))))"

definition send_request_drop ::
  "('m, 'ch) PendingRequestResponse OneshotPoll \<Rightarrow> 'ch send_request \<Rightarrow> 'ch PendingRequestUpdate list" where
  "send_request_drop answer sr = (if \<not> poll_is_cancelled answer then snd (cancel_request sr) else [])"

subsection \<open>Options\<close>

record RequestOptions =
  ro_max_timeout_duration :: "Duration option"
  ro_timeout_duration :: "Duration option"

record RequestOptionsBuilder =
  rob_max_timeout_duration :: "Duration option"
  rob_timeout_duration :: "Duration option"

definition options_build :: "RequestOptionsBuilder \<Rightarrow> RequestOptions" where
  "options_build b =
     \<lparr>ro_max_timeout_duration = rob_max_timeout_duration b, ro_timeout_duration = rob_timeout_duration b\<rparr>"

definition options_builder_new :: RequestOptionsBuilder where
  "options_builder_new =
     \<lparr>rob_max_timeout_duration = Some REQUEST_MAX_TIMEOUT_DEFAULT_DURATION,
      rob_timeout_duration = Some REQUEST_TIMEOUT_DEFAULT_DURATION\<rparr>"

definition options_set_max_timeout_duration :: "Duration option \<Rightarrow> RequestOptionsBuilder \<Rightarrow> RequestOptionsBuilder" where
  "options_set_max_timeout_duration duration b = b\<lparr>rob_max_timeout_duration := duration\<rparr>"

definition options_set_timeout_duration :: "Duration option \<Rightarrow> RequestOptionsBuilder \<Rightarrow> RequestOptionsBuilder" where
  "options_set_timeout_duration duration b = b\<lparr>rob_timeout_duration := duration\<rparr>"

definition options_new :: RequestOptions where
  "options_new = options_build options_builder_new"

subsection \<open>Properties\<close>


end
