(* ===== verification/Responses.thy ===== *)
theory Responses
  imports Pending "HOL-Library.AList" "HOL-Library.Multiset"
begin

text \<open>
  Matching responses to pending requests: the type \<open>ResponseReceiver\<close> of
  \<^verbatim>\<open>rtsp-2/src/protocol/connection/receiver.rs\<close>. The hash map is an association list with
  distinct keys. Every operation returns what it did to the single-use channels: messages sent
  through one (which uses it up) and channels dropped without a message.
\<close>

datatype ('m, 'ch) channel_use = SentTo 'ch "('m, 'ch) PendingRequestResponse" | DroppedChannel 'ch

record 'ch response_receiver =
  rr_pending_requests :: "(CSeq \<times> 'ch) list"
  rr_updates_done :: bool

definition response_receiver_new :: "'ch response_receiver" where
  "response_receiver_new = \<lparr>rr_pending_requests = [], rr_updates_done = False\<rparr>"

definition dropped_for :: "CSeq \<Rightarrow> (CSeq \<times> 'ch) list \<Rightarrow> ('m, 'ch) channel_use list" where
  "dropped_for cseq l = (case map_of l cseq of None \<Rightarrow> [] | Some ch \<Rightarrow> [DroppedChannel ch])"

definition handle_pending_request_update ::
  "'ch PendingRequestUpdate \<Rightarrow> 'ch response_receiver \<Rightarrow> 'ch response_receiver \<times> ('m, 'ch) channel_use list" where
  "handle_pending_request_update update rr =
     (case update of
        AddPendingRequest cseq tx_pending_request \<Rightarrow>
          (rr\<lparr>rr_pending_requests := (cseq, tx_pending_request) # AList.delete cseq (rr_pending_requests rr)\<rparr>,
           dropped_for cseq (rr_pending_requests rr))
      | RemovePendingRequest cseq \<Rightarrow>
          (rr\<lparr>rr_pending_requests := AList.delete cseq (rr_pending_requests rr)\<rparr>,
           dropped_for cseq (rr_pending_requests rr)))"

text \<open>
  A \<open>Continue\<close> response creates a channel: its name is an argument, and so is whether the receiving
  half of the old one is still there.
\<close>

definition response_cseq :: "'m header_map_ops \<Rightarrow> (bytes, 'm) Response \<Rightarrow> CSeq option" where
  "response_cseq M response = typed_get M cseq_header_name cseq_decode (resp_headers response)"

definition handle_response ::
  "'m header_map_ops \<Rightarrow> 'ch \<Rightarrow> bool \<Rightarrow> (bytes, 'm) Response \<Rightarrow> 'ch response_receiver
     \<Rightarrow> 'ch response_receiver \<times> ('m, 'ch) channel_use list"
where
  "handle_response M new_channel alive response rr =
     (case response_cseq M response of
        None \<Rightarrow> (rr, [])
      | Some cseq \<Rightarrow>
          if resp_status_code response = Continue then
            (case map_of (rr_pending_requests rr) cseq of
               None \<Rightarrow> (rr, [])
             | Some pending_request \<Rightarrow>
                 if alive then
                   (rr\<lparr>rr_pending_requests := (cseq, new_channel) # AList.delete cseq (rr_pending_requests rr)\<rparr>,
                    [SentTo pending_request (PendingContinue new_channel)])
                 else
                   (rr\<lparr>rr_pending_requests := AList.delete cseq (rr_pending_requests rr)\<rparr>,
                    [SentTo pending_request (PendingContinue new_channel), DroppedChannel new_channel]))
          else
            (case map_of (rr_pending_requests rr) cseq of
               None \<Rightarrow> (rr, [])
             | Some pending_request \<Rightarrow>
                 (rr\<lparr>rr_pending_requests := AList.delete cseq (rr_pending_requests rr)\<rparr>,
                  [SentTo pending_request (PendingResponse response)])))"

definition remove_pending_requests ::
  "'ch response_receiver \<Rightarrow> 'ch response_receiver \<times> ('m, 'ch) channel_use list" where
  "remove_pending_requests rr =
     (rr\<lparr>rr_pending_requests := []\<rparr>, map (\<lambda>(_, ch). SentTo ch PendingNone) (rr_pending_requests rr))"

definition should_shutdown :: "'ch response_receiver \<Rightarrow> bool" where
  "should_shutdown rr \<longleftrightarrow> rr_updates_done rr"

text \<open>The loop of \<open>poll\<close>, on the updates that the channel gives and how it ends.\<close>

fun response_receiver_poll ::
  "'ch PendingRequestUpdate list \<Rightarrow> DrainEnd \<Rightarrow> 'ch response_receiver
     \<Rightarrow> 'ch response_receiver \<times> ('m, 'ch) channel_use list \<times> unit Async"
where
  "response_receiver_poll [] DrainPending rr = (rr, [], NotReady)"
| "response_receiver_poll [] DrainClosed rr = (rr\<lparr>rr_updates_done := True\<rparr>, [], Ready ())"
| "response_receiver_poll (update # updates) e rr =
     (case handle_pending_request_update update rr of
        (rr, uses) \<Rightarrow> (case response_receiver_poll updates e rr of (rr, uses', r) \<Rightarrow> (rr, uses @ uses', r)))"

definition response_receiver_drop ::
  "'ch PendingRequestUpdate list \<Rightarrow> DrainEnd \<Rightarrow> 'ch response_receiver
     \<Rightarrow> 'ch response_receiver \<times> ('m, 'ch) channel_use list"
where
  "response_receiver_drop updates e rr =
     (case response_receiver_poll updates e rr of
        (rr, uses, _) \<Rightarrow> (case remove_pending_requests rr of (rr, uses') \<Rightarrow> (rr, uses @ uses')))"

subsection \<open>Runs\<close>

text \<open>
  The receiver in use: updates, responses, and at the end the drop. A label records the input and
  the uses of channels.
\<close>

datatype ('m, 'ch) rr_label =
  RrUpdate "'ch PendingRequestUpdate" "('m, 'ch) channel_use list"
| RrResponse "(bytes, 'm) Response" 'ch "('m, 'ch) channel_use list"
| RrDrop "('m, 'ch) channel_use list"

inductive rr_step ::
  "'m header_map_ops \<Rightarrow> 'ch response_receiver \<Rightarrow> ('m, 'ch) rr_label \<Rightarrow> 'ch response_receiver \<Rightarrow> bool"
  for M
where
  rr_step_update:
    "handle_pending_request_update update rr = (rr', uses) \<Longrightarrow> rr_step M rr (RrUpdate update uses) rr'"
| rr_step_response:
    "handle_response M new_channel alive response rr = (rr', uses) \<Longrightarrow>
     rr_step M rr (RrResponse response new_channel uses) rr'"
| rr_step_drop: "remove_pending_requests rr = (rr', uses) \<Longrightarrow> rr_step M rr (RrDrop uses) rr'"

inductive_simps rr_step_simps:
  "rr_step M rr (RrUpdate update uses) rr'"
  "rr_step M rr (RrResponse response new_channel uses) rr'"
  "rr_step M rr (RrDrop uses) rr'"

fun label_uses :: "('m, 'ch) rr_label \<Rightarrow> ('m, 'ch) channel_use list" where
  "label_uses (RrUpdate _ uses) = uses"
| "label_uses (RrResponse _ _ uses) = uses"
| "label_uses (RrDrop uses) = uses"

abbreviation all_uses :: "('m, 'ch) rr_label list \<Rightarrow> ('m, 'ch) channel_use list" where
  "all_uses ls \<equiv> concat (map label_uses ls)"

fun use_channel :: "('m, 'ch) channel_use \<Rightarrow> 'ch" where
  "use_channel (SentTo ch _) = ch"
| "use_channel (DroppedChannel ch) = ch"

text \<open>
  The channels the receiver was handed or made itself, with the sequence number they answer: one per
  added request and one per \<open>Continue\<close> that was passed on.
\<close>

fun use_created :: "CSeq option \<Rightarrow> ('m, 'ch) channel_use \<Rightarrow> (CSeq \<times> 'ch) list" where
  "use_created (Some cseq) (SentTo _ (PendingContinue ch)) = [(cseq, ch)]"
| "use_created _ _ = []"

fun label_channels :: "'m header_map_ops \<Rightarrow> ('m, 'ch) rr_label \<Rightarrow> (CSeq \<times> 'ch) list" where
  "label_channels M (RrUpdate (AddPendingRequest cseq ch) _) = [(cseq, ch)]"
| "label_channels M (RrResponse response _ uses) = concat (map (use_created (response_cseq M response)) uses)"
| "label_channels M _ = []"

abbreviation all_channels :: "'m header_map_ops \<Rightarrow> ('m, 'ch) rr_label list \<Rightarrow> (CSeq \<times> 'ch) list" where
  "all_channels M ls \<equiv> concat (map (label_channels M) ls)"

text \<open>A message is right for the requests that its channel answers.\<close>

fun use_right :: "'m header_map_ops \<Rightarrow> (CSeq \<times> 'ch) list \<Rightarrow> ('m, 'ch) channel_use \<Rightarrow> bool" where
  "use_right M chs (SentTo ch (PendingResponse response)) \<longleftrightarrow>
     resp_status_code response \<noteq> Continue
     \<and> (case response_cseq M response of None \<Rightarrow> False | Some cseq \<Rightarrow> (cseq, ch) \<in> set chs)"
| "use_right M chs (SentTo ch (PendingContinue ch')) \<longleftrightarrow> list_ex (\<lambda>(cseq, c). c = ch \<and> (cseq, ch') \<in> set chs) chs"
| "use_right M chs _ \<longleftrightarrow> True"

definition rr_inv :: "'m header_map_ops \<Rightarrow> ('m, 'ch) rr_label list \<Rightarrow> 'ch response_receiver \<Rightarrow> bool" where
  "rr_inv M ls rr \<longleftrightarrow>
     distinct (map fst (rr_pending_requests rr))
     \<and> set (rr_pending_requests rr) \<subseteq> set (all_channels M ls)
     \<and> mset (map snd (all_channels M ls)) =
         mset (map use_channel (all_uses ls)) + mset (map snd (rr_pending_requests rr))
     \<and> list_all (use_right M (all_channels M ls)) (all_uses ls)"

lemma use_right_mono: "use_right M chs u \<Longrightarrow> set chs \<subseteq> set chs' \<Longrightarrow> use_right M chs' u"
  by (cases "(M, chs, u)" rule: use_right.cases) (auto simp: list_ex_iff split: option.splits)

lemma mset_snd_delete:
  "distinct (map fst l) \<Longrightarrow> map_of l k = Some v \<Longrightarrow> mset (map snd l) = add_mset v (mset (map snd (AList.delete k l)))"
proof (induction l)
  case (Cons p l)
  then show ?case
    by (cases "fst p = k") (auto simp: AList.delete_idem image_iff)
qed simp

lemma set_delete_subset: "set (AList.delete k l) \<subseteq> set l"
  by (auto simp: AList.delete_eq)

lemma delete_fresh: "k \<notin> fst ` set (AList.delete k l)"
  by (auto simp: AList.delete_eq)

lemmas rr_map_facts = distinct_delete set_delete_subset [THEN subsetD] delete_fresh

lemma delete_absent: "map_of l k = None \<Longrightarrow> AList.delete k l = l"
  by (auto simp: AList.delete_eq map_of_eq_None_iff image_iff intro!: filter_True)

lemma dropped_for_balance:
  "distinct (map fst l) \<Longrightarrow> mset (map snd l) = mset (map use_channel (dropped_for k l)) + mset (map snd (AList.delete k l))"
  using mset_snd_delete [of l k]
  by (cases "map_of l k") (simp_all add: dropped_for_def delete_absent del: mset_map)

lemma use_right_continue:
  "(cseq, ch) \<in> set chs \<Longrightarrow> (cseq, ch') \<in> set chs \<Longrightarrow> use_right M chs (SentTo ch (PendingContinue ch'))"
  by (auto simp: list_ex_iff)

text \<open>A step keeps the invariant when it balances the channels and its messages are right.\<close>

lemma rr_inv_extend:
  assumes "rr_inv M ls rr"
    and "distinct (map fst (rr_pending_requests rr'))"
    and "set (rr_pending_requests rr') \<subseteq> set (rr_pending_requests rr) \<union> set (label_channels M l)"
    and "mset (map snd (rr_pending_requests rr)) + mset (map snd (label_channels M l))
      = mset (map use_channel (label_uses l)) + mset (map snd (rr_pending_requests rr'))"
    and "list_all (use_right M (all_channels M ls @ label_channels M l)) (label_uses l)"
  shows "rr_inv M (ls @ [l]) rr'"
proof -
  have "list_all (use_right M (all_channels M ls @ label_channels M l)) (all_uses ls)"
    using assms(1) use_right_mono [of M "all_channels M ls"] by (auto simp: rr_inv_def list_all_iff)
  moreover have "mset (map snd (all_channels M ls)) + mset (map snd (label_channels M l)) =
      mset (map use_channel (all_uses ls)) + mset (map use_channel (label_uses l)) + mset (map snd (rr_pending_requests rr'))"
    using assms(1,4) by (simp add: rr_inv_def)
  ultimately show ?thesis using assms by (auto simp: rr_inv_def)
qed

lemma rr_pending_distinct: "rr_inv M ls rr \<Longrightarrow> distinct (map fst (rr_pending_requests rr))"
  by (simp add: rr_inv_def)

lemma rr_inv_update:
  assumes inv: "rr_inv M ls rr" and "handle_pending_request_update update rr = (rr', uses)"
  shows "rr_inv M (ls @ [RrUpdate update uses]) rr'"
proof -
  note d = rr_pending_distinct [OF inv]
  have right: "list_all (use_right M chs) (dropped_for cseq (rr_pending_requests rr))" for chs cseq
    by (simp add: dropped_for_def split: option.split)
  have "rr_inv M (ls @ [RrUpdate update (dropped_for cseq (rr_pending_requests rr))]) rr'"
    if "update = AddPendingRequest cseq ch" "rr_pending_requests rr' = (cseq, ch) # AList.delete cseq (rr_pending_requests rr)"
    for cseq ch
    using that dropped_for_balance [OF d, of cseq] right
    by (intro rr_inv_extend [OF inv]) (auto simp: rr_map_facts(1) [OF d] rr_map_facts(3) dest: rr_map_facts(2))
  moreover have "rr_inv M (ls @ [RrUpdate update (dropped_for cseq (rr_pending_requests rr))]) rr'"
    if "update = RemovePendingRequest cseq" "rr_pending_requests rr' = AList.delete cseq (rr_pending_requests rr)"
    for cseq
    using that dropped_for_balance [OF d, of cseq] right
    by (intro rr_inv_extend [OF inv]) (auto simp: rr_map_facts(1) [OF d] dest: rr_map_facts(2))
  ultimately show ?thesis
    using assms(2) by (cases update) (auto simp: handle_pending_request_update_def)
qed

lemma rr_inv_response:
  assumes inv: "rr_inv M ls rr" and "handle_response M new_channel alive response rr = (rr', uses)"
  shows "rr_inv M (ls @ [RrResponse response new_channel uses]) rr'"
proof (cases "uses = []")
  case True
  then have "rr' = rr" using assms(2) by (auto simp: handle_response_def split: option.splits if_splits)
  with True show ?thesis by (intro rr_inv_extend [OF inv]) (simp_all add: rr_pending_distinct [OF inv])
next
  case False
  note d = rr_pending_distinct [OF inv]
  obtain cseq ch where c: "response_cseq M response = Some cseq" "map_of (rr_pending_requests rr) cseq = Some ch"
    using assms(2) False by (auto simp: handle_response_def split: option.splits if_splits)
  then have owner: "(cseq, ch) \<in> set (all_channels M ls)"
    using inv map_of_SomeD [OF c(2)] by (auto simp: rr_inv_def)
  then have right: "use_right M (all_channels M ls @ [(cseq, ch')]) (SentTo ch (PendingContinue ch'))" for ch'
    by (intro use_right_continue) auto
  show ?thesis
    using assms(2) c owner right mset_snd_delete [OF d c(2)] rr_map_facts(2)
    by (intro rr_inv_extend [OF inv])
       (auto simp: handle_response_def rr_map_facts(1) [OF d] rr_map_facts(3) simp del: use_right.simps(2)
          split: if_splits)
qed

lemma rr_inv_drop:
  assumes inv: "rr_inv M ls rr" and "remove_pending_requests rr = (rr', uses)"
  shows "rr_inv M (ls @ [RrDrop uses]) rr'"
proof -
  have "rr_pending_requests rr' = []" "map use_channel uses = map snd (rr_pending_requests rr)"
    "list_all (use_right M chs) uses" for chs
    using assms(2) by (auto simp: remove_pending_requests_def list_all_iff)
  then show ?thesis by (intro rr_inv_extend [OF inv]) simp_all
qed

interpretation rr: step_invariant "rr_step M" response_receiver_new "rr_inv M" for M
proof
  show "rr_inv M [] response_receiver_new" by (simp add: rr_inv_def response_receiver_new_def)
  fix ls rr l rr'
  assume "rr_inv M ls rr" "rr_step M rr l rr'"
  then show "rr_inv M (ls @ [l]) rr'"
    using rr_inv_update rr_inv_response rr_inv_drop by (cases l) (auto simp: rr_step_simps)
qed

subsection \<open>Properties\<close>

text \<open>
  The pending requests as an abstract map from sequence numbers to the channels of their owners.
\<close>

definition pending_map :: "'ch response_receiver \<Rightarrow> CSeq \<Rightarrow> 'ch option" where
  "pending_map rr = map_of (rr_pending_requests rr)"

lemma map_of_delete_upd: "map_of (AList.delete k l) = (map_of l)(k := None)"
  by (rule delete_conv')


text \<open>
  C13. No single-use channel is lost or used twice, and no response reaches the wrong owner. In
  every run, the channels handed over by added requests and made for \<open>Continue\<close> responses are exactly
  those used up (by one message, or by being dropped) and those still pending, each once. Every
  response sent through a channel is final and carries the sequence number that the channel was
  added for, and the replacement that a \<open>Continue\<close> announces is for the same number.
\<close>

theorem response_channels_linear:
  assumes "runs (rr_step M) response_receiver_new ls rr"
  shows "mset (map snd (all_channels M ls)) = mset (map use_channel (all_uses ls)) + mset (map snd (rr_pending_requests rr))
    \<and> list_all (use_right M (all_channels M ls)) (all_uses ls)
    \<and> distinct (map fst (rr_pending_requests rr)) \<and> list_all (\<lambda>p. p \<in> set (all_channels M ls)) (rr_pending_requests rr)"
  using rr.inv_runs [OF assms] by (auto simp: rr_inv_def list_all_iff)

lemma response_channels_linear_witness:
  "\<exists>ls rr. runs (rr_step list_headers) response_receiver_new ls (rr :: nat response_receiver)
    \<and> mset (map snd (all_channels list_headers ls)) = {#5#} \<and> mset (map use_channel (all_uses ls)) = {#5#}"
proof -
  let ?rr = "\<lparr>rr_pending_requests = [(CSeq 1, 5 :: nat)], rr_updates_done = False\<rparr>"
  have one: "rr_step list_headers response_receiver_new (RrUpdate (AddPendingRequest (CSeq 1) 5) []) ?rr"
    by (simp add: rr_step_simps handle_pending_request_update_def response_receiver_new_def dropped_for_def)
  have two: "rr_step list_headers ?rr (RrDrop [SentTo 5 PendingNone]) response_receiver_new"
    by (simp add: rr_step_simps handle_pending_request_update_def response_receiver_new_def dropped_for_def
        remove_pending_requests_def)
  have run: "runs (rr_step list_headers) response_receiver_new
      [RrUpdate (AddPendingRequest (CSeq 1) (5 :: nat)) [], RrDrop [SentTo 5 PendingNone]] response_receiver_new"
    by (rule runs_Cons [of "rr_step list_headers", OF one runs_single [of "rr_step list_headers", OF two]])
  from run response_channels_linear [OF run] show ?thesis
    by (intro exI [of _ "[RrUpdate (AddPendingRequest (CSeq 1) 5) [], RrDrop [SentTo 5 PendingNone]]"]
        exI [of _ response_receiver_new]) (simp add: response_receiver_new_def)
qed

end
