(* ===== verification/Forwarding.thy ===== *)
theory Forwarding
  imports Futures Request CSeq "HOL-Library.AList" "HOL-Library.Multiset"
begin

text \<open>
  Forwarding incoming requests to the request handler in the order of their sequence numbers: the
  type \<open>ForwardingReceiver\<close> of \<^verbatim>\<open>rtsp-2/src/protocol/connection/receiver.rs\<close>. The hash map of
  buffered requests is an association list with distinct keys; the bounded channel to the handler
  is a sink \<open>S\<close>.
\<close>

type_synonym ('m, 'u) incoming = "CSeq \<times> (bytes, 'm, 'u) Request"

datatype RequestReceiverError = ReceiverBadRequest | ReceiverCSeqDifferenceTooLarge

record ('m, 'u, 'c) forwarding_receiver =
  fwd_buffered_requests :: "('m, 'u) incoming list"
  fwd_incoming_sequence_number :: "CSeq option"
  fwd_request_buffer_size :: nat
  fwd_tx_incoming_request :: 'c

definition fwd_new :: "'c \<Rightarrow> nat \<Rightarrow> ('m, 'u, 'c) forwarding_receiver" where
  "fwd_new tx_incoming_request request_buffer_size =
     \<lparr>fwd_buffered_requests = [], fwd_incoming_sequence_number = None,
      fwd_request_buffer_size = request_buffer_size, fwd_tx_incoming_request = tx_incoming_request\<rparr>"

definition fwd_is_full :: "('m, 'u, 'c) forwarding_receiver \<Rightarrow> bool" where
  "fwd_is_full fr \<longleftrightarrow> length (fwd_buffered_requests fr) \<ge> fwd_request_buffer_size fr"

definition fwd_has_requests_ready :: "('m, 'u, 'c) forwarding_receiver \<Rightarrow> bool" where
  "fwd_has_requests_ready fr \<longleftrightarrow>
     (case fwd_incoming_sequence_number fr of
        Some incoming_sequence_number \<Rightarrow> map_of (fwd_buffered_requests fr) incoming_sequence_number \<noteq> None
      | None \<Rightarrow> False)"

definition fwd_incoming_or_default ::
  "CSeq \<Rightarrow> ('m, 'u, 'c) forwarding_receiver \<Rightarrow> CSeq \<times> ('m, 'u, 'c) forwarding_receiver" where
  "fwd_incoming_or_default cseq fr =
     (case fwd_incoming_sequence_number fr of
        Some cseq' \<Rightarrow> (cseq', fr)
      | None \<Rightarrow> (cseq, fr\<lparr>fwd_incoming_sequence_number := Some cseq\<rparr>))"

definition request_cseq :: "'m header_map_ops \<Rightarrow> (bytes, 'm, 'u) Request \<Rightarrow> CSeq option" where
  "request_cseq M request = typed_get M cseq_header_name cseq_decode (req_headers request)"

definition fwd_handle_request ::
  "'m header_map_ops \<Rightarrow> (bytes, 'm, 'u) Request \<Rightarrow> ('m, 'u, 'c) forwarding_receiver
     \<Rightarrow> ('m, 'u, 'c) forwarding_receiver \<times> (RequestReceiverError + unit)"
where
  "fwd_handle_request M request fr =
     (case request_cseq M request of
        Some cseq \<Rightarrow>
          (case fwd_incoming_or_default cseq fr of
             (incoming_sequence_number, fr) \<Rightarrow>
               if cseq_value (cseq_sub cseq incoming_sequence_number) > word_of_nat (fwd_request_buffer_size fr)
               then (fr, Err ReceiverCSeqDifferenceTooLarge)
               else (case map_of (fwd_buffered_requests fr) cseq of
                       Some _ \<Rightarrow> (fr, Err ReceiverBadRequest)
                     | None \<Rightarrow>
                         (fr\<lparr>fwd_buffered_requests := (cseq, request) # fwd_buffered_requests fr\<rparr>, Ok ())))
      | None \<Rightarrow> (fr, Err ReceiverBadRequest))"

text \<open>
  The \<open>while let\<close> of \<open>poll\<close>. The first result is what is stored as the next expected number;
  nothing is stored when the channel is closed.
\<close>

lemma delete_shorter: "map_of l k = Some v \<Longrightarrow> length (AList.delete k l) < length l"
  by (induction l) (auto split: if_splits simp: length_delete_le le_imp_less_Suc)

function fwd_loop ::
  "('c, ('m, 'u) incoming, unit) sink_ops \<Rightarrow> CSeq \<Rightarrow> ('m, 'u) incoming list \<Rightarrow> 'c
     \<Rightarrow> CSeq option \<times> ('m, 'u) incoming list \<times> 'c \<times> (unit, unit) Poll"
where
  "fwd_loop S incoming_sequence_number buffered_requests tx =
     (case map_of buffered_requests incoming_sequence_number of
        None \<Rightarrow> (Some incoming_sequence_number, buffered_requests, tx, Ok (Ready ()))
      | Some request \<Rightarrow>
          (let buffered_requests' = AList.delete incoming_sequence_number buffered_requests in
           case sink_start_send S tx (incoming_sequence_number, request) of
             (tx', Err _) \<Rightarrow> (None, buffered_requests', tx', Err ())
           | (tx', Ok SinkReady) \<Rightarrow>
               fwd_loop S (wrapping_increment incoming_sequence_number) buffered_requests' tx'
           | (tx', Ok (SinkNotReady (_, request'))) \<Rightarrow>
               (Some incoming_sequence_number, (incoming_sequence_number, request') # buffered_requests',
                tx', Ok NotReady)))"
  by pat_completeness auto
termination
  by (relation "measure (\<lambda>(S, n, l, tx). length l)") (auto simp: delete_shorter)

declare fwd_loop.simps [simp del]

definition fwd_poll ::
  "('c, ('m, 'u) incoming, unit) sink_ops \<Rightarrow> ('m, 'u, 'c) forwarding_receiver
     \<Rightarrow> ('m, 'u, 'c) forwarding_receiver \<times> (unit, unit) Poll"
where
  "fwd_poll S fr =
     (case fwd_incoming_sequence_number fr of
        None \<Rightarrow> (fr, Ok (Ready ()))
      | Some n \<Rightarrow>
          (case fwd_loop S n (fwd_buffered_requests fr) (fwd_tx_incoming_request fr) of
             (n', buffered_requests, tx, r) \<Rightarrow>
               (fr\<lparr>fwd_buffered_requests := buffered_requests,
                   fwd_incoming_sequence_number := (case n' of None \<Rightarrow> Some n | Some n'' \<Rightarrow> Some n''),
                   fwd_tx_incoming_request := tx\<rparr>, r)))"

subsection \<open>Facts\<close>

definition cseqs_from :: "CSeq \<Rightarrow> nat \<Rightarrow> CSeq list" where
  "cseqs_from first n = map (\<lambda>i. (wrapping_increment ^^ i) first) [0..<n]"

lemma cseqs_from_simps [simp]:
  "cseqs_from first 0 = []"
  "cseqs_from first (Suc n) = cseqs_from first n @ [(wrapping_increment ^^ n) first]"
  by (simp_all add: cseqs_from_def)

text \<open>One round of the loop, by the answer of the channel.\<close>

lemma fwd_loop_cases:
  "map_of l n = None \<Longrightarrow> fwd_loop S n l tx = (Some n, l, tx, Ok (Ready ()))"
  "map_of l n = Some q \<Longrightarrow> sink_start_send S tx (n, q) = (tx', Ok SinkReady)
     \<Longrightarrow> fwd_loop S n l tx = fwd_loop S (wrapping_increment n) (AList.delete n l) tx'"
  "map_of l n = Some q \<Longrightarrow> sink_start_send S tx (n, q) = (tx', Ok (SinkNotReady (k, q')))
     \<Longrightarrow> fwd_loop S n l tx = (Some n, (n, q') # AList.delete n l, tx', Ok NotReady)"
  "map_of l n = Some q \<Longrightarrow> sink_start_send S tx (n, q) = (tx', Err e)
     \<Longrightarrow> fwd_loop S n l tx = (None, AList.delete n l, tx', Err ())"
  by (simp_all add: fwd_loop.simps [of S n l tx])

lemma mset_delete:
  "distinct (map fst l) \<Longrightarrow> map_of l k = Some v \<Longrightarrow> mset l = add_mset (k, v) (mset (AList.delete k l))"
proof (induction l)
  case (Cons p l)
  show ?case
  proof (cases "fst p = k")
    case True
    with Cons.prems have "k \<notin> fst ` set l" "p = (k, v)" by (cases p; auto)+
    then show ?thesis by (simp add: AList.delete_idem)
  next
    case False
    with Cons show ?thesis by (cases p) auto
  qed
qed simp

text \<open>
  What one run of the loop does: it moves a consecutive run of requests, starting with the expected
  number, from the buffer to the end of the channel, and keeps everything else.
\<close>

lemma fwd_loop_moves:
  "sink_laws S \<Longrightarrow> distinct (map fst l) \<Longrightarrow> fwd_loop S n l tx = (n', l', tx', r) \<Longrightarrow> r \<noteq> Err () \<Longrightarrow>
    \<exists>sent. sink_accepted S tx' = sink_accepted S tx @ sent
      \<and> map fst sent = cseqs_from n (length sent) \<and> n' = Some ((wrapping_increment ^^ length sent) n)
      \<and> mset l = mset sent + mset l' \<and> distinct (map fst l')
      \<and> (map_of l' (the n') = None \<longleftrightarrow> r = Ok (Ready ()))"
proof (induction S n l tx arbitrary: n' l' tx' r rule: fwd_loop.induct)
  case (1 S n l tx)
  note laws = "1.prems"(1)
  show ?case
  proof (cases "map_of l n")
    case None
    with "1.prems" show ?thesis by (intro exI [of _ "[]"]) (auto simp: fwd_loop_cases)
  next
    case (Some q)
    obtain c a where send: "sink_start_send S tx (n, q) = (c, a)" by fastforce
    note ms = mset_delete [OF "1.prems"(2) Some]
    have dist: "distinct (map fst (AList.delete n l))" using "1.prems"(2) by (simp add: distinct_delete)
    consider (ready) "a = Ok SinkReady" | (wait) k q' where "a = Ok (SinkNotReady (k, q'))" | (gone) e where "a = Err e"
      by (metis AsyncSink.exhaust sum.exhaust surj_pair)
    then show ?thesis
    proof cases
      case ready
      then have "fwd_loop S (wrapping_increment n) (AList.delete n l) c = (n', l', tx', r)"
        using "1.prems"(3) Some send by (simp add: fwd_loop_cases)
      then obtain sent where sent: "sink_accepted S tx' = sink_accepted S c @ sent"
        "map fst sent = cseqs_from (wrapping_increment n) (length sent)"
        "n' = Some ((wrapping_increment ^^ length sent) (wrapping_increment n))"
        "mset (AList.delete n l) = mset sent + mset l'" "distinct (map fst l')"
        "map_of l' (the n') = None \<longleftrightarrow> r = Ok (Ready ())"
        using "1.IH" [OF Some refl send [symmetric]] ready dist "1.prems"(4) laws by fastforce
      have acc: "sink_accepted S c = sink_accepted S tx @ [(n, q)]"
        using sink_lawsD(1) [OF laws, of tx "(n, q)" c] send ready by simp
      have "cseqs_from n (Suc k) = n # cseqs_from (wrapping_increment n) k" for k
        by (induction k) (simp_all add: funpow_swap1)
      then show ?thesis
        using sent ms acc
        by (intro exI [of _ "(n, q) # sent"]) (simp add: funpow_swap1)
    next
      case wait
      then have "(k, q') = (n, q)" "sink_accepted S c = sink_accepted S tx"
        using sink_lawsD(2) [OF laws, of tx "(n, q)" c] send by auto
      then show ?thesis
        using wait "1.prems"(3) Some send ms dist
        by (intro exI [of _ "[]"]) (auto simp: fwd_loop_cases AList.delete_eq)
    next
      case gone
      then show ?thesis using "1.prems"(3,4) Some send by (simp add: fwd_loop_cases)
    qed
  qed
qed

text \<open>
  The receiver in use: the connection hands over a request only when the buffer is not full, and
  polls at any time. A run ends when the request handler is gone.
\<close>

datatype ('m, 'u) fwd_label = FwdReceive "(bytes, 'm, 'u) Request" "RequestReceiverError + unit" | FwdPoll "unit Async"

inductive fwd_step ::
  "'m header_map_ops \<Rightarrow> ('c, ('m, 'u) incoming, unit) sink_ops \<Rightarrow> ('m, 'u, 'c) forwarding_receiver
     \<Rightarrow> ('m, 'u) fwd_label \<Rightarrow> ('m, 'u, 'c) forwarding_receiver \<Rightarrow> bool"
  for M S
where
  fwd_step_receive:
    "\<not> fwd_is_full fr \<Longrightarrow> fwd_handle_request M request fr = (fr', r) \<Longrightarrow> fwd_step M S fr (FwdReceive request r) fr'"
| fwd_step_poll: "fwd_poll S fr = (fr', Ok a) \<Longrightarrow> fwd_step M S fr (FwdPoll a) fr'"

inductive_simps fwd_step_simps:
  "fwd_step M S fr (FwdReceive request r) fr'"
  "fwd_step M S fr (FwdPoll a) fr'"

fun fwd_received :: "'m header_map_ops \<Rightarrow> ('m, 'u) fwd_label list \<Rightarrow> ('m, 'u) incoming list" where
  "fwd_received M [] = []"
| "fwd_received M (FwdReceive request (Ok _) # ls) = (the (request_cseq M request), request) # fwd_received M ls"
| "fwd_received M (_ # ls) = fwd_received M ls"

lemma fwd_received_append: "fwd_received M (ls @ ls') = fwd_received M ls @ fwd_received M ls'"
  by (induction M ls rule: fwd_received.induct) auto

text \<open>What has been accepted and passed on, with \<open>sent\<close> the requests passed on.\<close>

definition fwd_inv ::
  "'m header_map_ops \<Rightarrow> ('c, ('m, 'u) incoming, unit) sink_ops \<Rightarrow> 'c \<Rightarrow> nat \<Rightarrow> ('m, 'u) fwd_label list
     \<Rightarrow> ('m, 'u, 'c) forwarding_receiver \<Rightarrow> ('m, 'u) incoming list \<Rightarrow> bool"
where
  "fwd_inv M S tx0 size_limit ls fr sent \<longleftrightarrow>
     sink_accepted S (fwd_tx_incoming_request fr) = sink_accepted S tx0 @ sent
     \<and> mset (fwd_received M ls) = mset sent + mset (fwd_buffered_requests fr)
     \<and> distinct (map fst (fwd_buffered_requests fr))
     \<and> length (fwd_buffered_requests fr) \<le> size_limit \<and> fwd_request_buffer_size fr = size_limit
     \<and> (case fwd_incoming_sequence_number fr of
          None \<Rightarrow> fwd_received M ls = []
        | Some n \<Rightarrow> fwd_received M ls \<noteq> []
            \<and> n = (wrapping_increment ^^ length sent) (fst (hd (fwd_received M ls)))
            \<and> map fst sent = cseqs_from (fst (hd (fwd_received M ls))) (length sent))"

lemma fwd_inv_start: "fwd_inv M S tx0 size_limit [] (fwd_new tx0 size_limit) []"
  by (simp add: fwd_inv_def fwd_new_def)

text \<open>The first request that carries a sequence number is always accepted.\<close>

lemma cseq_sub_self: "cseq_value (cseq_sub c c) = 0"
  by (simp add: cseq_sub_def)

lemma fwd_handle_request_cases:
  assumes "fwd_handle_request M request fr = (fr', r)"
  obtains (rejected) e where "r = Err e" "fwd_buffered_requests fr' = fwd_buffered_requests fr"
      "fwd_tx_incoming_request fr' = fwd_tx_incoming_request fr"
      "fwd_request_buffer_size fr' = fwd_request_buffer_size fr"
      "fwd_incoming_sequence_number fr' = fwd_incoming_sequence_number fr
        \<or> fwd_incoming_sequence_number fr = None \<and> fwd_buffered_requests fr \<noteq> []"
  | (accepted) c where "r = Ok ()" "request_cseq M request = Some c"
      "fr' = fr\<lparr>fwd_incoming_sequence_number :=
                 Some (case fwd_incoming_sequence_number fr of None \<Rightarrow> c | Some n \<Rightarrow> n),
               fwd_buffered_requests := (c, request) # fwd_buffered_requests fr\<rparr>"
      "map_of (fwd_buffered_requests fr) c = None"
proof (cases "request_cseq M request")
  case None
  then show ?thesis
    using assms by (intro rejected [of ReceiverBadRequest]) (auto simp: fwd_handle_request_def)
next
  case (Some c)
  then show ?thesis
    using assms rejected accepted [OF _ Some]
    by (cases "fwd_incoming_sequence_number fr"; cases "fwd_buffered_requests fr")
       (auto simp: fwd_handle_request_def fwd_incoming_or_default_def cseq_sub_self
          split: if_splits option.splits)
qed

lemma fwd_inv_receive:
  assumes inv: "fwd_inv M S tx0 size_limit ls fr sent" and "\<not> fwd_is_full fr"
    and "fwd_handle_request M request fr = (fr', r)"
  shows "fwd_inv M S tx0 size_limit (ls @ [FwdReceive request r]) fr' sent"
  using assms(3)
proof (cases rule: fwd_handle_request_cases)
  case (rejected e)
  have "fwd_incoming_sequence_number fr' = fwd_incoming_sequence_number fr"
    using rejected(5) inv by (auto simp: fwd_inv_def)
  then show ?thesis using inv rejected by (auto simp: fwd_inv_def fwd_received_append split: option.splits)
next
  case (accepted c)
  have "c \<notin> fst ` set (fwd_buffered_requests fr)"
    using accepted(4) by (simp add: map_of_eq_None_iff)
  then show ?thesis
    using inv assms(2) accepted
    by (auto simp: fwd_inv_def fwd_is_full_def fwd_received_append split: option.splits)
qed

lemma fwd_inv_poll:
  assumes inv: "fwd_inv M S tx0 size_limit ls fr sent" and "sink_laws S" and "fwd_poll S fr = (fr', Ok a)"
  shows "\<exists>sent'. fwd_inv M S tx0 size_limit (ls @ [FwdPoll a]) fr' sent'"
proof (cases "fwd_incoming_sequence_number fr")
  case None
  then show ?thesis using assms by (auto simp: fwd_poll_def fwd_inv_def fwd_received_append)
next
  case (Some n)
  obtain n' l' tx' r where loop:
    "fwd_loop S n (fwd_buffered_requests fr) (fwd_tx_incoming_request fr) = (n', l', tx', r)"
    by (cases "fwd_loop S n (fwd_buffered_requests fr) (fwd_tx_incoming_request fr)") auto
  have r: "r = Ok a" "fr' = fr\<lparr>fwd_buffered_requests := l',
      fwd_incoming_sequence_number := (case n' of None \<Rightarrow> Some n | Some n'' \<Rightarrow> Some n''),
      fwd_tx_incoming_request := tx'\<rparr>"
    using assms(3) Some loop by (auto simp: fwd_poll_def)
  have "distinct (map fst (fwd_buffered_requests fr))" using inv by (simp add: fwd_inv_def)
  from fwd_loop_moves [OF assms(2) this loop] obtain more where
    "sink_accepted S tx' = sink_accepted S (fwd_tx_incoming_request fr) @ more"
    "map fst more = cseqs_from n (length more)" "n' = Some ((wrapping_increment ^^ length more) n)"
    and ms: "mset (fwd_buffered_requests fr) = mset more + mset l'" and "distinct (map fst l')"
    using r(1) by auto
  moreover have "cseqs_from c (i + j) = cseqs_from c i @ cseqs_from ((wrapping_increment ^^ i) c) j" for c i j
    by (induction j) (simp_all add: funpow_add add.commute)
  moreover have "length l' \<le> length (fwd_buffered_requests fr)"
    using arg_cong [OF ms, where f = size] by simp
  moreover have "(wrapping_increment ^^ (i + j)) c = (wrapping_increment ^^ j) ((wrapping_increment ^^ i) c)" for c i j
    by (metis add.commute comp_apply funpow_add)
  ultimately have "fwd_inv M S tx0 size_limit (ls @ [FwdPoll a]) fr' (sent @ more)"
    using inv Some r(2) by (simp add: fwd_inv_def fwd_received_append)
  then show ?thesis by blast
qed

interpretation fwd: step_invariant "fwd_step M S" "fwd_new tx0 size_limit"
  "\<lambda>ls fr. sink_laws S \<longrightarrow> (\<exists>sent. fwd_inv M S tx0 size_limit ls fr sent)" for M S tx0 size_limit
proof
  fix ls fr l fr'
  assume "sink_laws S \<longrightarrow> (\<exists>sent. fwd_inv M S tx0 size_limit ls fr sent)" "fwd_step M S fr l fr'"
  then show "sink_laws S \<longrightarrow> (\<exists>sent. fwd_inv M S tx0 size_limit (ls @ [l]) fr' sent)"
    using fwd_inv_receive fwd_inv_poll by (cases l) (fastforce simp: fwd_step_simps)+
qed (intro impI exI, rule fwd_inv_start)

lemma fwd_runs_distinct:
  "sink_laws S \<Longrightarrow> runs (fwd_step M S) (fwd_new tx0 size_limit) ls fr \<Longrightarrow> distinct (map fst (fwd_buffered_requests fr))"
  using fwd.inv_runs by (fastforce simp: fwd_inv_def)

text \<open>A channel that takes everything for now.\<close>

definition sink_takes_all :: "('c, 'a, 'e) sink_ops \<Rightarrow> bool" where
  "sink_takes_all S \<longleftrightarrow> (\<forall>c x. snd (sink_start_send S c x) = Ok SinkReady)"

lemma fwd_loop_takes_all:
  "sink_takes_all S \<Longrightarrow> fwd_loop S n l tx = (n', l', tx', r) \<Longrightarrow> r = Ok (Ready ())"
proof (induction S n l tx arbitrary: n' l' tx' r rule: fwd_loop.induct)
  case (1 S n l tx)
  show ?case
  proof (cases "map_of l n")
    case None
    then show ?thesis using "1.prems" by (simp add: fwd_loop_cases)
  next
    case (Some q)
    obtain c where send: "sink_start_send S tx (n, q) = (c, Ok SinkReady)"
      using "1.prems"(1) by (metis prod.collapse sink_takes_all_def)
    then show ?thesis
      using "1.IH" [OF Some refl send [symmetric] refl refl "1.prems"(1)] "1.prems"(2) Some
      by (simp add: fwd_loop_cases)
  qed
qed

lemma fwd_poll_ready_none:
  assumes "sink_laws S" "distinct (map fst (fwd_buffered_requests fr))" "fwd_poll S fr = (fr', Ok (Ready ()))"
  shows "\<not> fwd_has_requests_ready fr'"
proof (cases "fwd_incoming_sequence_number fr")
  case None
  then show ?thesis using assms by (auto simp: fwd_poll_def fwd_has_requests_ready_def)
next
  case (Some n)
  obtain n' l' tx' r where loop:
    "fwd_loop S n (fwd_buffered_requests fr) (fwd_tx_incoming_request fr) = (n', l', tx', r)"
    by (cases "fwd_loop S n (fwd_buffered_requests fr) (fwd_tx_incoming_request fr)") auto
  then show ?thesis
    using fwd_loop_moves [OF assms(1,2) loop] assms(3) Some
    by (auto simp: fwd_poll_def fwd_has_requests_ready_def)
qed

text \<open>Full, with the expected request missing: nothing that can still happen changes it.\<close>

definition fwd_stuck :: "('m, 'u, 'c) forwarding_receiver \<Rightarrow> bool" where
  "fwd_stuck fr \<longleftrightarrow> fwd_is_full fr \<and> \<not> fwd_has_requests_ready fr"

lemma fwd_stuck_step: "fwd_stuck fr \<Longrightarrow> fwd_step M S fr l fr' \<Longrightarrow> fr' = fr"
  by (cases l)
     (auto simp: fwd_stuck_def fwd_step_simps fwd_poll_def fwd_has_requests_ready_def fwd_loop_cases
        split: option.splits)

lemma fwd_stuck_runs: "fwd_stuck fr \<Longrightarrow> runs (fwd_step M S) fr ls fr' \<Longrightarrow> fr' = fr"
  by (erule runs_deadlock) (rule fwd_stuck_step)

text \<open>A peer that numbers its requests from zero and whose request 1 does not arrive.\<close>

definition numbered :: "'m header_map_ops \<Rightarrow> (bytes, 'm, 'u) Request \<Rightarrow> nat \<Rightarrow> (bytes, 'm, 'u) Request" where
  "numbered M request i =
     request\<lparr>req_headers := typed_insert M cseq_header_name cseq_encode (CSeq (word_of_nat i)) (req_headers request)\<rparr>"

lemma cseq_small: "i \<le> 999999999 \<Longrightarrow> cseq_nat (CSeq (word_of_nat i)) = i"
  by (simp add: unat_of_nat)

lemma cseq_small_valid: "i \<le> 999999999 \<Longrightarrow> cseq_valid (CSeq (word_of_nat i))"
  unfolding cseq_valid_iff by (simp only: cseq_small)

lemma request_cseq_numbered:
  assumes "header_map_laws M" "i \<le> 999999999"
  shows "request_cseq M (numbered M request i) = Some (CSeq (word_of_nat i))"
  using cseq_hdr.get_after_insert [OF assms(1) cseq_small_valid [OF assms(2)]]
  by (simp add: request_cseq_def numbered_def typed_get_def)

definition waiting :: "'m header_map_ops \<Rightarrow> (bytes, 'm, 'u) Request \<Rightarrow> nat \<Rightarrow> ('m, 'u) incoming list" where
  "waiting M request k = rev (map (\<lambda>i. (CSeq (word_of_nat (i + 2)), numbered M request (i + 2))) [0..<k])"

lemma waiting_simps [simp]:
  "waiting M request 0 = []"
  "waiting M request (Suc k) = (CSeq (word_of_nat (k + 2)), numbered M request (k + 2)) # waiting M request k"
  by (simp_all add: waiting_def)

lemma map_of_waiting: "i < 2 \<or> k + 2 \<le> i \<Longrightarrow> i \<le> 999999999 \<Longrightarrow> k \<le> 900000000
  \<Longrightarrow> map_of (waiting M request k) (CSeq (word_of_nat i)) = None"
proof (induction k)
  case (Suc k)
  have "CSeq (word_of_nat (k + 2)) \<noteq> CSeq (word_of_nat i)"
    using Suc.prems unfolding cseq_eq_iff by (simp only: cseq_small) auto
  then show ?case using Suc by auto
qed simp

definition expecting_1 :: "nat \<Rightarrow> 'c \<Rightarrow> ('m, 'u) incoming list \<Rightarrow> ('m, 'u, 'c) forwarding_receiver" where
  "expecting_1 n tx l =
     \<lparr>fwd_buffered_requests = l, fwd_incoming_sequence_number = Some (CSeq 1),
      fwd_request_buffer_size = n, fwd_tx_incoming_request = tx\<rparr>"

lemma fwd_fills:
  assumes "header_map_laws M" "n \<le> 900000000" "k \<le> n"
  shows "\<exists>ls. runs (fwd_step M S) (expecting_1 n tx []) ls (expecting_1 n tx (waiting M request k))"
  using assms(3)
proof (induction k)
  case (Suc k)
  have cseq: "request_cseq M (numbered M request (k + 2)) = Some (CSeq (word_of_nat (k + 2)))"
    using assms(1,2) Suc.prems by (intro request_cseq_numbered) auto
  have "cseq_nat (cseq_sub (CSeq (word_of_nat (k + 2))) (CSeq 1)) = k + 1"
    using assms(2) Suc.prems cseq_small [of "k + 2"] cseq_small_valid [of "k + 2"] cseq_small [of 1] cseq_small_valid [of 1]
    by (simp add: cseq_nat_sub)
  then have near: "\<not> cseq_value (cseq_sub (CSeq (word_of_nat (k + 2))) (CSeq 1)) > word_of_nat n"
    using assms(2) Suc.prems by (simp add: word_less_nat_alt unat_of_nat)
  have "map_of (waiting M request k) (CSeq (word_of_nat (k + 2))) = None"
    using assms(2) Suc.prems by (intro map_of_waiting) auto
  then have "fwd_handle_request M (numbered M request (k + 2)) (expecting_1 n tx (waiting M request k)) =
      ((expecting_1 n tx (waiting M request (Suc k))), Ok ())"
    using near by (simp only: fwd_handle_request_def cseq) (simp add: expecting_1_def fwd_incoming_or_default_def)
  moreover have "length (waiting M request k) = k" by (simp add: waiting_def)
  ultimately have "fwd_step M S (expecting_1 n tx (waiting M request k))
      (FwdReceive (numbered M request (k + 2)) (Ok ())) (expecting_1 n tx (waiting M request (Suc k)))"
    using Suc.prems by (simp add: fwd_step_simps fwd_is_full_def expecting_1_def)
  then show ?case using Suc by (meson Suc_leD runs_step)
qed (auto intro: runs_nil)

lemma fwd_first_passed:
  fixes request :: "(bytes, 'm, 'u) Request"
  assumes "header_map_laws M" "sink_takes_all S" "0 < n"
  shows "\<exists>ls tx. runs (fwd_step M (S :: ('c, ('m, 'u) incoming, unit) sink_ops)) (fwd_new tx0 n) ls (expecting_1 n tx [])"
proof -
  have cseq: "request_cseq M (numbered M request 0) = Some (CSeq 0)"
    using request_cseq_numbered [OF assms(1), of 0 request] by simp
  let ?q = "numbered M request 0"
  let ?fr = "\<lparr>fwd_buffered_requests = [(CSeq 0, ?q)], fwd_incoming_sequence_number = Some (CSeq 0),
     fwd_request_buffer_size = n, fwd_tx_incoming_request = tx0\<rparr>"
  have one: "fwd_step M S (fwd_new tx0 n) (FwdReceive ?q (Ok ())) ?fr"
    using assms(3) by (simp add: fwd_step_simps fwd_is_full_def fwd_new_def fwd_handle_request_def
        cseq fwd_incoming_or_default_def cseq_sub_self)
  obtain tx where send: "sink_start_send S tx0 (CSeq 0, ?q) = (tx, Ok SinkReady)"
    using assms(2) by (metis prod.collapse sink_takes_all_def)
  have "wrapping_increment (CSeq 0) = CSeq 1" by code_simp
  then have "fwd_loop S (CSeq 0) [(CSeq 0, ?q)] tx0 = (Some (CSeq 1), [], tx, Ok (Ready ()))"
    using fwd_loop_cases(2) [OF _ send, of "[(CSeq 0, ?q)]"] by (simp add: fwd_loop_cases(1))
  then have two: "fwd_step M S ?fr (FwdPoll (Ready ())) (expecting_1 n tx [])"
    by (simp add: fwd_step_simps fwd_poll_def expecting_1_def)
  show ?thesis using runs_step [of "fwd_step M S", OF runs_single [of "fwd_step M S", OF one] two] by blast
qed

lemma fwd_stuck_reachable:
  fixes request :: "(bytes, 'm, 'u) Request" and S :: "('c, ('m, 'u) incoming, unit) sink_ops"
  assumes "header_map_laws M" "sink_takes_all S" "0 < n" "n \<le> 900000000"
  shows "\<exists>ls fr. runs (fwd_step M S) (fwd_new tx0 n) ls fr \<and> fwd_stuck fr"
proof -
  obtain ls tx where one: "runs (fwd_step M S) (fwd_new tx0 n) ls (expecting_1 n tx [])"
    using fwd_first_passed [OF assms(1-3)] by blast
  obtain ls' where two: "runs (fwd_step M S) (expecting_1 n tx []) ls' (expecting_1 n tx (waiting M request n))"
    using fwd_fills [OF assms(1,4) order_refl, where request = request and S = S and tx = tx] by blast
  have "map_of (waiting M request n) (CSeq 1) = None"
    using map_of_waiting [of 1 n M request] assms(4) by simp
  then have "fwd_stuck (expecting_1 n tx (waiting M request n))"
    by (simp add: fwd_stuck_def fwd_is_full_def fwd_has_requests_ready_def expecting_1_def waiting_def)
  with runs_append [of "fwd_step M S", OF two one] show ?thesis by blast
qed

subsection \<open>Properties\<close>

text \<open>
  C7. Requests reach the request handler in the order of their sequence numbers. At every moment
  of every run, what was passed on is numbered consecutively from the number of the first accepted
  request; the accepted requests are exactly those passed on and those still buffered, each of them
  once; and no more than \<open>request_buffer_size\<close> are buffered.
\<close>

theorem forwarding_in_order:
  assumes "sink_laws S" "runs (fwd_step M S) (fwd_new tx0 request_buffer_size) ls fr"
  shows "\<exists>sent. sink_accepted S (fwd_tx_incoming_request fr) = sink_accepted S tx0 @ sent
    \<and> map fst sent = cseqs_from (fst (hd (fwd_received M ls))) (length sent)
    \<and> mset (fwd_received M ls) = mset sent + mset (fwd_buffered_requests fr)
    \<and> distinct (map fst (fwd_buffered_requests fr))
    \<and> length (fwd_buffered_requests fr) \<le> request_buffer_size"
proof -
  obtain sent where "fwd_inv M S tx0 request_buffer_size ls fr sent"
    using fwd.inv_runs [OF assms(2)] assms(1) by blast
  then show ?thesis
    by (intro exI [of _ sent]) (auto simp: fwd_inv_def split: option.splits)
qed

text \<open>Requests 1 and 0 arrive in that order, then 2.\<close>

definition demo_request :: "(bytes, headers, unit) Request" where
  "demo_request = \<lparr>req_body = [], req_headers = [], req_method = Play, req_uri = None, req_version = Rtsp2_0\<rparr>"

definition demo_channel :: "((headers, unit) incoming list, (headers, unit) incoming, unit) sink_ops" where
  "demo_channel = list_sink 5"

lemma demo_channel_laws: "sink_laws demo_channel" "sink_accepted demo_channel l = l"
  by (simp_all add: demo_channel_def list_sink_laws) (simp add: list_sink_def)

lemma forwarding_in_order_witness:
  "\<exists>ls fr sent. runs (fwd_step list_headers demo_channel) (fwd_new [] 4) ls fr \<and> fwd_received list_headers ls \<noteq> []
    \<and> fwd_tx_incoming_request fr = sent
    \<and> map fst sent = cseqs_from (fst (hd (fwd_received list_headers ls))) (length sent)"
proof -
  let ?q = "numbered list_headers demo_request 7"
  let ?fr = "fwd_new [] 4 \<lparr>fwd_incoming_sequence_number := Some (CSeq 7), fwd_buffered_requests := [(CSeq 7, ?q)]\<rparr>"
  have "fwd_step list_headers demo_channel (fwd_new [] 4) (FwdReceive ?q (Ok ())) ?fr"
    using request_cseq_numbered [OF list_headers_laws, of 7 demo_request]
    by (simp add: fwd_step_simps fwd_is_full_def fwd_new_def fwd_handle_request_def
        fwd_incoming_or_default_def cseq_sub_self)
  then have run: "runs (fwd_step list_headers demo_channel) (fwd_new [] 4) [FwdReceive ?q (Ok ())] ?fr"
    by (rule runs_single)
  have "fwd_received list_headers [FwdReceive ?q (Ok ())] \<noteq> []" by simp
  with run forwarding_in_order [OF demo_channel_laws(1) run] show ?thesis
    unfolding demo_channel_laws(2) by (metis append_Nil fwd_new_def)
qed


definition endless_sink :: "('a list, 'a, 'e) sink_ops" where
  "endless_sink = \<lparr>
     sink_start_send = (\<lambda>l x. (l @ [x], Ok SinkReady)),
     sink_poll_complete = (\<lambda>l. (l, Ok (Ready ()))),
     sink_close = (\<lambda>l. (l, Ok (Ready ()))),
     sink_accepted = (\<lambda>l. l)\<rparr>"

lemma endless_sink_laws: "sink_laws endless_sink" "sink_takes_all endless_sink"
  by (simp_all add: sink_laws_def sink_takes_all_def endless_sink_def)


text \<open>
  C20. A missing request can stop the connection. For every buffer size there is a run after which
  the buffer is full while the expected request is not in it, although the channel to the handler
  always had room; from such a state on nothing changes any more, whatever happens. The difference
  of the sequence numbers is compared with \<open>>\<close>, so that the buffer fills up with later requests
  before the expected one arrives.
\<close>

theorem forwarding_can_stall:
  assumes "header_map_laws M" "sink_takes_all S" "0 < n" "n \<le> 900000000"
  shows "\<exists>ls fr. runs (fwd_step M S) (fwd_new tx0 n) ls fr \<and> fwd_is_full fr \<and> \<not> fwd_has_requests_ready fr
    \<and> (\<forall>ls' fr'. runs (fwd_step M S) fr ls' fr' \<longrightarrow> fr' = fr)"
  using fwd_stuck_reachable [OF assms] fwd_stuck_runs unfolding fwd_stuck_def by blast

lemma forwarding_can_stall_witness:
  "\<exists>ls (fr :: (headers, unit, _) forwarding_receiver).
    runs (fwd_step list_headers endless_sink) (fwd_new [] 10) ls fr \<and> fwd_is_full fr"
  using forwarding_can_stall [OF list_headers_laws endless_sink_laws(2), of 10 "[]"]
  by fastforce

end
