(* ===== verification/Encoder.thy ===== *)
theory Encoder
  imports RequestDecoder ResponseDecoder
begin

text \<open>
  The encoders, \<^verbatim>\<open>rtsp-2/src/protocol/codec/encoder/request.rs\<close> and \<^verbatim>\<open>response.rs\<close>,
  and what the decoders make of their output.
\<close>

text \<open>The \<open>for\<close> loop over the headers: content lengths are skipped.\<close>

fun encode_headers :: "headers \<Rightarrow> bytes \<Rightarrow> bytes" where
  "encode_headers [] buffer = buffer"
| "encode_headers ((name, val) # iter) buffer =
     (if hname_eq name HeaderContentLength then encode_headers iter buffer
      else encode_headers iter (buffer @ canonical_name name @ '': '' @ value_as_str val @ CRLF))"

definition encode_content_length :: "bytes \<Rightarrow> bytes \<Rightarrow> bytes" where
  "encode_content_length body buffer =
     (let body_size = length body in
      if body_size > 0 then buffer @ ''Content-Length: '' @ decimal body_size @ CRLF else buffer)"

definition request_encode ::
  "'m header_map_ops \<Rightarrow> 'u uriparse_ops \<Rightarrow> (bytes, 'm, 'u) Request \<Rightarrow> bytes \<Rightarrow> bytes" where
  "request_encode M U request buffer =
     (let buffer = buffer @ method_as_str (req_method request) @ '' '' @ uri_display U (req_uri request)
            @ '' '' @ version_as_encoded (req_version request) @ CRLF;
          buffer = encode_content_length (req_body request) buffer;
          buffer = encode_headers (map_iter M (req_headers request)) buffer
      in buffer @ CRLF @ req_body request)"

definition response_encode :: "'m header_map_ops \<Rightarrow> (bytes, 'm) Response \<Rightarrow> bytes \<Rightarrow> bytes" where
  "response_encode M response buffer =
     (let buffer = buffer @ version_as_encoded (resp_version response) @ '' ''
            @ status_display (resp_status_code response) @ '' ''
            @ reason_as_str (resp_reason_phrase response) @ CRLF;
          buffer = encode_content_length (resp_body response) buffer;
          buffer = encode_headers (map_iter M (resp_headers response)) buffer
      in buffer @ CRLF @ resp_body response)"

subsection \<open>The lines that are written\<close>

definition header_line :: "HeaderName \<times> HeaderValue \<Rightarrow> bytes" where
  "header_line hv = canonical_name (fst hv) @ '': '' @ value_as_str (snd hv) @ CRLF"

definition encoded_headers :: "headers \<Rightarrow> bytes \<Rightarrow> headers" where
  "encoded_headers l body =
     (if body = [] then [] else [(HeaderContentLength, from_string_unchecked (decimal (length body)))])
     @ filter (\<lambda>(h, _). \<not> hname_eq h HeaderContentLength) l"

lemma encode_headers_lines:
  "encode_headers l buffer =
     buffer @ concat (map header_line (filter (\<lambda>(h, _). \<not> hname_eq h HeaderContentLength) l))"
  by (induction l buffer rule: encode_headers.induct) (auto simp: header_line_def)

lemma encode_all_headers:
  "encode_headers l (encode_content_length body buffer) =
     buffer @ concat (map header_line (encoded_headers l body))"
  by (simp add: encode_headers_lines encode_content_length_def encoded_headers_def header_line_def
      from_string_unchecked_def)

text \<open>A line that the decoders read back: within the limits, with no blank at the front.\<close>

definition header_line_ok :: "nat \<Rightarrow> nat \<Rightarrow> HeaderName \<times> HeaderValue \<Rightarrow> bool" where
  "header_line_ok name_max value_max hv \<longleftrightarrow>
     (let v = value_as_str (snd hv) in
      header_valid (fst hv) \<and> length (canonical_name (fst hv)) \<le> name_max
      \<and> value_valid (snd hv) \<and> length v + 1 \<le> value_max \<and> (v = [] \<or> \<not> is_blank (hd v)))"

lemma token_last_not_blank: "is_token s \<Longrightarrow> trim_header_name s = s"
proof -
  assume tok: "is_token s"
  then have "s \<noteq> []" "\<not> is_blank (last s)"
    using token_no_delims [OF tok] by (auto simp: is_token_iff is_blank_def dest: last_in_set)
  then have "dropWhile is_blank (rev s) = rev s"
    by (simp add: dropWhile_eq_self_iff hd_rev)
  then show ?thesis by (simp add: trim_header_name_eq)
qed

lemma scan_name_line:
  assumes "header_valid h" "length (canonical_name h) \<le> limit"
  shows "scan_header_name limit (canonical_name h @ COLON # x) = Complete (Some (canonical_name h))"
proof (rule scan_header_name_found)
  have tok: "is_token (canonical_name h)" by (rule canonical_valid [OF assms(1)])
  show "COLON \<notin> set (canonical_name h)" by (rule token_no_delims [OF tok])
  show "canonical_name h = [] \<or> hd (canonical_name h) \<noteq> CR"
    using token_no_delims(3) [OF tok] hd_in_set by fastforce
qed (rule assms)

lemma value_no_line_end:
  assumes "value_bytes v" "j < length v"
  shows "\<not> line_end (v @ x) j"
proof
  assume le: "line_end (v @ x) j"
  then have "v ! j = CR" using assms(2) by (simp add: line_end_def eol_at_def nth_append)
  then have "v = take j v @ CR # drop (Suc j) v"
    using id_take_nth_drop [OF assms(2)] by simp
  with assms(1) obtain e r where v: "drop (Suc j) v = LF # e # r" "is_blank e"
    using value_bytes_no_break by blast
  then have "j + 2 < length v" by (metis Suc_eq_plus1 add_2_eq_Suc' length_drop length_Cons
      less_diff_conv zero_less_Suc add.commute One_nat_def plus_1_eq_Suc Suc_lessI add_Suc_right not_less_eq)
  moreover have "v ! (j + 2) = e"
    using v(1) nth_drop [of "Suc j" v 1] \<open>j + 2 < length v\<close> by simp
  ultimately show False using le v(2) by (simp add: line_end_def fold_at_def nth_append)
qed

lemma scan_value_line:
  assumes "value_bytes v" "length v + 1 \<le> limit" "x \<noteq> []" "\<not> is_blank (hd x)"
  shows "scan_header_value limit (SP # v @ CRLF @ x) = Complete (SP # v)"
proof -
  let ?b = "(SP # v) @ CRLF @ x"
  have "value_bytes (SP # v)" using assms(1) by (simp add: text_byte_def SP_def byte_consts)
  then have "\<not> line_end ?b j" if "j < length v + 1" for j
    using value_no_line_end [of "SP # v" j] that by simp
  moreover have "line_end ?b (length v + 1)"
    using assms(3,4) eol_at_shift [of "SP # v" "CRLF @ x" 0] fold_at_shift [of "SP # v" "CRLF @ x" 0]
    by (cases x) (simp_all add: line_end_def eol_at_def [of "CR # _"] fold_at_def [of "CR # _"])
  ultimately have "first_index (line_end ?b) (limit + 1) = Some (length v + 1)"
    using assms(2) by (simp add: first_index_Some)
  with assms(3) show ?thesis by (cases x) (simp_all add: scan_header_value_def)
qed

lemma trim_value_line: "v = [] \<or> \<not> is_blank (hd v) \<Longrightarrow> trim_header_value (SP # v) = v"
  by (auto simp: trim_header_value_eq split: list.splits)

text \<open>The parts of a well-formed line, as both decoders see them.\<close>

lemma header_line_parts:
  assumes ok: "header_line_ok name_max value_max hv" and x: "x \<noteq> []" "\<not> is_blank (hd x)"
  defines "n \<equiv> canonical_name (fst hv)" and "v \<equiv> SP # value_as_str (snd hv)"
  shows "scan_header_name name_max (header_line hv @ x) = Complete (Some n)"
    "scan_header_value value_max (drop (length n + 1) (header_line hv @ x)) = Complete v"
    "header_try_from (trim_header_name n) = Ok (fst hv)"
    "value_try_from (trim_header_value v) = Ok (snd hv)"
    "drop (length v + 2) (drop (length n + 1) (header_line hv @ x)) = x"
proof -
  from ok have valid: "header_valid (fst hv)" "length n \<le> name_max" "value_valid (snd hv)"
    "length (value_as_str (snd hv)) + 1 \<le> value_max"
    "value_as_str (snd hv) = [] \<or> \<not> is_blank (hd (value_as_str (snd hv)))"
    by (auto simp: header_line_ok_def n_def Let_def)
  have line: "header_line hv @ x = n @ COLON # v @ CRLF @ x"
    by (simp add: header_line_def n_def v_def byte_consts)
  show "scan_header_name name_max (header_line hv @ x) = Complete (Some n)"
    using scan_name_line valid(1,2) by (simp add: line n_def)
  show "scan_header_value value_max (drop (length n + 1) (header_line hv @ x)) = Complete v"
    using scan_value_line [of _ value_max x] valid(3,4) x by (simp add: line v_def value_valid_def)
  show "header_try_from (trim_header_name n) = Ok (fst hv)"
    using canonical_valid(2) [OF valid(1)] header_parse_canonical [OF valid(1)]
    by (simp add: n_def token_last_not_blank)
  show "value_try_from (trim_header_value v) = Ok (snd hv)"
    using valid(3,5) by (simp add: v_def trim_value_line value_try_from_Ok)
  show "drop (length v + 2) (drop (length n + 1) (header_line hv @ x)) = x"
    by (simp add: line)
qed

definition append_headers :: "'m header_map_ops \<Rightarrow> headers \<Rightarrow> 'm \<Rightarrow> 'm" where
  "append_headers M l m = foldl (\<lambda>m (h, v). map_append M m h v) m l"

lemma append_headers_simps [simp]:
  "append_headers M [] m = m"
  "append_headers M (hv # l) m = append_headers M l (map_append M m (fst hv) (snd hv))"
  by (simp_all add: append_headers_def case_prod_beta)

text \<open>A map stores each key once, so equal names of its entries are the same name.\<close>

definition keys_consistent :: "headers \<Rightarrow> bool" where
  "keys_consistent l \<longleftrightarrow> (\<forall>(h, _) \<in> set l. \<forall>(h', _) \<in> set l. hname_eq h h' \<longrightarrow> h = h')"

lemma stored_key_consistent:
  assumes "keys_consistent (l @ (h, v) # r)"
  shows "stored_key l h = h"
proof (cases "find (\<lambda>(k, _). hname_eq k h) l")
  case (Some kv)
  then have "kv \<in> set l" "hname_eq (fst kv) h" by (auto simp: find_Some_iff case_prod_beta)
  with assms have "fst kv = h" by (cases kv) (auto simp: keys_consistent_def)
  with Some show ?thesis by (cases kv) (simp add: stored_key_def)
qed (simp add: stored_key_def)

lemma append_headers_iter:
  assumes "header_map_laws M"
  shows "keys_consistent (map_iter M m @ l) \<Longrightarrow> map_iter M (append_headers M l m) = map_iter M m @ l"
proof (induction l arbitrary: m)
  case (Cons hv l)
  have "map_iter M (map_append M m (fst hv) (snd hv)) = map_iter M m @ [hv]"
    using stored_key_consistent [of "map_iter M m" "fst hv" "snd hv" l] Cons.prems
    by (simp add: header_map_lawsD [OF assms])
  with Cons show ?case by simp
qed simp

lemma append_headers_len:
  assumes "header_map_laws M"
  shows "map_values_len M (append_headers M l m) = map_values_len M m + length l"
  by (induction l arbitrary: m) (simp_all add: header_map_lawsD [OF assms])

lemma concat_lines_hd:
  assumes "\<forall>hv \<in> set l. header_valid (fst hv)" "x \<noteq> []" "\<not> is_blank (hd x)"
  shows "concat (map header_line l) @ x \<noteq> [] \<and> \<not> is_blank (hd (concat (map header_line l) @ x))"
proof (cases l)
  case (Cons hv l')
  then have "is_token (canonical_name (fst hv))" using assms(1) canonical_valid(2) by simp
  then obtain c s where cs: "canonical_name (fst hv) = c # s" "token_char c"
    by (cases "canonical_name (fst hv)") (auto simp: is_token_iff)
  then have "\<not> is_blank c" by (auto simp: is_blank_def)
  with Cons cs show ?thesis by (simp add: header_line_def)
qed (use assms in simp)

text \<open>What the end of the headers finds as the content length.\<close>

lemma encoded_content_length:
  assumes laws: "header_map_laws M" and keys: "keys_consistent (encoded_headers l body)"
    and n: "length body \<le> MAX_CONTENT_LENGTH"
  shows "typed_try_get M content_length_header_name content_length_decode
      (append_headers M (encoded_headers l body) (map_default M))
    = Ok (if body = [] then None else Some (ContentLength (length body)))"
proof -
  let ?r = "filter (\<lambda>(h, _). \<not> hname_eq h HeaderContentLength) l"
  have "values_of ?r HeaderContentLength = []"
    by (auto simp: values_of_def filter_empty_conv)
  moreover have "map_iter M (append_headers M (encoded_headers l body) (map_default M)) = encoded_headers l body"
    using append_headers_iter [OF laws] keys by (simp add: header_map_lawsD [OF laws])
  ultimately have "map_get_all M (append_headers M (encoded_headers l body) (map_default M)) HeaderContentLength
      = (if body = [] then [] else content_length_encode (ContentLength (length body)))"
    by (simp add: header_map_lawsD [OF laws] encoded_headers_def values_of_append content_length_encode_def)
  moreover have "content_length_decode [] = Ok None" by (simp add: content_length_decode_def)
  moreover have "content_length_decode (content_length_encode (ContentLength (length body)))
      = Ok (Some (ContentLength (length body)))"
    using n by (intro content_length_decode_encode) (simp add: content_length_valid_def)
  ultimately show ?thesis by (simp add: typed_try_get_def content_length_header_name_def)
qed

subsection \<open>Decoding an encoded request\<close>

lemma rq_header_line_step:
  assumes st: "rqd_state d = RqStHeader"
    and ok: "header_line_ok (rqc_header_name_max_length (rqd_config d)) (rqc_header_value_max_length (rqd_config d)) hv"
    and room: "map_values_len M (rqb_headers (rqd_builder d)) < rqc_header_max_count (rqd_config d)"
    and x: "x \<noteq> []" "\<not> is_blank (hd x)"
  shows "rq_step M U d (header_line hv @ x) =
    Some (d\<lparr>rqd_builder := request_header M (fst hv) (snd hv) (rqd_builder d)\<rparr>, x, Complete ())"
  using room header_line_parts [OF ok x]
  by (simp add: rq_step_eq(4) [OF st] rq_decode_header_def rq_scans decode_result_map_error_def Let_def)

lemma rq_headers_loop:
  "rqd_state d = RqStHeader \<Longrightarrow>
   \<forall>hv \<in> set l. header_line_ok (rqc_header_name_max_length (rqd_config d))
     (rqc_header_value_max_length (rqd_config d)) hv \<Longrightarrow>
   map_values_len M (rqb_headers (rqd_builder d)) + length l \<le> rqc_header_max_count (rqd_config d) \<Longrightarrow>
   header_map_laws M \<Longrightarrow> x \<noteq> [] \<Longrightarrow> \<not> is_blank (hd x) \<Longrightarrow>
   rq_loop M U sz d (concat (map header_line l) @ x) =
     rq_loop M U sz (d\<lparr>rqd_builder := (rqd_builder d)
       \<lparr>rqb_headers := append_headers M l (rqb_headers (rqd_builder d))\<rparr>\<rparr>) x"
proof (induction l arbitrary: d)
  case (Cons hv l)
  let ?d = "d\<lparr>rqd_builder := request_header M (fst hv) (snd hv) (rqd_builder d)\<rparr>"
  have "\<forall>hv \<in> set l. header_valid (fst hv)"
    using Cons.prems(2) by (auto simp: header_line_ok_def Let_def)
  note y = concat_lines_hd [OF this Cons.prems(5,6)]
  have "rq_step M U d (header_line hv @ (concat (map header_line l) @ x)) =
      Some (?d, concat (map header_line l) @ x, Complete ())"
    using Cons.prems y by (intro rq_header_line_step) simp_all
  then have "rq_loop M U sz d (concat (map header_line (hv # l)) @ x)
      = rq_loop M U sz ?d (concat (map header_line l) @ x)"
    using Cons.prems(1) by (simp add: rq_loop_running rq_running_def)
  also have "\<dots> = rq_loop M U sz (?d\<lparr>rqd_builder := (rqd_builder ?d)
       \<lparr>rqb_headers := append_headers M l (rqb_headers (rqd_builder ?d))\<rparr>\<rparr>) x"
    using Cons.prems by (intro Cons.IH) (simp_all add: request_header_def header_map_lawsD)
  finally show ?case by (simp add: request_header_def)
qed (simp add: request_header_def)

text \<open>A request that the decoder with configuration \<open>c\<close> is meant to read.\<close>

definition request_encodable ::
  "'m header_map_ops \<Rightarrow> 'u uriparse_ops \<Rightarrow> request_config \<Rightarrow> (bytes, 'm, 'u) Request \<Rightarrow> bool" where
  "request_encodable M U c r \<longleftrightarrow>
     (let l = encoded_headers (map_iter M (req_headers r)) (req_body r); u = uri_display U (req_uri r) in
      method_valid (req_method r) \<and> length (method_as_str (req_method r)) \<le> rqc_method_max_length c
      \<and> uri_try_from U u = Some (Ok (req_uri r)) \<and> SP \<notin> set u \<and> length u \<le> rqc_uri_max_length c
      \<and> req_version r = Rtsp2_0
      \<and> list_all (header_line_ok (rqc_header_name_max_length c) (rqc_header_value_max_length c)) l
      \<and> keys_consistent l \<and> length l \<le> rqc_header_max_count c
      \<and> length (req_body r) \<le> rqc_body_max_length c \<and> length (req_body r) \<le> MAX_CONTENT_LENGTH)"

lemma position_SP_found:
  assumes "SP \<notin> set p" "length p \<le> m"
  shows "position (\<lambda>byte. byte = SP) (take (m + 1) (p @ SP # x)) = Some (length p)"
proof -
  have "take (m + 1) (p @ SP # x) = p @ SP # take (m - length p) x"
    using assms(2) by (simp add: take_Cons')
  then show ?thesis using assms(1) by (simp only:) (rule position_found, auto)
qed

lemma method_no_space: "method_valid m \<Longrightarrow> SP \<notin> set (method_as_str m)"
proof (cases m)
  case (MethodExtension s)
  then show "method_valid m \<Longrightarrow> ?thesis" using token_no_delims(1) by auto
qed (simp_all add: SP_def)

lemma rq_method_step:
  assumes "rqd_state d = RqStMethod" "method_valid m"
    "length (method_as_str m) \<le> rqc_method_max_length (rqd_config d)"
  shows "rq_loop M U sz d (method_as_str m @ SP # x) =
    rq_loop M U sz (d\<lparr>rqd_builder := request_set_method m (rqd_builder d), rqd_state := RqStURI\<rparr>) x"
proof -
  have "rq_decode_method d (method_as_str m @ SP # x) =
      (d\<lparr>rqd_builder := request_set_method m (rqd_builder d), rqd_state := RqStURI\<rparr>, x, Complete ())"
    unfolding rq_decode_method_def Let_def position_SP_found [OF method_no_space [OF assms(2)] assms(3)]
    by (simp add: method_parse_print [OF assms(2)])
  then show ?thesis using assms(1) by (simp add: rq_loop_running [of d] rq_running_def rq_step_eq)
qed

lemma rq_uri_step:
  assumes "rqd_state d = RqStURI" "uri_try_from U p = Some (Ok u)" "SP \<notin> set p"
    "length p \<le> rqc_uri_max_length (rqd_config d)"
  shows "rq_loop M U sz d (p @ SP # x) =
    rq_loop M U sz (d\<lparr>rqd_builder := request_set_uri u (rqd_builder d), rqd_state := RqStVersion\<rparr>) x"
proof -
  have "rq_decode_uri U d (p @ SP # x) =
      Some (d\<lparr>rqd_builder := request_set_uri u (rqd_builder d), rqd_state := RqStVersion\<rparr>, x, Complete ())"
    unfolding rq_decode_uri_def Let_def position_SP_found [OF assms(3,4)]
    by (simp add: assms(2))
  then show ?thesis using assms(1) by (simp add: rq_loop_running [of d] rq_running_def rq_step_eq)
qed

lemma rq_version_step:
  assumes "rqd_state d = RqStVersion"
  shows "rq_loop M U sz d (version_as_encoded Rtsp2_0 @ CRLF @ x) =
    rq_loop M U sz (d\<lparr>rqd_builder := request_set_version Rtsp2_0 (rqd_builder d), rqd_state := RqStHeader\<rparr>) x"
proof -
  have len: "length (version_as_encoded Rtsp2_0) = 8" by (simp add: version_as_encoded_def)
  then have "rq_decode_version d (version_as_encoded Rtsp2_0 @ CRLF @ x) =
      (d\<lparr>rqd_builder := request_set_version Rtsp2_0 (rqd_builder d), rqd_state := RqStHeader\<rparr>, x, Complete ())"
    by (simp add: rq_decode_version_def version_roundtrip)
  then show ?thesis
    using assms by (simp add: rq_loop_running [of d] rq_running_def rq_step_eq)
qed

lemma rq_end_step:
  assumes "rqd_state d = RqStHeader"
    and "typed_try_get M content_length_header_name content_length_decode (rqb_headers (rqd_builder d))
      = Ok (if body = [] then None else Some (ContentLength (length body)))"
    and "length body \<le> rqc_body_max_length (rqd_config d)"
  shows "rq_loop M U sz d (CRLF @ body @ x) =
    rq_loop M U sz (d\<lparr>rqd_content_length := ContentLength (length body), rqd_state := RqStEnd,
      rqd_builder := request_set_body body (rqd_builder d)\<rparr>) x"
proof -
  let ?d = "d\<lparr>rqd_state := RqStBody, rqd_content_length := ContentLength (length body)\<rparr>"
  have "rq_decode_header M d (CRLF @ body @ x) = (?d, body @ x, Complete ())"
    using assms(2,3)
    by (auto simp: rq_decode_header_def rq_scans scan_header_name_def decode_result_map_error_def
        content_length_default_def Let_def split: if_splits)
  then have "rq_loop M U sz d (CRLF @ body @ x) = rq_loop M U sz ?d (body @ x)"
    using assms(1) by (simp add: rq_loop_running [of d] rq_running_def rq_step_eq)
  also have "\<dots> = rq_loop M U sz (?d\<lparr>rqd_state := RqStEnd, rqd_builder := request_set_body body (rqd_builder d)\<rparr>) x"
    by (simp add: rq_loop_running [of ?d] rq_running_def rq_step_eq rq_decode_body_def)
  finally show ?thesis by simp
qed

lemma request_encode_split:
  "req_version r = Rtsp2_0 \<Longrightarrow> request_encode M U r [] @ x =
     method_as_str (req_method r) @ SP # (uri_display U (req_uri r) @ SP # (version_as_encoded Rtsp2_0 @ CRLF @
       (concat (map header_line (encoded_headers (map_iter M (req_headers r)) (req_body r)))
         @ (CRLF @ req_body r @ x))))"
  by (simp add: request_encode_def encode_all_headers Let_def SP_def)

text \<open>A decoder between two messages: new, or one that has just completed a request.\<close>

definition rq_ready :: "'m header_map_ops \<Rightarrow> request_config \<Rightarrow> ('m, 'u) request_decoder \<Rightarrow> bool" where
  "rq_ready M c d \<longleftrightarrow> rqd_builder d = request_builder_new M \<and> rqd_config d = c \<and> rqd_state d = RqStMethod"

lemma rq_ready_new [simp]: "rq_ready M c (request_decoder_with_config M c)"
  by (simp add: rq_ready_def request_decoder_with_config_def)

lemma request_encode_decode:
  fixes M :: "'m header_map_ops" and d :: "('m, 'u) request_decoder"
  assumes laws: "header_map_laws M" and enc: "request_encodable M U c r" and ready: "rq_ready M c d"
  shows "\<exists>d' r'. request_decode M U d (request_encode M U r [] @ x)
      = Some (d', Complete r', length (request_encode M U r []))
    \<and> rq_ready M c d'
    \<and> req_method r' = req_method r \<and> req_uri r' = req_uri r \<and> req_version r' = req_version r
    \<and> req_body r' = req_body r
    \<and> map_iter M (req_headers r') = encoded_headers (map_iter M (req_headers r)) (req_body r)"
proof -
  define l where "l = encoded_headers (map_iter M (req_headers r)) (req_body r)"
  define headers where "headers = append_headers M l (map_default M)"
  define b where "b = \<lparr>rqb_body = Some (req_body r), rqb_headers = headers, rqb_method = Some (req_method r),
    rqb_uri = Some (req_uri r), rqb_version = Rtsp2_0\<rparr>"
  define sz where "sz = length (request_encode M U r [] @ x)"
  note e = enc [unfolded request_encodable_def Let_def, folded l_def]
  have cl: "typed_try_get M content_length_header_name content_length_decode headers
      = Ok (if req_body r = [] then None else Some (ContentLength (length (req_body r))))"
    unfolding headers_def l_def using e by (intro encoded_content_length [OF laws]) (auto simp: l_def)
  have iter: "map_iter M headers = l"
    using append_headers_iter [OF laws, of "map_default M" l] e by (simp add: headers_def header_map_lawsD [OF laws])
  obtain n where d: "d = \<lparr>rqd_builder = request_builder_new M, rqd_config = c, rqd_content_length = n,
      rqd_state = RqStMethod\<rparr>"
    using ready by (cases d) (simp add: rq_ready_def)
  have "rq_loop M U sz d (request_encode M U r [] @ x) =
      rq_loop M U sz (\<lparr>rqd_builder = \<lparr>rqb_body = None, rqb_headers = map_default M,
        rqb_method = Some (req_method r), rqb_uri = Some (req_uri r), rqb_version = Rtsp2_0\<rparr>,
        rqd_config = c, rqd_content_length = n, rqd_state = RqStHeader\<rparr>)
      (concat (map header_line l) @ (CRLF @ req_body r @ x))"
    using e
    by (simp add: request_encode_split rq_method_step rq_uri_step rq_version_step request_set_method_def
        request_set_uri_def request_set_version_def d request_builder_new_def
        del: append_Cons append_assoc flip: l_def)
  also have "\<dots> = rq_loop M U sz (\<lparr>rqd_builder = \<lparr>rqb_body = None, rqb_headers = headers,
        rqb_method = Some (req_method r), rqb_uri = Some (req_uri r), rqb_version = Rtsp2_0\<rparr>,
        rqd_config = c, rqd_content_length = n, rqd_state = RqStHeader\<rparr>)
      (CRLF @ req_body r @ x)"
    using e laws by (subst rq_headers_loop) (simp_all add: list_all_iff header_map_lawsD headers_def)
  also have "\<dots> = rq_loop M U sz \<lparr>rqd_builder = b, rqd_config = c,
        rqd_content_length = ContentLength (length (req_body r)), rqd_state = RqStEnd\<rparr> x"
    using e cl by (subst rq_end_step) (simp_all add: request_set_body_def b_def)
  also have "\<dots> = Some (\<lparr>rqd_builder = request_builder_new M, rqd_config = c,
        rqd_content_length = ContentLength (length (req_body r)), rqd_state = RqStMethod\<rparr>,
      Complete \<lparr>req_body = req_body r, req_headers = headers, req_method = req_method r,
        req_uri = req_uri r, req_version = Rtsp2_0\<rparr>, sz - length x)"
    by (subst rq_loop.simps) (simp add: b_def request_build_def)
  finally show ?thesis
    using e iter by (simp add: request_decode_def sz_def l_def rq_ready_def)
qed

subsection \<open>Decoding an encoded response\<close>

lemma rs_header_line_step:
  assumes st: "rsd_state d = RsStHeader"
    and ok: "header_line_ok (rsc_header_name_max_length (rsd_config d)) (rsc_header_value_max_length (rsd_config d)) hv"
    and room: "map_values_len M (rsb_headers (rsd_builder d)) < rsc_header_max_count (rsd_config d)"
    and x: "x \<noteq> []" "\<not> is_blank (hd x)"
  shows "rs_step M d (header_line hv @ x) =
    Some (d\<lparr>rsd_builder := response_header M (fst hv) (snd hv) (rsd_builder d)\<rparr>, x, Complete ())"
  using room header_line_parts [OF ok x]
  by (simp add: rs_step_eq(4) [OF st] rs_decode_header_def rs_scans decode_result_map_error_def Let_def)

lemma rs_headers_loop:
  "rsd_state d = RsStHeader \<Longrightarrow>
   \<forall>hv \<in> set l. header_line_ok (rsc_header_name_max_length (rsd_config d))
     (rsc_header_value_max_length (rsd_config d)) hv \<Longrightarrow>
   map_values_len M (rsb_headers (rsd_builder d)) + length l \<le> rsc_header_max_count (rsd_config d) \<Longrightarrow>
   header_map_laws M \<Longrightarrow> x \<noteq> [] \<Longrightarrow> \<not> is_blank (hd x) \<Longrightarrow>
   rs_loop M sz d (concat (map header_line l) @ x) =
     rs_loop M sz (d\<lparr>rsd_builder := (rsd_builder d)
       \<lparr>rsb_headers := append_headers M l (rsb_headers (rsd_builder d))\<rparr>\<rparr>) x"
proof (induction l arbitrary: d)
  case (Cons hv l)
  let ?d = "d\<lparr>rsd_builder := response_header M (fst hv) (snd hv) (rsd_builder d)\<rparr>"
  have "\<forall>hv \<in> set l. header_valid (fst hv)"
    using Cons.prems(2) by (auto simp: header_line_ok_def Let_def)
  note y = concat_lines_hd [OF this Cons.prems(5,6)]
  have "rs_step M d (header_line hv @ (concat (map header_line l) @ x)) =
      Some (?d, concat (map header_line l) @ x, Complete ())"
    using Cons.prems y by (intro rs_header_line_step) simp_all
  then have "rs_loop M sz d (concat (map header_line (hv # l)) @ x)
      = rs_loop M sz ?d (concat (map header_line l) @ x)"
    using Cons.prems(1) by (simp add: rs_loop_running rs_running_def)
  also have "\<dots> = rs_loop M sz (?d\<lparr>rsd_builder := (rsd_builder ?d)
       \<lparr>rsb_headers := append_headers M l (rsb_headers (rsd_builder ?d))\<rparr>\<rparr>) x"
    using Cons.prems by (intro Cons.IH) (simp_all add: response_header_def header_map_lawsD)
  finally show ?case by (simp add: response_header_def)
qed (simp add: response_header_def)

text \<open>A response that the decoder with configuration \<open>c\<close> is meant to read.\<close>

definition response_encodable :: "'m header_map_ops \<Rightarrow> response_config \<Rightarrow> (bytes, 'm) Response \<Rightarrow> bool" where
  "response_encodable M c r \<longleftrightarrow>
     (let l = encoded_headers (map_iter M (resp_headers r)) (resp_body r);
          p = resp_reason_phrase r in
      status_valid (resp_status_code r) \<and> reason_valid p
      \<and> built_phrase (resp_status_code r) (Some p) = Some p
      \<and> length (reason_as_str p) \<le> rsc_reason_phrase_max_length c
      \<and> resp_version r = Rtsp2_0
      \<and> list_all (header_line_ok (rsc_header_name_max_length c) (rsc_header_value_max_length c)) l
      \<and> keys_consistent l \<and> length l \<le> rsc_header_max_count c
      \<and> length (resp_body r) \<le> rsc_body_max_length c \<and> length (resp_body r) \<le> MAX_CONTENT_LENGTH)"

lemma position_eol_found:
  assumes "CR \<notin> set p" "length p < m"
  shows "position (\<lambda>w. w = (CR, LF)) (take m (windows2 (p @ CRLF @ x))) = Some (length p)"
proof -
  have "(p @ CRLF @ x) ! j = CR \<longleftrightarrow> False" if "j < length p" for j
    using that assms(1) by (metis nth_append nth_mem)
  then show ?thesis
    using assms(2) by (auto simp: position_Some_iff nth_windows2 nth_append)
qed

lemma rs_version_step:
  assumes "rsd_state d = RsStVersion"
  shows "rs_loop M sz d (version_as_encoded Rtsp2_0 @ SP # x) =
    rs_loop M sz (d\<lparr>rsd_builder := response_set_version Rtsp2_0 (rsd_builder d), rsd_state := RsStStatusCode\<rparr>) x"
proof -
  have len: "length (version_as_encoded Rtsp2_0) = 8" by (simp add: version_as_encoded_def)
  then have "rs_decode_version d (version_as_encoded Rtsp2_0 @ SP # x) =
      (d\<lparr>rsd_builder := response_set_version Rtsp2_0 (rsd_builder d), rsd_state := RsStStatusCode\<rparr>, x, Complete ())"
    by (simp add: rs_decode_version_def version_roundtrip nth_append)
  then show ?thesis
    using assms by (simp add: rs_loop_running [of d] rs_running_def rs_step_eq)
qed

lemma rs_status_code_step:
  assumes "rsd_state d = RsStStatusCode" "status_valid s"
  shows "rs_loop M sz d (status_display s @ SP # x) =
    rs_loop M sz (d\<lparr>rsd_builder := response_set_status_code s (rsd_builder d), rsd_state := RsStReasonPhrase\<rparr>) x"
proof -
  note len = length_status_display [OF assms(2)]
  then have "rs_decode_status_code d (status_display s @ SP # x) =
      (d\<lparr>rsd_builder := response_set_status_code s (rsd_builder d), rsd_state := RsStReasonPhrase\<rparr>, x, Complete ())"
    by (simp add: rs_decode_status_code_def status_display_parse [OF assms(2)] nth_append)
  then show ?thesis
    using assms(1) by (simp add: rs_loop_running [of d] rs_running_def rs_step_eq)
qed

lemma rs_reason_phrase_step:
  assumes "rsd_state d = RsStReasonPhrase" "reason_valid p"
    "length (reason_as_str p) \<le> rsc_reason_phrase_max_length (rsd_config d)"
  shows "rs_loop M sz d (reason_as_str p @ CRLF @ x) =
    rs_loop M sz (d\<lparr>rsd_builder := response_set_reason_phrase (Some p) (rsd_builder d), rsd_state := RsStHeader\<rparr>) x"
proof -
  have pos: "position (\<lambda>w. w = (CR, LF)) (take (rsc_reason_phrase_max_length (rsd_config d) + 2)
      (windows2 (reason_as_str p @ CRLF @ x))) = Some (length (reason_as_str p))"
    using reason_no_eol [OF assms(2)] assms(3) by (intro position_eol_found) simp_all
  have "reason_try_from (reason_as_str p) = Ok p"
    using assms(2) by (simp add: reason_try_from_Ok)
  then have "rs_decode_reason_phrase d (reason_as_str p @ CRLF @ x) =
      (d\<lparr>rsd_builder := response_set_reason_phrase (Some p) (rsd_builder d), rsd_state := RsStHeader\<rparr>, x, Complete ())"
    unfolding rs_decode_reason_phrase_def Let_def pos by simp
  then show ?thesis
    using assms(1) by (simp add: rs_loop_running [of d] rs_running_def rs_step_eq)
qed

lemma rs_end_step:
  assumes "rsd_state d = RsStHeader"
    and "typed_try_get M content_length_header_name content_length_decode (rsb_headers (rsd_builder d))
      = Ok (if body = [] then None else Some (ContentLength (length body)))"
    and "length body \<le> rsc_body_max_length (rsd_config d)"
  shows "rs_loop M sz d (CRLF @ body @ x) =
    rs_loop M sz (d\<lparr>rsd_content_length := ContentLength (length body), rsd_state := RsStEnd,
      rsd_builder := response_set_body body (rsd_builder d)\<rparr>) x"
proof -
  let ?d = "d\<lparr>rsd_state := RsStBody, rsd_content_length := ContentLength (length body)\<rparr>"
  have "rs_decode_header M d (CRLF @ body @ x) = (?d, body @ x, Complete ())"
    using assms(2,3)
    by (auto simp: rs_decode_header_def rs_scans scan_header_name_def decode_result_map_error_def
        content_length_default_def Let_def split: if_splits)
  then have "rs_loop M sz d (CRLF @ body @ x) = rs_loop M sz ?d (body @ x)"
    using assms(1) by (simp add: rs_loop_running [of d] rs_running_def rs_step_eq)
  also have "\<dots> = rs_loop M sz (?d\<lparr>rsd_state := RsStEnd, rsd_builder := response_set_body body (rsd_builder d)\<rparr>) x"
    by (simp add: rs_loop_running [of ?d] rs_running_def rs_step_eq rs_decode_body_def)
  finally show ?thesis by simp
qed

lemma response_encode_split:
  "resp_version r = Rtsp2_0 \<Longrightarrow> response_encode M r [] @ x =
     version_as_encoded Rtsp2_0 @ SP # (status_display (resp_status_code r) @ SP #
       (reason_as_str (resp_reason_phrase r) @ CRLF @
         (concat (map header_line (encoded_headers (map_iter M (resp_headers r)) (resp_body r)))
           @ (CRLF @ resp_body r @ x))))"
  by (simp add: response_encode_def encode_all_headers Let_def SP_def)

definition rs_ready :: "'m header_map_ops \<Rightarrow> response_config \<Rightarrow> 'm response_decoder \<Rightarrow> bool" where
  "rs_ready M c d \<longleftrightarrow> rsd_builder d = response_builder_new M \<and> rsd_config d = c \<and> rsd_state d = RsStVersion"

lemma rs_ready_new [simp]: "rs_ready M c (response_decoder_with_config M c)"
  by (simp add: rs_ready_def response_decoder_with_config_def)

lemma response_encode_decode:
  fixes M :: "'m header_map_ops"
  assumes laws: "header_map_laws M" and enc: "response_encodable M c r" and ready: "rs_ready M c d"
  shows "\<exists>d' r'. response_decode M d (response_encode M r [] @ x)
      = Some (d', Complete r', length (response_encode M r []))
    \<and> rs_ready M c d'
    \<and> resp_status_code r' = resp_status_code r \<and> resp_reason_phrase r' = resp_reason_phrase r
    \<and> resp_version r' = resp_version r \<and> resp_body r' = resp_body r
    \<and> map_iter M (resp_headers r') = encoded_headers (map_iter M (resp_headers r)) (resp_body r)"
proof -
  define l where "l = encoded_headers (map_iter M (resp_headers r)) (resp_body r)"
  define headers where "headers = append_headers M l (map_default M)"
  define b where "b = \<lparr>rsb_body = Some (resp_body r), rsb_custom_reason_phrase = Some (resp_reason_phrase r),
    rsb_headers = headers, rsb_status_code = resp_status_code r, rsb_version = Rtsp2_0\<rparr>"
  define sz where "sz = length (response_encode M r [] @ x)"
  note e = enc [unfolded response_encodable_def Let_def, folded l_def]
  have cl: "typed_try_get M content_length_header_name content_length_decode headers
      = Ok (if resp_body r = [] then None else Some (ContentLength (length (resp_body r))))"
    unfolding headers_def l_def using e by (intro encoded_content_length [OF laws]) (auto simp: l_def)
  have iter: "map_iter M headers = l"
    using append_headers_iter [OF laws, of "map_default M" l] e by (simp add: headers_def header_map_lawsD [OF laws])
  obtain n where d: "d = \<lparr>rsd_builder = response_builder_new M, rsd_config = c, rsd_content_length = n,
      rsd_state = RsStVersion\<rparr>"
    using ready by (cases d) (simp add: rs_ready_def)
  have "rs_loop M sz d (response_encode M r [] @ x) =
      rs_loop M sz (\<lparr>rsd_builder = b\<lparr>rsb_body := None, rsb_headers := map_default M\<rparr>,
        rsd_config = c, rsd_content_length = n, rsd_state = RsStHeader\<rparr>)
      (concat (map header_line l) @ (CRLF @ resp_body r @ x))"
    using e
    by (simp add: response_encode_split rs_version_step rs_status_code_step rs_reason_phrase_step
        response_set_version_def response_set_status_code_def response_set_reason_phrase_def b_def
        d response_builder_new_def
        del: append_Cons append_assoc flip: l_def)
  also have "\<dots> = rs_loop M sz (\<lparr>rsd_builder = b\<lparr>rsb_body := None\<rparr>,
        rsd_config = c, rsd_content_length = n, rsd_state = RsStHeader\<rparr>)
      (CRLF @ resp_body r @ x)"
    using e laws by (subst rs_headers_loop) (simp_all add: list_all_iff header_map_lawsD headers_def b_def)
  also have "\<dots> = rs_loop M sz \<lparr>rsd_builder = b, rsd_config = c,
        rsd_content_length = ContentLength (length (resp_body r)), rsd_state = RsStEnd\<rparr> x"
    using e cl by (subst rs_end_step) (simp_all add: response_set_body_def b_def)
  also have "\<dots> = Some (\<lparr>rsd_builder = response_builder_new M, rsd_config = c,
        rsd_content_length = ContentLength (length (resp_body r)), rsd_state = RsStVersion\<rparr>,
      Complete \<lparr>resp_body = resp_body r, resp_reason_phrase = resp_reason_phrase r, resp_headers = headers,
        resp_status_code = resp_status_code r, resp_version = Rtsp2_0\<rparr>, sz - length x)"
    using e by (subst rs_loop.simps) (simp add: b_def response_build_eq)
  finally show ?thesis
    using e iter by (simp add: response_decode_def sz_def l_def rs_ready_def)
qed

subsection \<open>Properties\<close>

text \<open>A request and a response to apply the properties to.\<close>

definition play_request :: "(bytes, headers, bytes) Request" where
  "play_request = \<lparr>req_body = ''x'', req_headers = [(HeaderCSeq, HeaderValue ''1'')], req_method = Play,
     req_uri = uri_asterisk, req_version = Rtsp2_0\<rparr>"

lemmas decoder_limits = BODY_DEFAULT_MAX_LENGTH_def HEADER_DEFAULT_MAX_COUNT_def
  HEADER_NAME_DEFAULT_MAX_LENGTH_def HEADER_VALUE_DEFAULT_MAX_LENGTH_def METHOD_DEFAULT_MAX_LENGTH_def
  REASON_PHRASE_DEFAULT_MAX_LENGTH_def URI_DEFAULT_MAX_LENGTH_def MAX_CONTENT_LENGTH_def

lemma decimal_1: "decimal (Suc 0) = ''1''"
proof -
  have "char_of (48 + Suc 0) = CHR ''1''" by code_simp
  then show ?thesis by (subst decimal.simps) simp
qed

lemma demo_headers:
  "encoded_headers [(HeaderCSeq, HeaderValue ''1'')] ''x'' =
     [(HeaderContentLength, HeaderValue ''1''), (HeaderCSeq, HeaderValue ''1'')]"
  by (simp add: encoded_headers_def from_string_unchecked_def decimal_1 hname_eq_def)

lemma demo_lines:
  "header_line_ok 100 2000 (HeaderContentLength, HeaderValue ''1'')" "header_line_ok 100 2000 (HeaderCSeq, HeaderValue ''1'')"
  "keys_consistent [(HeaderContentLength, HeaderValue ''1''), (HeaderCSeq, HeaderValue ''1'')]"
  by code_simp+

lemma play_request_encodable: "request_encodable list_headers plain_uris request_config_default play_request"
  using demo_lines
  by (simp add: request_encodable_def play_request_def list_headers_def demo_headers uri_asterisk_def uri_display_def
   request_config_default_def uri_try_from_def uri_try_from_result_def uri_try_from_reference_def plain_uris_def decoder_limits SP_def)

definition ok_response :: "(bytes, headers) Response" where
  "ok_response = \<lparr>resp_body = ''x'', resp_reason_phrase = ReasonPhrase ''OK'',
     resp_headers = [(HeaderCSeq, HeaderValue ''1'')], resp_status_code = OK, resp_version = Rtsp2_0\<rparr>"
lemma ok_response_encodable: "response_encodable list_headers response_config_default ok_response"
proof -
  have "reason_valid (ReasonPhrase ''OK'')" "built_phrase OK (Some (ReasonPhrase ''OK'')) = Some (ReasonPhrase ''OK'')"
    by code_simp+
  with demo_lines show ?thesis
    by (simp add: response_encodable_def ok_response_def list_headers_def demo_headers
        response_config_default_def decoder_limits)
qed

lemma play_request_decoded:
  "\<exists>d' q. request_decode list_headers plain_uris (request_decoder_new list_headers)
     (request_encode list_headers plain_uris play_request [] @ x)
   = Some (d', Complete q, length (request_encode list_headers plain_uris play_request [])) \<and> req_method q = Play"
  using request_encode_decode [OF list_headers_laws play_request_encodable rq_ready_new]
  by (fastforce simp: request_decoder_new_def play_request_def)

lemma ok_response_decoded:
  "\<exists>d' q. response_decode list_headers (response_decoder_new list_headers)
     (response_encode list_headers ok_response [] @ x)
   = Some (d', Complete q, length (response_encode list_headers ok_response [])) \<and> resp_status_code q = OK"
  using response_encode_decode [OF list_headers_laws ok_response_encodable rs_ready_new]
  by (fastforce simp: response_decoder_new_def ok_response_def)

text \<open>
  A request that is decoded from pieces, each run starting with what the previous one left, is
  the request that one run on the whole input decodes, with the same bytes left over.
\<close>

theorem request_pieces_complete:
  assumes "feed (rq_loop M U) d [] pieces = Some (d', Complete q, left)"
  shows "\<exists>n. request_decode M U d (concat pieces) = Some (d', Complete q, n) \<and> left = drop n (concat pieces)"
  using rq.feed_complete [OF assms] by (simp add: request_decode_def)

lemma request_pieces_complete_witness:
  "\<exists>d' q n. request_decode list_headers plain_uris (request_decoder_new list_headers)
      (request_encode list_headers plain_uris play_request [] @ ''rest'') = Some (d', Complete q, n) \<and> req_method q = Play"
proof -
  let ?e = "request_encode list_headers plain_uris play_request []"
  obtain d' q where run: "request_decode list_headers plain_uris (request_decoder_new list_headers) (?e @ [])
      = Some (d', Complete q, length ?e)" "req_method q = Play"
    using play_request_decoded by blast
  then have "feed (rq_loop list_headers plain_uris) (request_decoder_new list_headers) [] [?e, ''re'', ''st'']
      = Some (d', Complete q, ''rest'')"
    by (simp add: request_decode_def)
  from request_pieces_complete [OF this] run(2) show ?thesis by auto
qed

text \<open>
  Resuming: after a run that needs more data, a run on what it left together with new data
  gives what one run on all the data gives, and takes the same number of bytes in total; a request
  that is complete does not depend on the bytes that follow it.
\<close>

theorem request_decode_resume:
  assumes "request_decode M U d b = Some (d', r, n)"
  shows "(r = Incomplete \<longrightarrow>
      request_decode M U d (b @ x) =
        map_option (\<lambda>(t, q, m). (t, q, n + m)) (request_decode M U d' (drop n b @ x)))
    \<and> (\<forall>q. r = Complete q \<longrightarrow> request_decode M U d (b @ x) = Some (d', Complete q, n))
    \<and> n \<le> length b"
  using assms rq.resume [of M U b d d' n x] rq.complete_extend [of M U b d d' _ n x] rq.consumed [of M U b d d' r n]
  unfolding request_decode_def by blast

lemma request_decode_resume_witness:
  "\<exists>d' q. request_decode list_headers plain_uris (request_decoder_new list_headers)
      ((request_encode list_headers plain_uris play_request [] @ []) @ ''rest'')
    = Some (d', Complete q, length (request_encode list_headers plain_uris play_request []))"
  using play_request_decoded [of "[]"] request_decode_resume [where x = "''rest''"] by blast

text \<open>
  A response that is decoded from pieces, each run starting with what the previous one left, is
  the response that one run on the whole input decodes, with the same bytes left over.
\<close>

theorem response_pieces_complete:
  assumes "feed (rs_loop M) d [] pieces = Some (d', Complete q, left)"
  shows "\<exists>n. response_decode M d (concat pieces) = Some (d', Complete q, n) \<and> left = drop n (concat pieces)"
  using rs.feed_complete [OF assms] by (simp add: response_decode_def)

lemma response_pieces_complete_witness:
  "\<exists>d' q n. response_decode list_headers (response_decoder_new list_headers)
      (response_encode list_headers ok_response [] @ ''rest'') = Some (d', Complete q, n) \<and> resp_status_code q = OK"
proof -
  let ?e = "response_encode list_headers ok_response []"
  obtain d' q where run: "response_decode list_headers (response_decoder_new list_headers) (?e @ [])
      = Some (d', Complete q, length ?e)" "resp_status_code q = OK"
    using ok_response_decoded by blast
  then have "feed (rs_loop list_headers) (response_decoder_new list_headers) [] [?e, ''re'', ''st'']
      = Some (d', Complete q, ''rest'')"
    by (simp add: response_decode_def)
  from response_pieces_complete [OF this] run(2) show ?thesis by auto
qed

text \<open>
  Resuming: after a run that needs more data, a run on what it left together with new data
  gives what one run on all the data gives, and takes the same number of bytes in total; a request
  that is complete does not depend on the bytes that follow it.
\<close>

theorem response_decode_resume:
  assumes "response_decode M d b = Some (d', r, n)"
  shows "(r = Incomplete \<longrightarrow>
      response_decode M d (b @ x) =
        map_option (\<lambda>(t, q, m). (t, q, n + m)) (response_decode M d' (drop n b @ x)))
    \<and> (\<forall>q. r = Complete q \<longrightarrow> response_decode M d (b @ x) = Some (d', Complete q, n))
    \<and> n \<le> length b"
  using assms rs.resume [of M b d d' n x] rs.complete_extend [of M b d d' _ n x] rs.consumed [of M b d d' r n]
  unfolding response_decode_def by blast

lemma response_decode_resume_witness:
  "\<exists>d' q. response_decode list_headers (response_decoder_new list_headers)
      ((response_encode list_headers ok_response [] @ []) @ ''rest'')
    = Some (d', Complete q, length (response_encode list_headers ok_response []))"
  using ok_response_decoded [of "[]"] response_decode_resume [where x = "''rest''"] by blast

text \<open>
  C4. Encoding and decoding a request: from the bytes that are written for a request within the
  limits of the configuration, and whatever follows them, the decoder returns the same method, URI,
  version and body, and the same headers in the same order with the content length written first;
  it takes exactly the encoded bytes and is ready for the next request.
\<close>

theorem request_roundtrip:
  assumes "header_map_laws M" "request_encodable M U c r" "rq_ready M c d"
  shows "\<exists>d' r'. request_decode M U d (request_encode M U r [] @ x)
      = Some (d', Complete r', length (request_encode M U r []))
    \<and> rq_ready M c d'
    \<and> req_method r' = req_method r \<and> req_uri r' = req_uri r \<and> req_version r' = req_version r
    \<and> req_body r' = req_body r
    \<and> map_iter M (req_headers r') = encoded_headers (map_iter M (req_headers r)) (req_body r)"
  by (rule request_encode_decode [OF assms])

lemma request_roundtrip_witness:
  "\<exists>d' r'. request_decode list_headers plain_uris (request_decoder_with_config list_headers request_config_default)
      (request_encode list_headers plain_uris play_request [] @ ''next'')
    = Some (d', Complete r', length (request_encode list_headers plain_uris play_request []))
    \<and> req_method r' = req_method play_request"
  using request_roundtrip [OF list_headers_laws play_request_encodable rq_ready_new, of "''next''"] by blast

text \<open>
  C5. Encoding and decoding a response, in the same way: the status code, reason phrase, version,
  body and headers come back, and exactly the encoded bytes are taken.
\<close>

theorem response_roundtrip:
  assumes "header_map_laws M" "response_encodable M c r" "rs_ready M c d"
  shows "\<exists>d' r'. response_decode M d (response_encode M r [] @ x)
      = Some (d', Complete r', length (response_encode M r []))
    \<and> rs_ready M c d'
    \<and> resp_status_code r' = resp_status_code r \<and> resp_reason_phrase r' = resp_reason_phrase r
    \<and> resp_version r' = resp_version r \<and> resp_body r' = resp_body r
    \<and> map_iter M (resp_headers r') = encoded_headers (map_iter M (resp_headers r)) (resp_body r)"
  by (rule response_encode_decode [OF assms])

lemma response_roundtrip_witness:
  "\<exists>d' r'. response_decode list_headers (response_decoder_with_config list_headers response_config_default)
      (response_encode list_headers ok_response [] @ ''next'')
    = Some (d', Complete r', length (response_encode list_headers ok_response []))
    \<and> resp_status_code r' = resp_status_code ok_response"
  using response_roundtrip [OF list_headers_laws ok_response_encodable rs_ready_new, of "''next''"] by blast

end
