(* ===== verification/Codec.thy ===== *)
theory Codec
  imports Encoder
begin

text \<open>
  The message codec shared by clients and servers: \<^verbatim>\<open>rtsp-2/src/protocol/codec/mod.rs\<close>. The
  event sink is the sending half of an unbounded channel; sending fails exactly when the receiver
  is gone. The outer option of the decoding functions is the panic of the decoders.
\<close>

datatype CodecEvent = DecodingEnded | DecodingStarted | EncodingEnded | EncodingStarted

datatype ('m, 'u) Message =
  MessageRequest "(bytes, 'm, 'u) Request" | MessageResponse "(bytes, 'm) Response"

datatype 'u DecodeError =
  DecodeErrorRequest "'u request_decode_error" | DecodeErrorResponse response_decode_error

datatype 'u ProtocolError =
  ProtocolDecodeError "'u DecodeError" | ProtocolDecodingTimedOut | ProtocolIO string
  | ProtocolUnexpectedEOF

record event_sink =
  sink_receiver_alive :: bool
  sink_events :: "CodecEvent list"

record ('m, 'u) codec =
  codec_request_decoder :: "('m, 'u) request_decoder"
  codec_response_decoder :: "'m response_decoder"
  codec_tx_event :: "event_sink option"

definition MINIMUM_INFO_LINE_SIZE :: nat where "MINIMUM_INFO_LINE_SIZE = 5"

definition codec_new :: "'m header_map_ops \<Rightarrow> ('m, 'u) codec" where
  "codec_new M =
     \<lparr>codec_request_decoder = request_decoder_new M, codec_response_decoder = response_decoder_new M,
      codec_tx_event = None\<rparr>"

definition codec_with_events :: "'m header_map_ops \<Rightarrow> event_sink \<Rightarrow> ('m, 'u) codec" where
  "codec_with_events M tx_event =
     \<lparr>codec_request_decoder = request_decoder_new M, codec_response_decoder = response_decoder_new M,
      codec_tx_event = Some tx_event\<rparr>"

definition send_codec_event :: "CodecEvent \<Rightarrow> ('m, 'u) codec \<Rightarrow> ('m, 'u) codec" where
  "send_codec_event event c =
     (case codec_tx_event c of
        None \<Rightarrow> c
      | Some tx_event \<Rightarrow>
          if \<not> sink_receiver_alive tx_event then c\<lparr>codec_tx_event := None\<rparr>
          else c\<lparr>codec_tx_event := Some (tx_event\<lparr>sink_events := sink_events tx_event @ [event]\<rparr>)\<rparr>)"

type_synonym ('m, 'u) codec_result =
  "(('m, 'u) codec \<times> bytes \<times> ('u ProtocolError + ('m, 'u) Message option)) option"

definition codec_decode_request ::
  "'m header_map_ops \<Rightarrow> 'u uriparse_ops \<Rightarrow> ('m, 'u) codec \<Rightarrow> bytes \<Rightarrow> ('m, 'u) codec_result" where
  "codec_decode_request M U c buffer =
     (case request_decode M U (codec_request_decoder c) buffer of
        None \<Rightarrow> None
      | Some (decoder, result, bytes_decoded) \<Rightarrow>
          (let c = c\<lparr>codec_request_decoder := decoder\<rparr>;
               buffer = drop bytes_decoded buffer
           in case result of
                Complete request \<Rightarrow>
                  Some (send_codec_event DecodingEnded c, buffer, Ok (Some (MessageRequest request)))
              | Incomplete \<Rightarrow> Some (c, buffer, Ok None)
              | DecodeFailed error \<Rightarrow>
                  Some (send_codec_event DecodingEnded c, buffer,
                        Err (ProtocolDecodeError (DecodeErrorRequest error)))))"

definition codec_decode_response ::
  "'m header_map_ops \<Rightarrow> ('m, 'u) codec \<Rightarrow> bytes \<Rightarrow> ('m, 'u) codec_result" where
  "codec_decode_response M c buffer =
     (case response_decode M (codec_response_decoder c) buffer of
        None \<Rightarrow> None
      | Some (decoder, result, bytes_decoded) \<Rightarrow>
          (let c = c\<lparr>codec_response_decoder := decoder\<rparr>;
               buffer = drop bytes_decoded buffer
           in case result of
                Complete response \<Rightarrow>
                  Some (send_codec_event DecodingEnded c, buffer, Ok (Some (MessageResponse response)))
              | Incomplete \<Rightarrow> Some (c, buffer, Ok None)
              | DecodeFailed error \<Rightarrow>
                  Some (send_codec_event DecodingEnded c, buffer,
                        Err (ProtocolDecodeError (DecodeErrorResponse error)))))"

text \<open>The loop that drops preceding newlines.\<close>

function skip_newlines :: "bytes \<Rightarrow> bytes" where
  "skip_newlines buffer =
     (if starts_with buffer CRLF then skip_newlines (drop 2 buffer) else buffer)"
  by pat_completeness auto
termination
  by (relation "measure length") (auto dest: starts_with_length)

declare skip_newlines.simps [simp del]

definition codec_decode ::
  "'m header_map_ops \<Rightarrow> 'u uriparse_ops \<Rightarrow> ('m, 'u) codec \<Rightarrow> bytes \<Rightarrow> ('m, 'u) codec_result" where
  "codec_decode M U c buffer =
     (if rqd_state (codec_request_decoder c) \<noteq> RqStMethod then codec_decode_request M U c buffer
      else if rsd_state (codec_response_decoder c) \<noteq> RsStVersion then codec_decode_response M c buffer
      else
        (let buffer = skip_newlines buffer;
             c = (if buffer \<noteq> [] then send_codec_event DecodingStarted c else c)
         in if length buffer < MINIMUM_INFO_LINE_SIZE then Some (c, buffer, Ok None)
            else if starts_with buffer ''RTSP/'' then codec_decode_response M c buffer
            else codec_decode_request M U c buffer))"

definition codec_decode_eof ::
  "'m header_map_ops \<Rightarrow> 'u uriparse_ops \<Rightarrow> ('m, 'u) codec \<Rightarrow> bytes \<Rightarrow> ('m, 'u) codec_result" where
  "codec_decode_eof M U c buffer =
     (case codec_decode M U c buffer of
        None \<Rightarrow> None
      | Some (c, buffer, Err e) \<Rightarrow> Some (c, buffer, Err e)
      | Some (c, buffer, Ok (Some message)) \<Rightarrow> Some (c, buffer, Ok (Some message))
      | Some (c, buffer, Ok None) \<Rightarrow>
          if buffer = [] then Some (c, buffer, Ok None) else Some (c, buffer, Err ProtocolUnexpectedEOF))"

definition codec_encode ::
  "'m header_map_ops \<Rightarrow> 'u uriparse_ops \<Rightarrow> ('m, 'u) Message \<Rightarrow> ('m, 'u) codec \<Rightarrow> bytes
     \<Rightarrow> ('m, 'u) codec \<times> bytes \<times> ('u ProtocolError + unit)"
where
  "codec_encode M U message c buffer =
     (let c = send_codec_event EncodingStarted c;
          buffer = (case message of
                      MessageRequest request \<Rightarrow> request_encode M U request buffer
                    | MessageResponse response \<Rightarrow> response_encode M response buffer);
          c = send_codec_event EncodingEnded c
      in (c, buffer, Ok ()))"

subsection \<open>Facts\<close>

text \<open>Two codecs that only differ in the events they have sent.\<close>

definition same_decoders :: "('m, 'u) codec \<Rightarrow> ('m, 'u) codec \<Rightarrow> bool" where
  "same_decoders c c' \<longleftrightarrow>
     codec_request_decoder c = codec_request_decoder c' \<and> codec_response_decoder c = codec_response_decoder c'"

lemma send_codec_event_decoders [simp]:
  "codec_request_decoder (send_codec_event e c) = codec_request_decoder c"
  "codec_response_decoder (send_codec_event e c) = codec_response_decoder c"
  by (simp_all add: send_codec_event_def split: option.split)

text \<open>What a decoding call does besides events: the decoders, the buffer and the result.\<close>

definition codec_view ::
  "('m, 'u) codec_result \<Rightarrow> (('m, 'u) request_decoder \<times> 'm response_decoder \<times> bytes
     \<times> ('u ProtocolError + ('m, 'u) Message option)) option" where
  "codec_view r = map_option (\<lambda>(c, b, m). (codec_request_decoder c, codec_response_decoder c, b, m)) r"

lemma codec_view_simps [simp]:
  "codec_view None = None"
  "codec_view (Some (c, b, m)) = Some (codec_request_decoder c, codec_response_decoder c, b, m)"
  by (simp_all add: codec_view_def)

lemma codec_decode_request_view:
  "codec_view (codec_decode_request M U c b) =
     map_option (\<lambda>(d, r, n). (d, codec_response_decoder c, drop n b,
        case r of Complete q \<Rightarrow> Ok (Some (MessageRequest q)) | Incomplete \<Rightarrow> Ok None
        | DecodeFailed e \<Rightarrow> Err (ProtocolDecodeError (DecodeErrorRequest e))))
       (request_decode M U (codec_request_decoder c) b)"
  by (auto simp: codec_decode_request_def Let_def split: option.splits DecodeResult.splits)

lemma codec_decode_response_view:
  "codec_view (codec_decode_response M c b) =
     map_option (\<lambda>(d, r, n). (codec_request_decoder c, d, drop n b,
        case r of Complete q \<Rightarrow> Ok (Some (MessageResponse q)) | Incomplete \<Rightarrow> Ok None
        | DecodeFailed e \<Rightarrow> Err (ProtocolDecodeError (DecodeErrorResponse e))))
       (response_decode M (codec_response_decoder c) b)"
  by (auto simp: codec_decode_response_def Let_def split: option.splits DecodeResult.splits)

text \<open>The view of a call, by the state of the decoders.\<close>

lemma codec_decode_view:
  "codec_view (codec_decode M U c b) =
     (if rqd_state (codec_request_decoder c) \<noteq> RqStMethod then codec_view (codec_decode_request M U c b)
      else if rsd_state (codec_response_decoder c) \<noteq> RsStVersion then codec_view (codec_decode_response M c b)
      else let b = skip_newlines b in
        if length b < 5 then Some (codec_request_decoder c, codec_response_decoder c, b, Ok None)
        else if starts_with b ''RTSP/'' then codec_view (codec_decode_response M c b)
        else codec_view (codec_decode_request M U c b))"
  by (simp add: codec_decode_def Let_def MINIMUM_INFO_LINE_SIZE_def codec_decode_request_view
      codec_decode_response_view)

lemma skip_newlines_append:
  "skip_newlines b = r \<Longrightarrow> skip_newlines (b @ x) = skip_newlines (r @ x)"
proof (induction b rule: skip_newlines.induct)
  case (1 b)
  show ?case
  proof (cases "starts_with b CRLF")
    case True
    then have "skip_newlines b = skip_newlines (drop 2 b)" "drop 2 (b @ x) = drop 2 b @ x"
      "starts_with (b @ x) CRLF"
      using starts_with_length [OF True] by (simp_all add: skip_newlines.simps [of b] starts_with_extend)
    with 1 True show ?thesis by (simp add: skip_newlines.simps [of "b @ x"])
  next
    case False
    with 1 show ?thesis by (simp add: skip_newlines.simps [of b])
  qed
qed

lemma skip_newlines_id: "\<not> starts_with b CRLF \<Longrightarrow> skip_newlines b = b"
  by (simp add: skip_newlines.simps)

lemma skip_newlines_result: "\<not> starts_with (skip_newlines b) CRLF"
  by (induction b rule: skip_newlines.induct) (subst skip_newlines.simps, simp)

text \<open>
  A decoder that still waits for its first part has taken nothing: no completed step leads back to
  the state it is in.
\<close>

context incremental_decoder
begin

lemma incomplete_stays:
  assumes "loop sz s b = Some (t, Incomplete, n)" "P t"
    and "\<And>s b s' b' u. running s \<Longrightarrow> step s b = Some (s', b', Complete u) \<Longrightarrow> \<not> P s'"
  shows "t = s \<and> n = sz - length b"
proof -
  have "loop sz s b = Some (t, Incomplete, n) \<Longrightarrow> t = s \<and> n = sz - length b \<or> \<not> P t" for s b
  proof (induction s b rule: run_induct)
    case (run s b)
    have True: "running s"
    proof (rule ccontr)
      assume "\<not> running s"
      with run.prems stop_decided [of s t Incomplete] show False by (auto simp: loop_stopped)
    qed
    with run.prems obtain s' b' r where st: "step s b = Some (s', b', r)"
      by (auto simp: loop_running split: option.splits)
    show ?case
    proof (cases r)
      case (Complete u)
      then have "\<not> P s'" "loop sz s' b' = Some (t, Incomplete, n)"
        using assms(3) True st run.prems by (simp_all add: loop_running)
      then show ?thesis using run.IH [OF True] st Complete by blast
    next
      case (DecodeFailed e)
      with run.prems True st show ?thesis by (simp add: loop_running)
    next
      case Incomplete
      then have "step s b = Some (s, b, Incomplete)" using st step_incomplete [OF True, of b s' b'] by simp
      then have "loop sz s b = Some (s, Incomplete, sz - length b)"
        using loop_running [OF True, of sz b] by simp
      then show ?thesis using run.prems by simp
    qed
  qed
  with assms(1,2) show ?thesis by blast
qed

end

lemma rq_incomplete_first:
  assumes "request_decode M U d b = Some (d', Incomplete, n)" "rqd_state d' = RqStMethod"
  shows "d' = d \<and> n = 0"
proof -
  have "rqd_state s' \<noteq> RqStMethod" if "rq_step M U s y = Some (s', y', Complete u)" for s y s' y' u
    using rq_step_Complete(2) [OF that] by auto
  with rq.incomplete_stays [of M U "length b" d b d' n "\<lambda>d. rqd_state d = RqStMethod"] assms
  show ?thesis by (simp add: request_decode_def)
qed

lemma rs_incomplete_first:
  assumes "response_decode M d b = Some (d', Incomplete, n)" "rsd_state d' = RsStVersion"
  shows "d' = d \<and> n = 0"
proof -
  have "rsd_state s' \<noteq> RsStVersion" if "rs_step M s y = Some (s', y', Complete u)" for s y s' y' u
    using rs_step_Complete(2) [OF that] by auto
  with rs.incomplete_stays [of M "length b" d b d' n "\<lambda>d. rsd_state d = RsStVersion"] assms
  show ?thesis by (simp add: response_decode_def)
qed

text \<open>Resuming one of the two decoders through the codec.\<close>

lemma codec_request_incomplete:
  assumes "codec_view (codec_decode_request M U c b) = Some (d', rs, b', Ok None)"
  shows "\<exists>n. request_decode M U (codec_request_decoder c) b = Some (d', Incomplete, n)
    \<and> rs = codec_response_decoder c \<and> b' = drop n b"
  using assms
  by (auto simp: codec_decode_request_view split: DecodeResult.split_asm) (metis DecodeResult.exhaust)+

lemma codec_response_incomplete:
  assumes "codec_view (codec_decode_response M c b) = Some (rq, d', b', Ok None)"
  shows "\<exists>n. response_decode M (codec_response_decoder c) b = Some (d', Incomplete, n)
    \<and> rq = codec_request_decoder c \<and> b' = drop n b"
  using assms
  by (auto simp: codec_decode_response_view split: DecodeResult.split_asm) (metis DecodeResult.exhaust)+

lemma drop_drop_append: "n \<le> length b \<Longrightarrow> drop m (drop n b @ x) = drop (n + m) (b @ x)"
  by (metis add.commute drop_append_le drop_drop)

lemma codec_request_resume:
  assumes "request_decode M U (codec_request_decoder c) b = Some (codec_request_decoder c', Incomplete, n)"
    "codec_response_decoder c' = codec_response_decoder c"
  shows "codec_view (codec_decode_request M U c' (drop n b @ x)) = codec_view (codec_decode_request M U c (b @ x))"
proof -
  note inc = assms(1) [unfolded request_decode_def]
  from rq.consumed [OF inc] have "n \<le> length b" .
  then show ?thesis
    using rq.resume [OF inc, of x] assms(2)
    by (simp add: codec_decode_request_view request_decode_def drop_drop_append option.map_comp comp_def
        split_def del: drop_append)
qed

lemma codec_response_resume:
  assumes "response_decode M (codec_response_decoder c) b = Some (codec_response_decoder c', Incomplete, n)"
    "codec_request_decoder c' = codec_request_decoder c"
  shows "codec_view (codec_decode_response M c' (drop n b @ x)) = codec_view (codec_decode_response M c (b @ x))"
proof -
  note inc = assms(1) [unfolded response_decode_def]
  from rs.consumed [OF inc] have "n \<le> length b" .
  then show ?thesis
    using rs.resume [OF inc, of x] assms(2)
    by (simp add: codec_decode_response_view response_decode_def drop_drop_append option.map_comp comp_def
        split_def del: drop_append)
qed

text \<open>The view of a call depends on the decoders only.\<close>

lemma codec_decode_view_cong:
  assumes "codec_request_decoder c' = codec_request_decoder c"
    "codec_response_decoder c' = codec_response_decoder c"
  shows "codec_view (codec_decode M U c' b) = codec_view (codec_decode M U c b)"
  using assms by (simp add: codec_decode_view codec_decode_request_view codec_decode_response_view Let_def)

lemma skip_newlines_long:
  assumes "s = skip_newlines b" "2 \<le> length s"
  shows "skip_newlines (b @ x) = s @ x"
proof -
  have "\<not> starts_with (s @ x) CRLF"
    using skip_newlines_result [of b] assms starts_with_long [of CRLF s x] by simp
  then show ?thesis
    using skip_newlines_append [of b s x] assms(1) by (simp add: skip_newlines_id)
qed

lemma codec_decode_resume_view:
  assumes "codec_view (codec_decode M U c b) = Some (codec_request_decoder c', codec_response_decoder c', b', Ok None)"
  shows "codec_view (codec_decode M U c' (b' @ x)) = codec_view (codec_decode M U c (b @ x))"
proof -
  consider (req) "rqd_state (codec_request_decoder c) \<noteq> RqStMethod"
    | (res) "rqd_state (codec_request_decoder c) = RqStMethod" "rsd_state (codec_response_decoder c) \<noteq> RsStVersion"
    | (idle) "rqd_state (codec_request_decoder c) = RqStMethod" "rsd_state (codec_response_decoder c) = RsStVersion"
    by blast
  then show ?thesis
  proof cases
    case req
    with assms obtain n where n:
      "request_decode M U (codec_request_decoder c) b = Some (codec_request_decoder c', Incomplete, n)"
      "codec_response_decoder c' = codec_response_decoder c" "b' = drop n b"
      using codec_request_incomplete by (fastforce simp: codec_decode_view)
    moreover from req have "rqd_state (codec_request_decoder c') \<noteq> RqStMethod"
      using rq_incomplete_first [OF n(1)] by auto
    ultimately show ?thesis
      using req codec_request_resume [OF n(1,2), of x] by (simp add: codec_decode_view)
  next
    case res
    with assms obtain n where n:
      "response_decode M (codec_response_decoder c) b = Some (codec_response_decoder c', Incomplete, n)"
      "codec_request_decoder c' = codec_request_decoder c" "b' = drop n b"
      using codec_response_incomplete by (fastforce simp: codec_decode_view)
    moreover from res have "rsd_state (codec_response_decoder c') \<noteq> RsStVersion"
      using rs_incomplete_first [OF n(1)] by auto
    ultimately show ?thesis
      using res codec_response_resume [OF n(1,2), of x] by (simp add: codec_decode_view)
  next
    case idle
    define s where "s = skip_newlines b"
    have short: ?thesis if "codec_request_decoder c' = codec_request_decoder c"
      "codec_response_decoder c' = codec_response_decoder c" "b' = s"
      using idle that codec_decode_view_cong [OF that(1,2), of M U "b' @ x"]
        skip_newlines_append [of b s x] s_def by (simp add: codec_decode_view)
    show ?thesis
    proof (cases "length s < 5")
      case True
      with assms idle have "codec_request_decoder c' = codec_request_decoder c"
        "codec_response_decoder c' = codec_response_decoder c" "b' = s"
        by (simp_all add: codec_decode_view s_def)
      then show ?thesis by (rule short)
    next
      case False
      then have long: "skip_newlines (b @ x) = s @ x" by (intro skip_newlines_long) (simp_all add: s_def)
      show ?thesis
      proof (cases "starts_with s ''RTSP/''")
        case True
        with assms idle False obtain n where n:
          "response_decode M (codec_response_decoder c) s = Some (codec_response_decoder c', Incomplete, n)"
          "codec_request_decoder c' = codec_request_decoder c" "b' = drop n s"
          using codec_response_incomplete by (fastforce simp: codec_decode_view Let_def s_def [symmetric])
        show ?thesis
        proof (cases "rsd_state (codec_response_decoder c') = RsStVersion")
          case True
          with rs_incomplete_first [OF n(1)] n short show ?thesis by simp
        next
          case upd: False
          have "codec_view (codec_decode M U c (b @ x)) = codec_view (codec_decode_response M c (s @ x))"
            using idle False True long by (simp add: codec_decode_view starts_with_extend)
          also have "\<dots> = codec_view (codec_decode_response M c' (b' @ x))"
            using codec_response_resume [OF n(1,2), of x] n(3) by simp
          also have "\<dots> = codec_view (codec_decode M U c' (b' @ x))"
            using upd n(2) idle by (simp add: codec_decode_view)
          finally show ?thesis by simp
        qed
      next
        case nr: False
        with assms idle False obtain n where n:
          "request_decode M U (codec_request_decoder c) s = Some (codec_request_decoder c', Incomplete, n)"
          "codec_response_decoder c' = codec_response_decoder c" "b' = drop n s"
          using codec_request_incomplete by (fastforce simp: codec_decode_view Let_def s_def [symmetric])
        show ?thesis
        proof (cases "rqd_state (codec_request_decoder c') = RqStMethod")
          case True
          with rq_incomplete_first [OF n(1)] n short show ?thesis by simp
        next
          case upd: False
          have "\<not> starts_with (s @ x) ''RTSP/''" using nr False by (simp add: starts_with_def)
          then have "codec_view (codec_decode M U c (b @ x)) = codec_view (codec_decode_request M U c (s @ x))"
            using idle False long by (simp add: codec_decode_view)
          also have "\<dots> = codec_view (codec_decode_request M U c' (b' @ x))"
            using codec_request_resume [OF n(1,2), of x] n(3) by simp
          also have "\<dots> = codec_view (codec_decode M U c' (b' @ x))"
            using upd by (simp add: codec_decode_view)
          finally show ?thesis by simp
        qed
      qed
    qed
  qed
qed

subsection \<open>Events\<close>

definition codec_events :: "('m, 'u) codec \<Rightarrow> CodecEvent list" where
  "codec_events c = (case codec_tx_event c of None \<Rightarrow> [] | Some tx \<Rightarrow> sink_events tx)"

definition codec_listening :: "('m, 'u) codec \<Rightarrow> bool" where
  "codec_listening c \<longleftrightarrow> (case codec_tx_event c of None \<Rightarrow> False | Some tx \<Rightarrow> sink_receiver_alive tx)"

definition codec_idle :: "('m, 'u) codec \<Rightarrow> bool" where
  "codec_idle c \<longleftrightarrow>
     rqd_state (codec_request_decoder c) = RqStMethod \<and> rsd_state (codec_response_decoder c) = RsStVersion"

lemma send_codec_event_listening [simp]: "codec_listening (send_codec_event e c) = codec_listening c"
  by (simp add: codec_listening_def send_codec_event_def split: option.split)

lemma send_codec_event_events [simp]:
  "codec_listening c \<Longrightarrow> codec_events (send_codec_event e c) = codec_events c @ [e]"
  by (auto simp: codec_listening_def codec_events_def send_codec_event_def split: option.splits)

lemma codec_update_events [simp]:
  "codec_events (c\<lparr>codec_request_decoder := d\<rparr>) = codec_events c"
  "codec_events (c\<lparr>codec_response_decoder := d'\<rparr>) = codec_events c"
  "codec_listening (c\<lparr>codec_request_decoder := d\<rparr>) = codec_listening c"
  "codec_listening (c\<lparr>codec_response_decoder := d'\<rparr>) = codec_listening c"
  by (simp_all add: codec_events_def codec_listening_def)

lemma codec_decode_parts_events:
  assumes "codec_listening c"
  shows "codec_decode_request M U c b = Some (c', b', r) \<Longrightarrow>
      codec_listening c' \<and> codec_events c' = codec_events c @ (if r = Ok None then [] else [DecodingEnded])"
    and "codec_decode_response M c b = Some (c', b', r) \<Longrightarrow>
      codec_listening c' \<and> codec_events c' = codec_events c @ (if r = Ok None then [] else [DecodingEnded])"
  using assms
  by (auto simp: codec_decode_request_def codec_decode_response_def Let_def
      split: option.splits DecodeResult.splits)

subsection \<open>Streams of messages\<close>

text \<open>A sequence of messages through the encoding half, and through the decoding half.\<close>

fun encode_stream ::
  "'m header_map_ops \<Rightarrow> 'u uriparse_ops \<Rightarrow> ('m, 'u) Message list \<Rightarrow> ('m, 'u) codec \<Rightarrow> bytes
     \<Rightarrow> ('m, 'u) codec \<times> bytes" where
  "encode_stream M U [] c buffer = (c, buffer)"
| "encode_stream M U (m # ms) c buffer =
     (case codec_encode M U m c buffer of (c', buffer', _) \<Rightarrow> encode_stream M U ms c' buffer')"

fun decode_stream ::
  "'m header_map_ops \<Rightarrow> 'u uriparse_ops \<Rightarrow> nat \<Rightarrow> ('m, 'u) codec \<Rightarrow> bytes
     \<Rightarrow> (('m, 'u) codec \<times> bytes \<times> ('m, 'u) Message list) option" where
  "decode_stream M U 0 c buffer = Some (c, buffer, [])"
| "decode_stream M U (Suc n) c buffer =
     (case codec_decode M U c buffer of
        Some (c', buffer', Ok (Some m)) \<Rightarrow>
          map_option (\<lambda>(c'', buffer'', ms). (c'', buffer'', m # ms)) (decode_stream M U n c' buffer')
      | _ \<Rightarrow> None)"

definition codec_ready :: "'m header_map_ops \<Rightarrow> ('m, 'u) codec \<Rightarrow> bool" where
  "codec_ready M c \<longleftrightarrow>
     rq_ready M request_config_default (codec_request_decoder c)
     \<and> rs_ready M response_config_default (codec_response_decoder c)"

lemma codec_ready_new [simp]: "codec_ready M (codec_new M)" "codec_ready M (codec_with_events M tx)"
  by (simp_all add: codec_ready_def codec_new_def codec_with_events_def request_decoder_new_def
      response_decoder_new_def)

definition message_encodable :: "'m header_map_ops \<Rightarrow> 'u uriparse_ops \<Rightarrow> ('m, 'u) Message \<Rightarrow> bool" where
  "message_encodable M U m =
     (case m of
        MessageRequest r \<Rightarrow> request_encodable M U request_config_default r
      | MessageResponse r \<Rightarrow> response_encodable M response_config_default r)"

definition message_bytes :: "'m header_map_ops \<Rightarrow> 'u uriparse_ops \<Rightarrow> ('m, 'u) Message \<Rightarrow> bytes" where
  "message_bytes M U m =
     (case m of MessageRequest r \<Rightarrow> request_encode M U r [] | MessageResponse r \<Rightarrow> response_encode M r [])"

text \<open>The same message up to the content length header, which the encoder writes from the body.\<close>

fun message_same :: "'m header_map_ops \<Rightarrow> ('m, 'u) Message \<Rightarrow> ('m, 'u) Message \<Rightarrow> bool" where
  "message_same M (MessageRequest r) (MessageRequest r') \<longleftrightarrow>
     req_method r' = req_method r \<and> req_uri r' = req_uri r \<and> req_version r' = req_version r
     \<and> req_body r' = req_body r
     \<and> map_iter M (req_headers r') = encoded_headers (map_iter M (req_headers r)) (req_body r)"
| "message_same M (MessageResponse r) (MessageResponse r') \<longleftrightarrow>
     resp_status_code r' = resp_status_code r \<and> resp_reason_phrase r' = resp_reason_phrase r
     \<and> resp_version r' = resp_version r \<and> resp_body r' = resp_body r
     \<and> map_iter M (resp_headers r') = encoded_headers (map_iter M (resp_headers r)) (resp_body r)"
| "message_same M _ _ \<longleftrightarrow> False"

lemma request_encode_buffer: "request_encode M U r buffer = buffer @ request_encode M U r []"
  by (simp add: request_encode_def Let_def encode_all_headers)

lemma response_encode_buffer: "response_encode M r buffer = buffer @ response_encode M r []"
  by (simp add: response_encode_def Let_def encode_all_headers)

lemma codec_encode_bytes: "\<exists>c'. codec_encode M U m c buffer = (c', buffer @ message_bytes M U m, Ok ())"
  by (cases m)
     (simp_all add: codec_encode_def message_bytes_def Let_def request_encode_buffer [of M U _ buffer]
        response_encode_buffer [of M _ buffer])

lemma encode_stream_bytes: "\<exists>c'. encode_stream M U ms c buffer = (c', buffer @ concat (map (message_bytes M U) ms))"
proof (induction ms arbitrary: c buffer)
  case (Cons m ms)
  obtain c' where "codec_encode M U m c buffer = (c', buffer @ message_bytes M U m, Ok ())"
    using codec_encode_bytes by blast
  with Cons.IH [of c' "buffer @ message_bytes M U m"] show ?case by simp
qed simp

text \<open>How a codec that waits for a message looks at the first bytes of an encoded one.\<close>

lemma method_valid_token: "method_valid m \<Longrightarrow> is_token (method_as_str m)"
  by (cases m) (simp_all add: is_token_iff, code_simp+)

lemma request_bytes_start:
  assumes "method_valid (req_method r)" "req_version r = Rtsp2_0"
  shows "\<not> starts_with (request_encode M U r [] @ x) CRLF"
    "\<not> starts_with (request_encode M U r [] @ x) ''RTSP/''" "5 \<le> length (request_encode M U r [])"
proof -
  define m where "m = method_as_str (req_method r)"
  have tok: "is_token m" using method_valid_token [OF assms(1)] by (simp add: m_def)
  obtain c s where m: "m = c # s" using tok by (cases m) (simp_all add: is_token_iff)
  obtain y where y: "request_encode M U r [] @ x = m @ SP # y"
    using request_encode_split [OF assms(2), of M U x] by (simp add: m_def)
  have "c \<noteq> CR" using token_no_delims(3) [OF tok] m by auto
  then show "\<not> starts_with (request_encode M U r [] @ x) CRLF" by (simp add: y m)
  show "\<not> starts_with (request_encode M U r [] @ x) ''RTSP/''"
  proof
    assume sw: "starts_with (request_encode M U r [] @ x) ''RTSP/''"
    have t5: "take 5 (m @ SP # y) = ''RTSP/''"
      using sw unfolding starts_with_def y by (simp del: take_append add: numeral_eq_Suc)
    show False
    proof (cases "length m < 5")
      case True
      then have "SP \<in> set (take 5 (m @ SP # y))" by (simp add: take_Cons')
      then have "SP \<in> set ''RTSP/''" by (simp only: t5)
      then show False by (simp add: SP_def)
    next
      case False
      then have "take 5 m = ''RTSP/''" using t5 by simp
      then have "CHR ''/'' \<in> set m" by (metis in_set_takeD list.set_intros)
      then have "token_char CHR ''/''" using tok by (simp add: is_token_iff)
      moreover have "\<not> token_char CHR ''/''" by code_simp
      ultimately show False by simp
    qed
  qed
  show "5 \<le> length (request_encode M U r [])"
    using request_encode_split [OF assms(2), of M U "[]"] by (simp add: version_as_encoded_def)
qed

lemma response_bytes_start:
  assumes "resp_version r = Rtsp2_0"
  shows "\<not> starts_with (response_encode M r [] @ x) CRLF"
    "starts_with (response_encode M r [] @ x) ''RTSP/''" "5 \<le> length (response_encode M r [])"
  using response_encode_split [OF assms, of M x] response_encode_split [OF assms, of M "[]"]
  by (simp_all add: version_as_encoded_def byte_consts)

lemma codec_decode_idle:
  assumes "codec_idle c" "\<not> starts_with b CRLF" "5 \<le> length b"
  shows "codec_decode M U c b =
    (let c = send_codec_event DecodingStarted c in
     if starts_with b ''RTSP/'' then codec_decode_response M c b else codec_decode_request M U c b)"
proof -
  have "b \<noteq> []" "\<not> length b < MINIMUM_INFO_LINE_SIZE" using assms(3) by (auto simp: MINIMUM_INFO_LINE_SIZE_def)
  with assms(1,2) show ?thesis
    unfolding codec_decode_def codec_idle_def by (simp add: skip_newlines_id Let_def)
qed

lemma codec_ready_idle: "codec_ready M c \<Longrightarrow> codec_idle c"
  by (simp add: codec_ready_def codec_idle_def rq_ready_def rs_ready_def)

lemma codec_decode_message:
  assumes laws: "header_map_laws M" and ok: "message_encodable M U m" and ready: "codec_ready M c"
  shows "\<exists>c' m'. codec_decode M U c (message_bytes M U m @ x) = Some (c', x, Ok (Some m'))
    \<and> codec_ready M c' \<and> message_same M m m'"
proof (cases m)
  case (MessageRequest r)
  let ?b = "request_encode M U r []"
  have enc: "request_encodable M U request_config_default r"
    using ok MessageRequest by (simp add: message_encodable_def)
  then have "method_valid (req_method r)" "req_version r = Rtsp2_0"
    by (simp_all add: request_encodable_def Let_def)
  note start = request_bytes_start [OF this, of M U]
  have "codec_decode M U c (?b @ x) = codec_decode_request M U (send_codec_event DecodingStarted c) (?b @ x)"
    using codec_decode_idle [OF codec_ready_idle [OF ready] start(1), of x M U] start(2,3) by simp
  moreover have "rq_ready M request_config_default (codec_request_decoder (send_codec_event DecodingStarted c))"
    using ready by (simp add: codec_ready_def)
  from request_encode_decode [OF laws enc this, of x]
  obtain d' r' where "request_decode M U (codec_request_decoder c) (?b @ x) = Some (d', Complete r', length ?b)"
    "rq_ready M request_config_default d'" "message_same M (MessageRequest r) (MessageRequest r')"
    by auto
  ultimately show ?thesis
    using MessageRequest ready
    by (auto simp: codec_decode_request_def message_bytes_def codec_ready_def Let_def)
next
  case (MessageResponse r)
  let ?b = "response_encode M r []"
  have enc: "response_encodable M response_config_default r"
    using ok MessageResponse by (simp add: message_encodable_def)
  then have "resp_version r = Rtsp2_0" by (simp add: response_encodable_def Let_def)
  note start = response_bytes_start [OF this, of M]
  have "codec_decode M U c (?b @ x) = codec_decode_response M (send_codec_event DecodingStarted c) (?b @ x)"
    using codec_decode_idle [OF codec_ready_idle [OF ready] start(1), of x M U] start(2,3) by simp
  moreover have "rs_ready M response_config_default (codec_response_decoder (send_codec_event DecodingStarted c))"
    using ready by (simp add: codec_ready_def)
  from response_encode_decode [OF laws enc this, of x]
  obtain d' r' where "response_decode M (codec_response_decoder c) (?b @ x) = Some (d', Complete r', length ?b)"
    "rs_ready M response_config_default d'"
    "message_same M (MessageResponse r :: ('a, 'b) Message) (MessageResponse r')"
    by auto
  ultimately show ?thesis
    using MessageResponse ready
    by (auto simp: codec_decode_response_def message_bytes_def codec_ready_def Let_def)
qed

lemma decode_stream_encoded:
  assumes laws: "header_map_laws M"
  shows "list_all (message_encodable M U) ms \<Longrightarrow> codec_ready M c \<Longrightarrow>
    \<exists>c' ms'. decode_stream M U (length ms) c (concat (map (message_bytes M U) ms) @ x) = Some (c', x, ms')
      \<and> codec_ready M c' \<and> list_all2 (message_same M) ms ms'"
proof (induction ms arbitrary: c)
  case (Cons m ms)
  let ?x = "concat (map (message_bytes M U) ms) @ x"
  from Cons.prems codec_decode_message [OF laws, of U m c ?x] obtain c' m' where
    m: "codec_decode M U c (message_bytes M U m @ ?x) = Some (c', ?x, Ok (Some m'))"
    "codec_ready M c'" "message_same M m m'" by auto
  from Cons.IH [OF _ m(2)] Cons.prems(1) obtain c'' ms' where
    "decode_stream M U (length ms) c' ?x = Some (c'', x, ms')" "codec_ready M c''"
    "list_all2 (message_same M) ms ms'" by auto
  with m show ?case by simp
qed simp

text \<open>The panics of a codec: none, when the URI parser's errors convert.\<close>

definition codec_inv :: "'m header_map_ops \<Rightarrow> 'u uriparse_ops \<Rightarrow> ('m, 'u) codec \<Rightarrow> bool" where
  "codec_inv M U c \<longleftrightarrow> rq_inv M U (codec_request_decoder c) \<and> rs_inv M (codec_response_decoder c)"

lemma codec_inv_new: "codec_inv M U (codec_new M)" "codec_inv M U (codec_with_events M tx)"
  by (simp_all add: codec_inv_def codec_new_def codec_with_events_def request_decoder_new_def
      response_decoder_new_def rq_inv_new rs_inv_new)

lemma codec_inv_event [simp]: "codec_inv M U (send_codec_event e c) = codec_inv M U c"
  by (simp add: codec_inv_def)

lemma codec_decode_parts_inv:
  assumes laws: "header_map_laws M" and inv: "codec_inv M U c"
  shows "uri_errors_convert U \<Longrightarrow> codec_decode_request M U c b \<noteq> None"
    "codec_decode_response M c b \<noteq> None"
    "codec_decode_request M U c b = Some (c', b', r) \<Longrightarrow> codec_inv M U c' \<and> length b' \<le> length b"
    "codec_decode_response M c b = Some (c', b', r) \<Longrightarrow> codec_inv M U c' \<and> length b' \<le> length b"
proof -
  have inv': "rq_inv M U (codec_request_decoder c)" "rs_inv M (codec_response_decoder c)"
    using inv by (simp_all add: codec_inv_def)
  show "codec_decode_request M U c b \<noteq> None" if "uri_errors_convert U"
    using rq_loop_total [OF laws that inv'(1)]
    by (auto simp: codec_decode_request_def request_decode_def Let_def split: option.splits DecodeResult.splits)
  show "codec_decode_response M c b \<noteq> None"
    using rs_loop_total [OF laws inv'(2)]
    by (auto simp: codec_decode_response_def response_decode_def Let_def split: option.splits DecodeResult.splits)
  show "codec_inv M U c' \<and> length b' \<le> length b" if "codec_decode_request M U c b = Some (c', b', r)"
    using that inv' rq_loop_inv [OF laws inv'(1)]
    by (auto simp: codec_decode_request_def request_decode_def codec_inv_def Let_def
        split: option.splits DecodeResult.splits)
  show "codec_inv M U c' \<and> length b' \<le> length b" if "codec_decode_response M c b = Some (c', b', r)"
    using that inv' rs_loop_inv [OF laws inv'(2)]
    by (auto simp: codec_decode_response_def response_decode_def codec_inv_def Let_def
        split: option.splits DecodeResult.splits)
qed

lemma skip_newlines_shorter: "length (skip_newlines b) \<le> length b"
proof (induction b rule: skip_newlines.induct)
  case (1 b)
  then show ?case
    by (cases "starts_with b CRLF") (auto simp: skip_newlines.simps [of b] intro: le_trans)
qed

lemma codec_decode_inv:
  assumes laws: "header_map_laws M" and inv: "codec_inv M U c"
  shows "uri_errors_convert U \<Longrightarrow> codec_decode M U c b \<noteq> None"
    "codec_decode M U c b = Some (c', b', r) \<Longrightarrow> codec_inv M U c' \<and> length b' \<le> length b"
proof -
  let ?c = "if skip_newlines b \<noteq> [] then send_codec_event DecodingStarted c else c"
  have inv': "codec_inv M U ?c" using inv by simp
  note parts = codec_decode_parts_inv [OF laws inv] codec_decode_parts_inv [OF laws inv']
  show "codec_decode M U c b \<noteq> None" if "uri_errors_convert U"
    using that parts(1,2,5,6) unfolding codec_decode_def Let_def by (simp split: if_splits)
  show "codec_inv M U c' \<and> length b' \<le> length b" if "codec_decode M U c b = Some (c', b', r)"
    using that parts(3,4,7,8) inv' skip_newlines_shorter [of b]
    unfolding codec_decode_def Let_def by (fastforce split: if_splits)
qed

subsection \<open>After an error\<close>

context incremental_decoder
begin

lemma failed_state:
  assumes "loop sz s b = Some (t, DecodeFailed e, n)"
    and "\<And>s. Q (fail e s)" "\<And>s t. stop s = Some (t, DecodeFailed e) \<Longrightarrow> Q t"
  shows "Q t"
  using assms(1)
proof (induction s b rule: run_induct)
  case (run s b)
  show ?case
  proof (cases "running s")
    case False
    with run.prems show ?thesis by (auto simp: loop_stopped intro: assms(3))
  next
    case True
    with run.prems obtain s' b' r where st: "step s b = Some (s', b', r)"
      by (auto simp: loop_running split: option.splits)
    show ?thesis
    proof (cases r)
      case (Complete u)
      then show ?thesis using run.IH [OF True] st run.prems True by (simp add: loop_running)
    next
      case (DecodeFailed f)
      then show ?thesis using st run.prems True assms(2) by (auto simp: loop_running)
    next
      case Incomplete
      then show ?thesis using st run.prems True by (simp add: loop_running)
    qed
  qed
qed

end

lemma request_decode_failed:
  "request_decode M U d b = Some (d', DecodeFailed e, n) \<Longrightarrow> rqd_state d' = RqStError e"
  unfolding request_decode_def
  by (erule rq.failed_state) (auto simp: rq_fail_def rq_stop_def split: request_decode_state.splits sum.splits)

lemma response_decode_failed:
  "response_decode M d b = Some (d', DecodeFailed e, n) \<Longrightarrow> rsd_state d' = RsStError e"
  unfolding response_decode_def
  by (erule rs.failed_state) (auto simp: rs_fail_def rs_stop_def split: response_decode_state.splits option.splits sum.splits)

lemma request_decode_error:
  "rqd_state d = RqStError e \<Longrightarrow> request_decode M U d b = Some (d, DecodeFailed e, 0)"
  by (simp add: request_decode_def rq.loop_stopped rq_running_def rq_stop_def is_complete_def)

lemma response_decode_error:
  "rsd_state d = RsStError e \<Longrightarrow> response_decode M d b = Some (d, DecodeFailed e, 0)"
  by (simp add: response_decode_def rs.loop_stopped rs_running_def rs_stop_def is_complete_def)

lemma request_decode_first_step:
  assumes "rq_running d" "rq_step M U d b = Some (d', b', r)"
  shows "r = Incomplete \<Longrightarrow> request_decode M U d b = Some (d', Incomplete, length b - length b')"
    "r = DecodeFailed e \<Longrightarrow> request_decode M U d b = Some (rq_fail e d', DecodeFailed e, length b - length b')"
  using rq_loop_running [OF assms(1), of M U "length b" b] assms(2)
  by (simp_all only: request_decode_def option.case prod.case DecodeResult.case)

lemma codec_error_states:
  assumes "codec_decode_request M U c b = Some (c', b', Err f)"
  shows "\<exists>e. f = ProtocolDecodeError (DecodeErrorRequest e) \<and> rqd_state (codec_request_decoder c') = RqStError e"
  using assms request_decode_failed
  by (fastforce simp: codec_decode_request_def Let_def split: option.splits DecodeResult.splits)

lemma codec_response_error_states:
  assumes "codec_decode_response M c b = Some (c', b', Err f)"
  shows "\<exists>e. f = ProtocolDecodeError (DecodeErrorResponse e) \<and> rsd_state (codec_response_decoder c') = RsStError e
    \<and> codec_request_decoder c' = codec_request_decoder c"
  using assms response_decode_failed
  by (fastforce simp: codec_decode_response_def Let_def split: option.splits DecodeResult.splits)

lemma codec_error_kind:
  assumes "codec_decode M U c b = Some (c', b', Err f)"
  shows "(\<exists>e. f = ProtocolDecodeError (DecodeErrorRequest e) \<and> rqd_state (codec_request_decoder c') = RqStError e)
    \<or> (\<exists>e. f = ProtocolDecodeError (DecodeErrorResponse e) \<and> rsd_state (codec_response_decoder c') = RsStError e
        \<and> rqd_state (codec_request_decoder c') = RqStMethod)"
proof -
  let ?c = "if skip_newlines b \<noteq> [] then send_codec_event DecodingStarted c else c"
  have "codec_request_decoder ?c = codec_request_decoder c" by simp
  with assms show ?thesis
    unfolding codec_decode_def Let_def
    using codec_error_states [of M U c b] codec_response_error_states [of M c b]
      codec_error_states [of M U ?c "skip_newlines b"] codec_response_error_states [of M ?c "skip_newlines b"]
    by (auto split: if_split_asm)
qed

subsection \<open>Properties\<close>



text \<open>
  C1. Decoding is independent of how the transport cuts the stream: when a call asks for more data,
  a call on what it left in the buffer together with the next bytes \<open>x\<close> gives the same decoder
  states, buffer and result as one call on all the bytes would have given.
\<close>

theorem codec_decode_resume:
  assumes "codec_decode M U c b = Some (c', b', Ok None)"
  shows "codec_view (codec_decode M U c' (b' @ x)) = codec_view (codec_decode M U c (b @ x))"
  by (rule codec_decode_resume_view) (simp add: assms)

lemma codec_decode_resume_witness:
  "codec_view (codec_decode list_headers plain_uris (codec_new list_headers) (''PL'' @ ''AY * ''))
   = codec_view (codec_decode list_headers plain_uris (codec_new list_headers) ((CRLF @ ''PL'') @ ''AY * ''))"
proof -
  let ?c = "codec_new list_headers :: (headers, bytes) codec"
  have skip: "skip_newlines (CRLF @ ''PL'') = ''PL''"
    by (subst skip_newlines.simps) (simp add: skip_newlines_id starts_with_def CR_def)
  have "codec_decode list_headers plain_uris ?c (CRLF @ ''PL'') = Some (?c, ''PL'', Ok None)"
    unfolding codec_decode_def skip Let_def
    by (simp add: codec_new_def request_decoder_new_def response_decoder_new_def
        request_decoder_with_config_def response_decoder_with_config_def MINIMUM_INFO_LINE_SIZE_def
        send_codec_event_def)
  from codec_decode_resume [OF this, of "''AY * ''"] show ?thesis .
qed

text \<open>
  C2. Pipelining: the bytes of any sequence of requests and responses within the default limits,
  written one after the other, are decoded into the same sequence of messages, and what follows
  the last message is left in the buffer.
\<close>

theorem codec_stream_roundtrip:
  assumes "header_map_laws M" "list_all (message_encodable M U) ms" "codec_ready M c"
    and "encode_stream M U ms c0 [] = (c1, bytes)"
  shows "\<exists>c' ms'. decode_stream M U (length ms) c (bytes @ x) = Some (c', x, ms')
    \<and> codec_ready M c' \<and> list_all2 (message_same M) ms ms'"
proof -
  have "bytes = concat (map (message_bytes M U) ms)"
    using encode_stream_bytes [of M U ms c0 "[]"] assms(4) by auto
  then show ?thesis using decode_stream_encoded [OF assms(1-3), of x] by simp
qed

lemma codec_stream_roundtrip_witness:
  "\<exists>c1 bytes c' ms'. encode_stream list_headers plain_uris [MessageRequest play_request, MessageResponse ok_response]
      (codec_new list_headers) [] = (c1, bytes)
    \<and> decode_stream list_headers plain_uris 2 (codec_new list_headers) (bytes @ ''more'') = Some (c', ''more'', ms')
    \<and> list_all2 (message_same list_headers) [MessageRequest play_request, MessageResponse ok_response] ms'"
proof -
  let ?ms = "[MessageRequest play_request, MessageResponse ok_response]"
  obtain c1 bytes where enc: "encode_stream list_headers plain_uris ?ms (codec_new list_headers) [] = (c1, bytes)"
    by fastforce
  have ok: "list_all (message_encodable list_headers plain_uris) ?ms"
    by (simp add: message_encodable_def play_request_encodable ok_response_encodable)
  from codec_stream_roundtrip [OF list_headers_laws ok codec_ready_new(1) enc, of "''more''"] enc
  show ?thesis by (metis (no_types, lifting) Suc_1 length_Cons list.size(3) One_nat_def)
qed

text \<open>
  The events of one decoding call, as long as somebody listens: a start when the codec was
  waiting for a message and there is something other than line breaks in the buffer, and an end
  when the call returns a message or an error.
\<close>

theorem codec_decode_events:
  assumes "codec_listening c" "codec_decode M U c b = Some (c', b', r)"
  shows "codec_listening c'
    \<and> codec_events c' = codec_events c
        @ (if codec_idle c \<and> skip_newlines b \<noteq> [] then [DecodingStarted] else [])
        @ (if r = Ok None then [] else [DecodingEnded])"
proof (cases "codec_idle c")
  case False
  with assms(2) have "codec_decode_request M U c b = Some (c', b', r) \<or> codec_decode_response M c b = Some (c', b', r)"
    by (auto simp: codec_decode_def codec_idle_def split: if_split_asm)
  with False codec_decode_parts_events [OF assms(1)] show ?thesis by auto
next
  case True
  let ?c = "if skip_newlines b \<noteq> [] then send_codec_event DecodingStarted c else c"
  have "(c', b', r) = (?c, skip_newlines b, Ok None)
      \<or> codec_decode_request M U ?c (skip_newlines b) = Some (c', b', r)
      \<or> codec_decode_response M ?c (skip_newlines b) = Some (c', b', r)"
    using assms(2) True unfolding codec_decode_def codec_idle_def Let_def by (auto split: if_split_asm)
  moreover have l: "codec_listening ?c" using assms(1) by simp
  ultimately have "codec_listening c' \<and> codec_events c' = codec_events ?c @ (if r = Ok None then [] else [DecodingEnded])"
    using codec_decode_parts_events [OF l] by auto
  with True assms(1) show ?thesis by simp
qed

lemma codec_decode_events_witness:
  "\<exists>c' b' r. codec_decode list_headers plain_uris (codec_with_events list_headers \<lparr>sink_receiver_alive = True, sink_events = []\<rparr>)
      (message_bytes list_headers plain_uris (MessageRequest play_request) @ []) = Some (c', b', r)
    \<and> codec_events c' = [DecodingStarted, DecodingEnded]"
proof -
  let ?c = "codec_with_events list_headers \<lparr>sink_receiver_alive = True, sink_events = []\<rparr> :: (headers, bytes) codec"
  let ?b = "message_bytes list_headers plain_uris (MessageRequest play_request) @ []"
  have ok: "message_encodable list_headers plain_uris (MessageRequest play_request)"
    by (simp add: message_encodable_def play_request_encodable)
  obtain c' m' where run: "codec_decode list_headers plain_uris ?c ?b = Some (c', [], Ok (Some m'))"
    using codec_decode_message [OF list_headers_laws ok codec_ready_new(2)] by blast
  have "method_valid (req_method play_request)" "req_version play_request = Rtsp2_0"
    by (simp_all add: play_request_def)
  note start = request_bytes_start [OF this, of list_headers plain_uris]
  have "skip_newlines ?b = ?b" "?b \<noteq> []"
    using skip_newlines_id [OF start(1), of "[]"] start(3) by (auto simp: message_bytes_def)
  moreover have "codec_idle ?c" by (rule codec_ready_idle [OF codec_ready_new(2)])
  moreover have "codec_listening ?c" "codec_events ?c = []"
    by (simp_all add: codec_listening_def codec_with_events_def codec_events_def)
  ultimately show ?thesis using codec_decode_events [OF _ run] run by fastforce
qed

text \<open>
  C29. A decoding error is final: every later call on the codec returns the same error and takes
  nothing from the buffer, whatever it holds.
\<close>

theorem codec_error_final:
  assumes "codec_decode M U c b = Some (c', b', Err f)"
  shows "\<exists>c''. codec_decode M U c' x = Some (c'', x, Err f)
    \<and> codec_request_decoder c'' = codec_request_decoder c' \<and> codec_response_decoder c'' = codec_response_decoder c'"
  using codec_error_kind [OF assms]
  by (auto simp: codec_decode_def codec_decode_request_def codec_decode_response_def request_decode_error
      response_decode_error Let_def)

lemma codec_error_final_witness:
  "\<exists>c' b' c'' f. codec_decode list_headers plain_uris (codec_new list_headers) ''$bad x'' = Some (c', b', Err f)
     \<and> codec_decode list_headers plain_uris c' ''PLAY '' = Some (c'', ''PLAY '', Err f)"
proof -
  let ?d = "codec_request_decoder (codec_new list_headers :: (headers, bytes) codec)"
  have run: "rq_running ?d" "rqd_state ?d = RqStMethod" "rqc_method_max_length (rqd_config ?d) = 50"
    "rsd_state (codec_response_decoder (codec_new list_headers :: (headers, bytes) codec)) = RsStVersion"
    by (simp_all add: rq_running_def codec_new_def request_decoder_new_def request_decoder_with_config_def
        response_decoder_new_def response_decoder_with_config_def request_config_default_def decoder_limits)
  moreover have "position (\<lambda>byte. byte = SP) ''$bad x'' = Some 4" by code_simp
  moreover have "method_try_from ''$bad'' = Err MethodStartsWithDollarSign" by code_simp
  ultimately have "rq_step list_headers plain_uris ?d ''$bad x''
      = Some (?d, ''$bad x'', DecodeFailed (RqMethod MethodStartsWithDollarSign))"
    by (simp add: rq_step_eq rq_decode_method_def)
  then have "request_decode list_headers plain_uris ?d ''$bad x''
      = Some (rq_fail (RqMethod MethodStartsWithDollarSign) ?d, DecodeFailed (RqMethod MethodStartsWithDollarSign), 0)"
    using request_decode_first_step(2) [OF run(1)] by fastforce
  moreover have "codec_decode list_headers plain_uris (codec_new list_headers) ''$bad x''
      = codec_decode_request list_headers plain_uris
          (send_codec_event DecodingStarted (codec_new list_headers)) ''$bad x''"
    by (subst codec_decode_idle [OF codec_ready_idle [OF codec_ready_new(1)]])
       (simp_all add: byte_consts starts_with_def)
  ultimately have "\<exists>c' b' f. codec_decode list_headers plain_uris (codec_new list_headers) ''$bad x'' = Some (c', b', Err f)"
    by (simp add: codec_decode_request_def)
  then show ?thesis using codec_error_final by blast
qed

text \<open>
  At the end of the input a message that is only partly there is reported only when bytes of it are
  still in the buffer.
\<close>

lemma codec_eof_mid_message:
  assumes "rqd_state (codec_request_decoder c) = RqStURI"
  shows "codec_decode_eof M U c [] = Some (c, [], Ok None)"
proof -
  have "rq_step M U (codec_request_decoder c) [] = Some (codec_request_decoder c, [], Incomplete)"
    using assms by (simp add: rq_step_eq rq_decode_uri_def Let_def)
  then have "request_decode M U (codec_request_decoder c) [] = Some (codec_request_decoder c, Incomplete, 0)"
    using assms request_decode_first_step(1) [of "codec_request_decoder c"] by (fastforce simp: rq_running_def)
  then show ?thesis using assms by (simp add: codec_decode_eof_def codec_decode_def codec_decode_request_def Let_def)
qed

end
