(* ===== verification/Sender.thy ===== *)
theory Sender
  imports Futures Codec
begin

text \<open>
  Sending all outgoing messages through the connection: \<^verbatim>\<open>rtsp-2/src/protocol/connection/sender.rs\<close>.
  The transport is a sink \<open>S\<close>. What the channel of outgoing messages gives is an argument: the
  messages in order, each with the encoded current time that \<open>Date::new()\<close> reads when it is taken,
  and how the channel answers after them. A poll returns what it did not take.
\<close>

record ('m, 'u, 'c) sender =
  snd_buffered_message :: "('m, 'u) Message option"
  snd_sink :: 'c

type_synonym ('m, 'u) outgoing = "(('m, 'u) Message \<times> HeaderValue list) list"

definition sender_new :: "'c \<Rightarrow> ('m, 'u, 'c) sender" where
  "sender_new sink = \<lparr>snd_buffered_message = None, snd_sink = sink\<rparr>"

definition date_header_name :: HeaderName where "date_header_name = HeaderDate"

text \<open>\<open>typed_insert\<close> of the date, whose encoding is the argument.\<close>

definition add_date :: "'m header_map_ops \<Rightarrow> ('m, 'u) Message \<times> HeaderValue list \<Rightarrow> ('m, 'u) Message" where
  "add_date M md =
     (case md of
        (MessageRequest request, now) \<Rightarrow>
          MessageRequest (request\<lparr>req_headers := typed_insert M date_header_name id now (req_headers request)\<rparr>)
      | (MessageResponse response, now) \<Rightarrow>
          MessageResponse (response\<lparr>resp_headers := typed_insert M date_header_name id now (resp_headers response)\<rparr>))"

definition try_send_message ::
  "('c, ('m, 'u) Message, 'e) sink_ops \<Rightarrow> ('m, 'u) Message \<Rightarrow> ('m, 'u, 'c) sender
     \<Rightarrow> ('m, 'u, 'c) sender \<times> (unit, 'e) Poll"
where
  "try_send_message S message s =
     (case sink_start_send S (snd_sink s) message of
        (sink, Err e) \<Rightarrow> (s\<lparr>snd_sink := sink\<rparr>, Err e)
      | (sink, Ok (SinkNotReady message)) \<Rightarrow>
          (s\<lparr>snd_sink := sink, snd_buffered_message := Some message\<rparr>, Ok NotReady)
      | (sink, Ok SinkReady) \<Rightarrow> (s\<lparr>snd_sink := sink\<rparr>, Ok (Ready ())))"

text \<open>The loop of \<open>poll_write\<close>; the third component is what is left in the channel.\<close>

fun poll_write ::
  "'m header_map_ops \<Rightarrow> ('c, ('m, 'u) Message, 'e) sink_ops \<Rightarrow> ('m, 'u) outgoing \<Rightarrow> DrainEnd
     \<Rightarrow> ('m, 'u, 'c) sender \<Rightarrow> ('m, 'u, 'c) sender \<times> ('m, 'u) outgoing \<times> (unit, 'e) Poll"
where
  "poll_write M S [] DrainPending s =
     (case sink_poll_complete S (snd_sink s) of
        (sink, Err e) \<Rightarrow> (s\<lparr>snd_sink := sink\<rparr>, [], Err e)
      | (sink, Ok _) \<Rightarrow> (s\<lparr>snd_sink := sink\<rparr>, [], Ok NotReady))"
| "poll_write M S [] DrainClosed s = (s, [], Ok (Ready ()))"
| "poll_write M S (md # outgoing) e s =
     (case try_send_message S (add_date M md) s of
        (s, Ok (Ready _)) \<Rightarrow> poll_write M S outgoing e s
      | (s, r) \<Rightarrow> (s, outgoing, r))"

definition sender_poll ::
  "'m header_map_ops \<Rightarrow> ('c, ('m, 'u) Message, 'e) sink_ops \<Rightarrow> ('m, 'u) outgoing \<Rightarrow> DrainEnd
     \<Rightarrow> ('m, 'u, 'c) sender \<Rightarrow> ('m, 'u, 'c) sender \<times> ('m, 'u) outgoing \<times> (unit, 'e) Poll"
where
  "sender_poll M S outgoing e s =
     (let write = (\<lambda>s. case poll_write M S outgoing e s of
                     (s, rest, Ok (Ready _)) \<Rightarrow>
                       (case sink_close S (snd_sink s) of (sink, r) \<Rightarrow> (s\<lparr>snd_sink := sink\<rparr>, rest, r))
                   | (s, rest, r) \<Rightarrow> (s, rest, r))
      in case snd_buffered_message s of
           None \<Rightarrow> write s
         | Some message \<Rightarrow>
             (case try_send_message S message (s\<lparr>snd_buffered_message := None\<rparr>) of
                (s, Ok (Ready _)) \<Rightarrow> write s
              | (s, r) \<Rightarrow> (s, outgoing, r)))"

subsection \<open>Facts\<close>

text \<open>
  What the sender is responsible for: what the sink accepted, then the buffered message, then what
  is still in the channel.
\<close>

definition in_flight ::
  "'m header_map_ops \<Rightarrow> ('c, ('m, 'u) Message, 'e) sink_ops \<Rightarrow> ('m, 'u, 'c) sender \<Rightarrow> ('m, 'u) outgoing
     \<Rightarrow> ('m, 'u) Message list"
where
  "in_flight M S s outgoing =
     sink_accepted S (snd_sink s)
     @ (case snd_buffered_message s of None \<Rightarrow> [] | Some message \<Rightarrow> [message])
     @ map (add_date M) outgoing"

lemma try_send_cases:
  assumes "sink_laws S" "snd_buffered_message s = None" "try_send_message S message s = (s', r)"
  shows "r = Ok (Ready ()) \<and> snd_buffered_message s' = None
        \<and> sink_accepted S (snd_sink s') = sink_accepted S (snd_sink s) @ [message]
    \<or> r = Ok NotReady \<and> snd_buffered_message s' = Some message
        \<and> sink_accepted S (snd_sink s') = sink_accepted S (snd_sink s)
    \<or> (\<exists>e. r = Err e) \<and> snd_buffered_message s' = None
        \<and> sink_accepted S (snd_sink s') = sink_accepted S (snd_sink s)"
  using assms(2,3) sink_lawsD [OF assms(1), of "snd_sink s"]
  by (auto simp: try_send_message_def split: prod.splits sum.splits AsyncSink.splits)

lemma poll_write_flight:
  "sink_laws S \<Longrightarrow> snd_buffered_message s = None \<Longrightarrow> poll_write M S outgoing e s = (s', rest, r) \<Longrightarrow>
    (case r of
       Ok a \<Rightarrow> in_flight M S s' rest = in_flight M S s outgoing
         \<and> (a = Ready () \<longrightarrow> e = DrainClosed \<and> rest = [] \<and> snd_buffered_message s' = None)
     | Err _ \<Rightarrow> (\<exists>n. sink_accepted S (snd_sink s') = take n (in_flight M S s outgoing)))"
proof (induction M S outgoing e s rule: poll_write.induct)
  case (1 M S s)
  then show ?case
    using sink_lawsD(4) [OF "1.prems"(1)]
    by (auto simp: in_flight_def split: prod.splits sum.splits intro!: exI [of _ "length (sink_accepted S (snd_sink s))"])
next
  case (3 M S md outgoing e s)
  obtain t a where send: "try_send_message S (add_date M md) s = (t, a)" by fastforce
  from try_send_cases [OF "3.prems"(1,2) send] show ?case
  proof (elim disjE conjE exE)
    assume a: "a = Ok (Ready ())" and t: "snd_buffered_message t = None"
      "sink_accepted S (snd_sink t) = sink_accepted S (snd_sink s) @ [add_date M md]"
    then have "in_flight M S t outgoing = in_flight M S s (md # outgoing)"
      using "3.prems"(2) by (simp add: in_flight_def)
    moreover have "poll_write M S outgoing e t = (s', rest, r)" using "3.prems"(3) a send by simp
    ultimately show ?thesis
      using "3.IH" [OF send [symmetric] a refl "3.prems"(1) t(1)]
      by (cases r) simp_all
  next
    assume "a = Ok NotReady" "snd_buffered_message t = Some (add_date M md)"
      "sink_accepted S (snd_sink t) = sink_accepted S (snd_sink s)"
    then show ?thesis using "3.prems" send by (auto simp: in_flight_def)
  next
    fix x
    assume "a = Err x" "sink_accepted S (snd_sink t) = sink_accepted S (snd_sink s)"
    then show ?thesis
      using "3.prems" send by (auto simp: in_flight_def intro!: exI [of _ "length (sink_accepted S (snd_sink s))"])
  qed
qed (auto simp: in_flight_def)

lemma sender_write_flight:
  assumes "sink_laws S" "snd_buffered_message s = None"
    and "(case poll_write M S outgoing e s of
            (s, rest, Ok (Ready _)) \<Rightarrow>
              (case sink_close S (snd_sink s) of (sink, r) \<Rightarrow> (s\<lparr>snd_sink := sink\<rparr>, rest, r))
          | (s, rest, r) \<Rightarrow> (s, rest, r)) = (s', rest, r)"
  shows "case r of
       Ok a \<Rightarrow> in_flight M S s' rest = in_flight M S s outgoing
         \<and> (a = Ready () \<longrightarrow> sink_accepted S (snd_sink s') = in_flight M S s outgoing)
     | Err _ \<Rightarrow> (\<exists>n. sink_accepted S (snd_sink s') = take n (in_flight M S s outgoing))"
proof -
  obtain t rest' a where w: "poll_write M S outgoing e s = (t, rest', a)" by (metis prod_cases3)
  note flight = poll_write_flight [OF assms(1,2) w]
  show ?thesis
  proof (cases "a = Ok (Ready ())")
    case True
    obtain sink b where "sink_close S (snd_sink t) = (sink, b)" by fastforce
    then show ?thesis
      using True w flight assms(3) sink_lawsD(5) [OF assms(1)]
      by (auto simp: in_flight_def split: sum.split intro!: exI [of _ "length (sink_accepted S (snd_sink t))"])
  next
    case False
    then show ?thesis using w flight assms(3) by (auto split: sum.splits Async.splits)
  qed
qed

subsection \<open>Properties\<close>

text \<open>
  C11. Outgoing messages reach the transport completely and in order. While polling the sender
  succeeds, what the transport has accepted, then the message that is waiting for it, then what is
  still in the channel is always the same sequence, every message with the date added when it was
  taken; when the sender reports that it is done, the transport has accepted all of it. When it
  fails, the transport has accepted a prefix of that sequence.
\<close>

theorem sender_in_order:
  assumes "sink_laws S"
  shows "case sender_poll M S outgoing e s of
      (s', rest, Ok a) \<Rightarrow> in_flight M S s' rest = in_flight M S s outgoing
         \<and> (a = Ready () \<longrightarrow> sink_accepted S (snd_sink s') = in_flight M S s outgoing)
    | (s', rest, Err _) \<Rightarrow> (\<exists>n. sink_accepted S (snd_sink s') = take n (in_flight M S s outgoing))"
proof (cases "snd_buffered_message s")
  case None
  then show ?thesis
    using sender_write_flight [OF assms None, of M outgoing e]
    by (auto simp: sender_poll_def split: prod.splits sum.splits Async.splits)
next
  case (Some message)
  let ?s = "s\<lparr>snd_buffered_message := None\<rparr>"
  obtain t a where send: "try_send_message S message ?s = (t, a)" by fastforce
  have "snd_buffered_message ?s = None" by simp
  from try_send_cases [OF assms this send] show ?thesis
  proof (elim disjE conjE exE)
    assume ready: "a = Ok (Ready ())" "snd_buffered_message t = None"
      "sink_accepted S (snd_sink t) = sink_accepted S (snd_sink ?s) @ [message]"
    then have "in_flight M S t outgoing = in_flight M S s outgoing" using Some by (simp add: in_flight_def)
    then show ?thesis
      using sender_write_flight [OF assms ready(2), of M outgoing e] ready(1) Some send
      by (auto simp: sender_poll_def split: prod.splits sum.splits Async.splits)
  next
    assume "a = Ok NotReady" "snd_buffered_message t = Some message"
      "sink_accepted S (snd_sink t) = sink_accepted S (snd_sink ?s)"
    then show ?thesis using Some send by (simp add: sender_poll_def in_flight_def)
  next
    fix x
    assume "a = Err x" "sink_accepted S (snd_sink t) = sink_accepted S (snd_sink ?s)"
    then show ?thesis
      using Some send
      by (auto simp: sender_poll_def in_flight_def intro!: exI [of _ "length (sink_accepted S (snd_sink s))"])
  qed
qed

definition demo_transport :: "((headers, bytes) Message list, (headers, bytes) Message, unit) sink_ops" where
  "demo_transport = list_sink 5"

lemma sender_in_order_witness:
  "case sender_poll list_headers demo_transport [(MessageRequest play_request, [HeaderValue ''now''])]
      DrainClosed (sender_new []) of
     (s', rest, Ok a) \<Rightarrow> in_flight list_headers demo_transport s' rest
        = [add_date list_headers (MessageRequest play_request, [HeaderValue ''now''])]
   | (s', rest, Err _) \<Rightarrow> True"
proof -
  have laws: "sink_laws demo_transport" by (simp add: demo_transport_def list_sink_laws)
  have start: "in_flight list_headers demo_transport (sender_new []) [md] = [add_date list_headers md]" for md
    by (simp add: in_flight_def sender_new_def demo_transport_def) (simp add: list_sink_def)
  show ?thesis
    using sender_in_order [OF laws, where M = list_headers and e = DrainClosed and s = "sender_new []"
        and outgoing = "[(MessageRequest play_request, [HeaderValue ''now''])]"]
    unfolding start by (auto split: prod.splits sum.splits)
qed

end
