(* ===== verification/Receiver.thy ===== *)
theory Receiver
  imports Responses Forwarding Sender
begin

text \<open>
  Receiving: the type \<open>Receiver\<close> of \<^verbatim>\<open>rtsp-2/src/protocol/connection/receiver.rs\<close>, which reads
  the stream of incoming messages, forwards requests and matches responses. The channel to the
  request handler is the parameter \<open>S\<close>, the handle to the sender is the parameter \<open>H\<close>. What the
  channels and the stream give during a poll is a record of the environment. The uses of the
  single-use channels of pending requests are logged. The option around a result is a panic.
\<close>

record ('m, 'u, 'c, 'ch, 'h) receiver =
  rc_decoding_timer :: bool
  rc_forwarding_receiver :: "('m, 'u, 'c) forwarding_receiver option"
  rc_requests_allowed :: bool
  rc_response_receiver :: "'ch response_receiver option"
  rc_channel :: 'h
  rc_sender_handle :: bool
  rc_stream :: bool
  rc_uses :: "('m, 'ch) channel_use list"

text \<open>
  A message comes with the channel that a \<open>Continue\<close> response would create and whether the old one
  still has its receiver.
\<close>

type_synonym ('m, 'u, 'ch) stream_item = "('m, 'u) Message \<times> 'ch \<times> bool"

datatype 'u StreamEnd = StreamPending | StreamEnded | StreamFailed "'u ProtocolError"

record ('m, 'u, 'ch) receiver_env =
  re_updates :: "'ch PendingRequestUpdate list"
  re_updates_end :: DrainEnd
  re_late_updates :: "'ch PendingRequestUpdate list"
  re_late_end :: DrainEnd
  re_stream :: "('m, 'u, 'ch) stream_item list"
  re_stream_end :: "'u StreamEnd"
  re_codec_events :: "CodecEvent list"
  re_codec_end :: DrainEnd
  re_decoding_timer :: TimerPoll

definition receiver_new :: "'c \<Rightarrow> 'h \<Rightarrow> nat \<Rightarrow> ('m, 'u, 'c, 'ch, 'h) receiver" where
  "receiver_new tx_incoming_request sender_handle request_buffer_size =
     \<lparr>rc_decoding_timer = False,
      rc_forwarding_receiver = Some (fwd_new tx_incoming_request request_buffer_size),
      rc_requests_allowed = True, rc_response_receiver = Some response_receiver_new,
      rc_channel = sender_handle, rc_sender_handle = True, rc_stream = True, rc_uses = []\<rparr>"

definition is_forwarding_shutdown :: "('m, 'u, 'c, 'ch, 'h) receiver \<Rightarrow> bool" where
  "is_forwarding_shutdown rc \<longleftrightarrow> rc_forwarding_receiver rc = None"

definition is_request_receiver_shutdown :: "('m, 'u, 'c, 'ch, 'h) receiver \<Rightarrow> bool" where
  "is_request_receiver_shutdown rc \<longleftrightarrow> \<not> rc_requests_allowed rc"

definition is_response_receiver_shutdown :: "('m, 'u, 'c, 'ch, 'h) receiver \<Rightarrow> bool" where
  "is_response_receiver_shutdown rc \<longleftrightarrow> rc_response_receiver rc = None"

definition is_receiving_shutdown :: "('m, 'u, 'c, 'ch, 'h) receiver \<Rightarrow> bool" where
  "is_receiving_shutdown rc \<longleftrightarrow> is_request_receiver_shutdown rc \<and> is_response_receiver_shutdown rc"

definition is_receiver_shutdown :: "('m, 'u, 'c, 'ch, 'h) receiver \<Rightarrow> bool" where
  "is_receiver_shutdown rc \<longleftrightarrow> is_receiving_shutdown rc \<and> is_forwarding_shutdown rc"

subsection \<open>Messages and errors\<close>

definition handle_codec_event :: "CodecEvent \<Rightarrow> ('m, 'u, 'c, 'ch, 'h) receiver \<Rightarrow> ('m, 'u, 'c, 'ch, 'h) receiver" where
  "handle_codec_event event rc =
     (case event of
        DecodingStarted \<Rightarrow> rc\<lparr>rc_decoding_timer := True\<rparr>
      | DecodingEnded \<Rightarrow> rc\<lparr>rc_decoding_timer := False\<rparr>
      | _ \<Rightarrow> rc)"

definition handle_message ::
  "'m header_map_ops \<Rightarrow> ('m, 'u, 'ch) stream_item \<Rightarrow> ('m, 'u, 'c, 'ch, 'h) receiver
     \<Rightarrow> (('m, 'u, 'c, 'ch, 'h) receiver \<times> (RequestReceiverError + unit)) option"
where
  "handle_message M item rc =
     (case item of
        (MessageRequest request, _) \<Rightarrow>
          if rc_requests_allowed rc then
            (case rc_forwarding_receiver rc of
               None \<Rightarrow> None
             | Some forwarding_receiver \<Rightarrow>
                 (case fwd_handle_request M request forwarding_receiver of
                    (forwarding_receiver, r) \<Rightarrow>
                      Some (rc\<lparr>rc_forwarding_receiver := Some forwarding_receiver\<rparr>, r)))
          else Some (rc, Ok ())
      | (MessageResponse response, new_channel, alive) \<Rightarrow>
          (case rc_response_receiver rc of
             None \<Rightarrow> Some (rc, Ok ())
           | Some response_receiver \<Rightarrow>
               (case handle_response M new_channel alive response response_receiver of
                  (response_receiver, uses) \<Rightarrow>
                    Some (rc\<lparr>rc_response_receiver := Some response_receiver, rc_uses := rc_uses rc @ uses\<rparr>, Ok ()))))"

definition receiver_send ::
  "('h, ('m, 'u) Message) unbounded_ops \<Rightarrow> (bytes, 'm) Response option \<Rightarrow> ('m, 'u, 'c, 'ch, 'h) receiver
     \<Rightarrow> ('m, 'u, 'c, 'ch, 'h) receiver option"
where
  "receiver_send H response rc =
     (case response of
        None \<Rightarrow> None
      | Some response \<Rightarrow>
          (case chan_send H (rc_channel rc) (MessageResponse response) of
             (channel, sent) \<Rightarrow> if sent then Some (rc\<lparr>rc_channel := channel\<rparr>) else None))"

definition protocol_error_response ::
  "'m header_map_ops \<Rightarrow> 'u ProtocolError \<Rightarrow> (bytes, 'm) Response option option" where
  "protocol_error_response M error =
     (case error of
        ProtocolDecodeError (DecodeErrorRequest e) \<Rightarrow>
          Some (case e of
            RqUnsupportedVersion \<Rightarrow> VERSION_NOT_SUPPORTED_RESPONSE M
          | RqBodyTooLong \<Rightarrow> REQUEST_MESSAGE_BODY_TOO_LARGE_RESPONSE M
          | RqURITooLong \<Rightarrow> REQUEST_URI_TOO_LONG_RESPONSE M
          | _ \<Rightarrow> BAD_REQUEST_RESPONSE M)
      | _ \<Rightarrow> None)"

definition handle_protocol_error ::
  "'m header_map_ops \<Rightarrow> ('h, ('m, 'u) Message) unbounded_ops \<Rightarrow> 'u ProtocolError
     \<Rightarrow> ('m, 'u, 'c, 'ch, 'h) receiver \<Rightarrow> ('m, 'u, 'c, 'ch, 'h) receiver option"
where
  "handle_protocol_error M H error rc =
     (if rc_sender_handle rc then
        (case protocol_error_response M error of None \<Rightarrow> Some rc | Some response \<Rightarrow> receiver_send H response rc)
      else Some rc)"

definition handle_request_receiver_error ::
  "'m header_map_ops \<Rightarrow> ('h, ('m, 'u) Message) unbounded_ops \<Rightarrow> RequestReceiverError
     \<Rightarrow> ('m, 'u, 'c, 'ch, 'h) receiver \<Rightarrow> ('m, 'u, 'c, 'ch, 'h) receiver option"
where
  "handle_request_receiver_error M H error rc =
     (if \<not> rc_sender_handle rc then None
      else case error of
        ReceiverBadRequest \<Rightarrow> receiver_send H (BAD_REQUEST_RESPONSE M) rc
      | ReceiverCSeqDifferenceTooLarge \<Rightarrow> receiver_send H (FORBIDDEN_RESPONSE M) rc)"

subsection \<open>Shutting down\<close>

definition shutdown_request_receiver :: "('m, 'u, 'c, 'ch, 'h) receiver \<Rightarrow> ('m, 'u, 'c, 'ch, 'h) receiver \<times> bool" where
  "shutdown_request_receiver rc =
     (let rc = rc\<lparr>rc_requests_allowed := False\<rparr>;
          rc = (if is_response_receiver_shutdown rc then rc\<lparr>rc_sender_handle := False, rc_stream := False\<rparr> else rc);
          rc = (case rc_forwarding_receiver rc of
                  Some forwarding_receiver \<Rightarrow>
                    if \<not> fwd_has_requests_ready forwarding_receiver then rc\<lparr>rc_forwarding_receiver := None\<rparr> else rc
                | None \<Rightarrow> rc)
      in (rc, is_receiver_shutdown rc))"

definition shutdown_forwarding_receiver :: "('m, 'u, 'c, 'ch, 'h) receiver \<Rightarrow> ('m, 'u, 'c, 'ch, 'h) receiver \<times> bool" where
  "shutdown_forwarding_receiver rc = shutdown_request_receiver (rc\<lparr>rc_forwarding_receiver := None\<rparr>)"

text \<open>
  Dropping the response receiver handles the updates that are there by then; a stream of updates
  that has ended stays ended.
\<close>

definition drop_response_receiver ::
  "'ch PendingRequestUpdate list \<Rightarrow> DrainEnd \<Rightarrow> ('m, 'u, 'c, 'ch, 'h) receiver \<Rightarrow> ('m, 'u, 'c, 'ch, 'h) receiver" where
  "drop_response_receiver late late_end rc =
     (case rc_response_receiver rc of
        None \<Rightarrow> rc
      | Some rr \<Rightarrow>
          (case (if rr_updates_done rr then response_receiver_drop [] DrainClosed rr
                 else response_receiver_drop late late_end rr) of
             (_, uses) \<Rightarrow> rc\<lparr>rc_response_receiver := None, rc_uses := rc_uses rc @ uses\<rparr>))"

definition shutdown_response_receiver ::
  "'ch PendingRequestUpdate list \<Rightarrow> DrainEnd \<Rightarrow> ('m, 'u, 'c, 'ch, 'h) receiver
     \<Rightarrow> ('m, 'u, 'c, 'ch, 'h) receiver \<times> bool"
where
  "shutdown_response_receiver late late_end rc =
     (let rc = drop_response_receiver late late_end rc;
          rc = (if is_request_receiver_shutdown rc then rc\<lparr>rc_sender_handle := False, rc_stream := False\<rparr> else rc)
      in (rc, is_receiver_shutdown rc))"

definition shutdown_receiving ::
  "'ch PendingRequestUpdate list \<Rightarrow> DrainEnd \<Rightarrow> ('m, 'u, 'c, 'ch, 'h) receiver
     \<Rightarrow> ('m, 'u, 'c, 'ch, 'h) receiver \<times> bool"
where
  "shutdown_receiving late late_end rc =
     shutdown_response_receiver late late_end (fst (shutdown_request_receiver rc))"

subsection \<open>Polling\<close>

definition receiver_is_full :: "('m, 'u, 'c, 'ch, 'h) receiver \<Rightarrow> bool" where
  "receiver_is_full rc \<longleftrightarrow> (case rc_forwarding_receiver rc of Some fr \<Rightarrow> fwd_is_full fr | None \<Rightarrow> False)"

text \<open>
  The loop of \<open>poll_stream\<close> owns the stream: it is put back only when it may give more. The second
  component is what was not read.
\<close>

fun poll_stream_loop ::
  "'m header_map_ops \<Rightarrow> ('h, ('m, 'u) Message) unbounded_ops \<Rightarrow> ('m, 'u, 'ch) stream_item list \<Rightarrow> 'u StreamEnd
     \<Rightarrow> ('m, 'u, 'c, 'ch, 'h) receiver
     \<Rightarrow> (('m, 'u, 'c, 'ch, 'h) receiver \<times> ('m, 'u, 'ch) stream_item list \<times> (unit, 'u ProtocolError) Poll) option"
where
  "poll_stream_loop M H [] e rc =
     (if receiver_is_full rc then Some (rc\<lparr>rc_stream := True\<rparr>, [], Ok NotReady)
      else case e of
        StreamPending \<Rightarrow> Some (rc\<lparr>rc_stream := True\<rparr>, [], Ok NotReady)
      | StreamEnded \<Rightarrow> Some (rc, [], Ok (Ready ()))
      | StreamFailed error \<Rightarrow>
          (case handle_protocol_error M H error rc of None \<Rightarrow> None | Some rc \<Rightarrow> Some (rc, [], Err error)))"
| "poll_stream_loop M H (item # items) e rc =
     (if receiver_is_full rc then Some (rc\<lparr>rc_stream := True\<rparr>, item # items, Ok NotReady)
      else case handle_message M item rc of
        None \<Rightarrow> None
      | Some (rc, Ok _) \<Rightarrow> poll_stream_loop M H items e rc
      | Some (rc, Err error) \<Rightarrow>
          (case handle_request_receiver_error M H error rc of
             None \<Rightarrow> None | Some rc \<Rightarrow> poll_stream_loop M H items e rc))"

definition poll_stream ::
  "'m header_map_ops \<Rightarrow> ('h, ('m, 'u) Message) unbounded_ops \<Rightarrow> ('m, 'u, 'ch) stream_item list \<Rightarrow> 'u StreamEnd
     \<Rightarrow> ('m, 'u, 'c, 'ch, 'h) receiver
     \<Rightarrow> (('m, 'u, 'c, 'ch, 'h) receiver \<times> ('m, 'u, 'ch) stream_item list \<times> (unit, 'u ProtocolError) Poll) option"
where
  "poll_stream M H items e rc =
     (if rc_stream rc then poll_stream_loop M H items e (rc\<lparr>rc_stream := False\<rparr>)
      else Some (rc, items, Ok (Ready ())))"

definition poll_codec_events ::
  "CodecEvent list \<Rightarrow> DrainEnd \<Rightarrow> ('m, 'u, 'c, 'ch, 'h) receiver \<Rightarrow> ('m, 'u, 'c, 'ch, 'h) receiver option" where
  "poll_codec_events events e rc =
     (case e of DrainPending \<Rightarrow> Some (fold handle_codec_event events rc) | DrainClosed \<Rightarrow> None)"

definition poll_decoding_timer ::
  "TimerPoll \<Rightarrow> ('m, 'u, 'c, 'ch, 'h) receiver \<Rightarrow> (unit + unit Async) option" where
  "poll_decoding_timer answer rc =
     (if rc_decoding_timer rc then
        (case answer of
           TimerElapsed \<Rightarrow> Some (Ok (Ready ()))
         | TimerPending \<Rightarrow> Some (Ok NotReady)
         | TimerAtCapacity \<Rightarrow> Some (Err ())
         | TimerShutdown \<Rightarrow> None)
      else Some (Ok NotReady))"

definition poll_response_receiver ::
  "('m, 'u, 'ch) receiver_env \<Rightarrow> ('m, 'u, 'c, 'ch, 'h) receiver \<Rightarrow> ('m, 'u, 'c, 'ch, 'h) receiver" where
  "poll_response_receiver env rc =
     (case rc_response_receiver rc of
        None \<Rightarrow> rc
      | Some rr \<Rightarrow>
          (case response_receiver_poll (re_updates env) (re_updates_end env) rr of
             (rr, uses, r) \<Rightarrow>
               (let rc = rc\<lparr>rc_response_receiver := Some rr, rc_uses := rc_uses rc @ uses\<rparr>
                in case r of Ready _ \<Rightarrow> fst (shutdown_response_receiver [] DrainClosed rc) | NotReady \<Rightarrow> rc)))"

definition poll_receiving ::
  "'m header_map_ops \<Rightarrow> ('h, ('m, 'u) Message) unbounded_ops \<Rightarrow> ('m, 'u, 'ch) receiver_env
     \<Rightarrow> ('m, 'u, 'c, 'ch, 'h) receiver
     \<Rightarrow> (('m, 'u, 'c, 'ch, 'h) receiver \<times> ('m, 'u, 'ch) stream_item list \<times> unit Async) option"
where
  "poll_receiving M H env rc =
     (case poll_stream M H (re_stream env) (re_stream_end env) (poll_response_receiver env rc) of
        None \<Rightarrow> None
      | Some (rc, rest, Ok NotReady) \<Rightarrow>
          (case poll_codec_events (re_codec_events env) (re_codec_end env) rc of
             None \<Rightarrow> None
           | Some rc \<Rightarrow>
               (case poll_decoding_timer (re_decoding_timer env) rc of
                  None \<Rightarrow> None
                | Some (Ok NotReady) \<Rightarrow> Some (rc, rest, NotReady)
                | Some _ \<Rightarrow> Some (rc, rest, Ready ())))
      | Some (rc, rest, _) \<Rightarrow> Some (rc, rest, Ready ()))"

text \<open>The second half of \<open>poll\<close>: forwarding goes on after receiving has ended.\<close>

definition poll_forwarding ::
  "('c, ('m, 'u) incoming, unit) sink_ops \<Rightarrow> ('m, 'u, 'c, 'ch, 'h) receiver
     \<Rightarrow> ('m, 'u, 'c, 'ch, 'h) receiver \<times> bool"
where
  "poll_forwarding S rc =
     (case rc_forwarding_receiver rc of
        Some forwarding_receiver \<Rightarrow>
          (case fwd_poll S forwarding_receiver of
             (forwarding_receiver, r) \<Rightarrow>
               (let rc = rc\<lparr>rc_forwarding_receiver := Some forwarding_receiver\<rparr>
                in case r of
                     Err _ \<Rightarrow> shutdown_forwarding_receiver rc
                   | Ok (Ready _) \<Rightarrow>
                       if is_request_receiver_shutdown rc then shutdown_forwarding_receiver rc else (rc, False)
                   | Ok NotReady \<Rightarrow> (rc, False)))
      | None \<Rightarrow> (rc, is_receiver_shutdown rc))"

definition receiver_poll ::
  "'m header_map_ops \<Rightarrow> ('h, ('m, 'u) Message) unbounded_ops \<Rightarrow> ('c, ('m, 'u) incoming, unit) sink_ops
     \<Rightarrow> ('m, 'u, 'ch) receiver_env \<Rightarrow> ('m, 'u, 'c, 'ch, 'h) receiver
     \<Rightarrow> (('m, 'u, 'c, 'ch, 'h) receiver \<times> ('m, 'u, 'ch) stream_item list \<times> unit Async) option"
where
  "receiver_poll M H S env rc =
     (case poll_receiving M H env rc of
        None \<Rightarrow> None
      | Some (rc, rest, r) \<Rightarrow>
          (let rc = (case r of
                 Ready _ \<Rightarrow> fst (shutdown_receiving (re_late_updates env) (re_late_end env) rc)
               | NotReady \<Rightarrow> rc)
           in case poll_forwarding S rc of
                (rc, is_shutdown) \<Rightarrow> Some (rc, rest, if is_shutdown then Ready () else NotReady)))"

subsection \<open>Safety\<close>

text \<open>
  Accepting requests implies that they can be forwarded; the sender handle is held exactly while
  something may be received, and between polls so is the stream.
\<close>

definition receiver_wf :: "('m, 'u, 'c, 'ch, 'h) receiver \<Rightarrow> bool" where
  "receiver_wf rc \<longleftrightarrow>
     (rc_requests_allowed rc \<longrightarrow> rc_forwarding_receiver rc \<noteq> None)
     \<and> (rc_sender_handle rc \<longleftrightarrow> \<not> is_receiving_shutdown rc)"

definition receiver_inv :: "('m, 'u, 'c, 'ch, 'h) receiver \<Rightarrow> bool" where
  "receiver_inv rc \<longleftrightarrow> receiver_wf rc \<and> rc_stream rc = rc_sender_handle rc"

lemmas shutdown_tests = is_receiver_shutdown_def is_receiving_shutdown_def is_request_receiver_shutdown_def
  is_response_receiver_shutdown_def is_forwarding_shutdown_def

text \<open>What processing messages leaves alone.\<close>

definition receiver_frame :: "('m, 'u, 'c, 'ch, 'h) receiver \<Rightarrow> ('m, 'u, 'c, 'ch, 'h) receiver \<Rightarrow> bool" where
  "receiver_frame rc rc' \<longleftrightarrow>
     rc_requests_allowed rc' = rc_requests_allowed rc \<and> rc_sender_handle rc' = rc_sender_handle rc
     \<and> (rc_response_receiver rc' = None \<longleftrightarrow> rc_response_receiver rc = None)
     \<and> (rc_forwarding_receiver rc' = None \<longleftrightarrow> rc_forwarding_receiver rc = None)"

lemma receiver_frame_refl [simp]: "receiver_frame rc rc" "receiver_frame rc (rc\<lparr>rc_stream := b\<rparr>)"
  by (simp_all add: receiver_frame_def)

lemma receiver_frame_trans: "receiver_frame a b \<Longrightarrow> receiver_frame b c \<Longrightarrow> receiver_frame a c"
  by (simp add: receiver_frame_def)

lemma receiver_frame_wf: "receiver_frame rc rc' \<Longrightarrow> receiver_wf rc \<Longrightarrow> receiver_wf rc'"
  by (auto simp: receiver_frame_def receiver_wf_def shutdown_tests)

lemma receiver_send_some:
  "never_closed H \<Longrightarrow> \<exists>rc'. receiver_send H (Some response) rc = Some rc' \<and> receiver_frame rc rc'
     \<and> rc_stream rc' = rc_stream rc \<and> rc_forwarding_receiver rc' = rc_forwarding_receiver rc"
  unfolding never_closed_def
  by (auto simp: receiver_send_def receiver_frame_def split: prod.split) (metis snd_conv)+

lemma protocol_error_response_some:
  "protocol_error_response M error = Some response \<Longrightarrow> \<exists>r. response = Some r"
  using canned_total [of M]
  by (auto simp: protocol_error_response_def split: ProtocolError.splits DecodeError.splits request_decode_error.splits)

lemma handle_protocol_error_some:
  "never_closed H \<Longrightarrow> \<exists>rc'. handle_protocol_error M H error rc = Some rc' \<and> receiver_frame rc rc'
     \<and> rc_stream rc' = rc_stream rc \<and> rc_forwarding_receiver rc' = rc_forwarding_receiver rc"
  using receiver_send_some [of H] protocol_error_response_some [of M error]
  by (auto simp: handle_protocol_error_def split: option.split)

lemma handle_request_receiver_error_some:
  "never_closed H \<Longrightarrow> rc_sender_handle rc \<Longrightarrow>
   \<exists>rc'. handle_request_receiver_error M H error rc = Some rc' \<and> receiver_frame rc rc'
     \<and> rc_stream rc' = rc_stream rc \<and> rc_forwarding_receiver rc' = rc_forwarding_receiver rc"
  using receiver_send_some [of H] canned_total(1,7) [of M]
  by (auto simp: handle_request_receiver_error_def split: RequestReceiverError.split)

lemma handle_message_some:
  assumes "receiver_wf rc"
  shows "\<exists>rc' r. handle_message M item rc = Some (rc', r) \<and> receiver_frame rc rc' \<and> rc_stream rc' = rc_stream rc
    \<and> (r \<noteq> Ok () \<longrightarrow> rc_sender_handle rc')"
  using assms
  by (auto simp: handle_message_def receiver_wf_def receiver_frame_def shutdown_tests
      split: prod.splits Message.splits option.splits)

lemma poll_stream_loop_some:
  assumes "never_closed H"
  shows "receiver_wf rc \<Longrightarrow> \<exists>rc' rest r. poll_stream_loop M H items e rc = Some (rc', rest, r)
    \<and> receiver_frame rc rc' \<and> (r = Ok NotReady \<longrightarrow> rc_stream rc')"
proof (induction items arbitrary: rc)
  case Nil
  show ?case
  proof (cases e)
    case (StreamFailed error)
    then show ?thesis
      using handle_protocol_error_some [OF assms, of M error rc] by (cases "receiver_is_full rc") auto
  qed auto
next
  case (Cons item items)
  show ?case
  proof (cases "receiver_is_full rc")
    case False
    obtain rc1 r1 where one: "handle_message M item rc = Some (rc1, r1)" "receiver_frame rc rc1"
      "r1 \<noteq> Ok () \<longrightarrow> rc_sender_handle rc1"
      using handle_message_some [OF Cons.prems, of M item] by blast
    show ?thesis
    proof (cases r1)
      case (Inl error)
      then obtain rc2 where two: "handle_request_receiver_error M H error rc1 = Some rc2" "receiver_frame rc1 rc2"
        using handle_request_receiver_error_some [OF assms, of rc1 M error] one(3) by auto
      have "receiver_frame rc rc2" by (rule receiver_frame_trans [OF one(2) two(2)])
      moreover obtain rc' rest r where "poll_stream_loop M H items e rc2 = Some (rc', rest, r)"
        "receiver_frame rc2 rc'" "r = Ok NotReady \<longrightarrow> rc_stream rc'"
        using Cons.IH [OF receiver_frame_wf [OF \<open>receiver_frame rc rc2\<close> Cons.prems]] by blast
      ultimately show ?thesis
        using one(1) two(1) Inl False receiver_frame_trans [of rc rc2 rc'] by simp
    next
      case (Inr u)
      obtain rc' rest r where "poll_stream_loop M H items e rc1 = Some (rc', rest, r)"
        "receiver_frame rc1 rc'" "r = Ok NotReady \<longrightarrow> rc_stream rc'"
        using Cons.IH [OF receiver_frame_wf [OF one(2) Cons.prems]] by blast
      then show ?thesis
        using one Inr False receiver_frame_trans [of rc rc1 rc'] by simp
    qed
  qed simp
qed

text \<open>The environment keeps its promises: the codec lives as long as the stream, the timers work.\<close>

definition receiver_env_ok :: "('m, 'u, 'ch) receiver_env \<Rightarrow> bool" where
  "receiver_env_ok env \<longleftrightarrow> re_codec_end env = DrainPending \<and> re_decoding_timer env \<noteq> TimerShutdown"

lemma drop_response_receiver_same:
  "rc_forwarding_receiver (drop_response_receiver l e rc) = rc_forwarding_receiver rc"
  "rc_requests_allowed (drop_response_receiver l e rc) = rc_requests_allowed rc"
  "rc_sender_handle (drop_response_receiver l e rc) = rc_sender_handle rc"
  "rc_stream (drop_response_receiver l e rc) = rc_stream rc"
  "rc_response_receiver (drop_response_receiver l e rc) = None"
  by (auto simp: drop_response_receiver_def split: option.split prod.split)

lemma shutdown_response_inv:
  "receiver_inv rc \<Longrightarrow> receiver_inv (fst (shutdown_response_receiver l e rc))"
  by (auto simp: receiver_inv_def receiver_wf_def shutdown_response_receiver_def Let_def shutdown_tests drop_response_receiver_same)

lemma shutdown_request_inv:
  "receiver_inv rc \<Longrightarrow> receiver_inv (fst (shutdown_request_receiver rc))"
  by (auto simp: receiver_inv_def receiver_wf_def shutdown_request_receiver_def Let_def shutdown_tests split: option.split)

lemma shutdown_receiving_inv:
  "receiver_wf rc \<Longrightarrow> receiver_inv (fst (shutdown_receiving l e rc))"
  by (auto simp: receiver_inv_def receiver_wf_def shutdown_receiving_def shutdown_response_receiver_def
      shutdown_request_receiver_def Let_def shutdown_tests drop_response_receiver_same split: option.split)

lemma poll_response_receiver_inv:
  fixes rc :: "('m, 'u, 'c, 'ch, 'h) receiver"
  shows "receiver_inv rc \<Longrightarrow> receiver_inv (poll_response_receiver env rc)"
proof (cases "rc_response_receiver rc")
  case (Some rr)
  assume inv: "receiver_inv rc"
  obtain rr' r and uses :: "('m, 'ch) channel_use list"
    where poll: "response_receiver_poll (re_updates env) (re_updates_end env) rr = (rr', uses, r)"
    by (metis prod_cases3)
  have "receiver_inv (rc\<lparr>rc_response_receiver := Some rr', rc_uses := rc_uses rc @ uses\<rparr>)"
    using inv Some by (simp add: receiver_inv_def receiver_wf_def shutdown_tests)
  with Some poll show ?thesis
    by (cases r) (simp_all add: poll_response_receiver_def shutdown_response_inv)
qed (simp add: poll_response_receiver_def)

lemma handle_codec_event_same:
  "rc_forwarding_receiver (handle_codec_event ev rc) = rc_forwarding_receiver rc"
  "receiver_inv (handle_codec_event ev rc) = receiver_inv rc"
  "receiver_wf (handle_codec_event ev rc) = receiver_wf rc"
  by (simp_all add: handle_codec_event_def receiver_inv_def receiver_wf_def shutdown_tests split: CodecEvent.split)

lemma fold_codec_events_same:
  "rc_forwarding_receiver (fold handle_codec_event evs rc) = rc_forwarding_receiver rc"
  "receiver_inv (fold handle_codec_event evs rc) = receiver_inv rc"
  "receiver_wf (fold handle_codec_event evs rc) = receiver_wf rc"
  by (induction evs arbitrary: rc) (simp_all add: handle_codec_event_same)

lemma poll_receiving_some:
  assumes "never_closed H" "receiver_inv rc" "receiver_env_ok env"
  shows "\<exists>rc' rest r. poll_receiving M H env rc = Some (rc', rest, r)
    \<and> receiver_wf rc' \<and> (r = NotReady \<longrightarrow> receiver_inv rc')"
proof -
  let ?rc = "poll_response_receiver env rc"
  have inv: "receiver_inv ?rc" by (rule poll_response_receiver_inv [OF assms(2)])
  show ?thesis
  proof (cases "rc_stream ?rc")
    case False
    with inv show ?thesis by (simp add: poll_receiving_def poll_stream_def receiver_inv_def)
  next
    case True
    have "receiver_wf (?rc\<lparr>rc_stream := False\<rparr>)"
      using inv by (simp add: receiver_inv_def receiver_wf_def shutdown_tests)
    from poll_stream_loop_some [OF assms(1) this] obtain rc' rest r where
      loop: "poll_stream_loop M H (re_stream env) (re_stream_end env) (?rc\<lparr>rc_stream := False\<rparr>) = Some (rc', rest, r)"
      "receiver_frame (?rc\<lparr>rc_stream := False\<rparr>) rc'" "r = Ok NotReady \<longrightarrow> rc_stream rc'"
      by blast
    have wf: "receiver_wf rc'" using receiver_frame_wf [OF loop(2)] \<open>receiver_wf (?rc\<lparr>rc_stream := False\<rparr>)\<close> .
    have "rc_sender_handle rc'" using loop(2) True inv by (simp add: receiver_frame_def receiver_inv_def)
    then have "receiver_inv rc'" if "r = Ok NotReady" using that loop(3) wf by (simp add: receiver_inv_def)
    with wf loop(1) True assms(3) show ?thesis
      by (cases "r = Ok NotReady")
         (auto simp: poll_receiving_def poll_stream_def poll_codec_events_def poll_decoding_timer_def receiver_env_ok_def
            fold_codec_events_same split: sum.split Async.split TimerPoll.split)
  qed
qed

lemma poll_forwarding_inv:
  assumes "receiver_inv rc" "poll_forwarding S rc = (rc', b)"
  shows "receiver_inv rc' \<and> (b \<longleftrightarrow> is_receiver_shutdown rc')"
proof (cases "rc_forwarding_receiver rc")
  case None
  then show ?thesis using assms by (auto simp: poll_forwarding_def)
next
  case (Some fr)
  obtain fr' r where poll: "fwd_poll S fr = (fr', r)" by fastforce
  let ?rc = "rc\<lparr>rc_forwarding_receiver := Some fr'\<rparr>"
  have inv: "receiver_inv ?rc" using assms(1) Some by (simp add: receiver_inv_def receiver_wf_def shutdown_tests)
  have down: "receiver_inv (fst (shutdown_forwarding_receiver ?rc))
      \<and> snd (shutdown_forwarding_receiver ?rc) = is_receiver_shutdown (fst (shutdown_forwarding_receiver ?rc))"
    using assms(1)
    by (auto simp: receiver_inv_def receiver_wf_def shutdown_forwarding_receiver_def shutdown_request_receiver_def
        Let_def shutdown_tests)
  have "\<not> is_receiver_shutdown ?rc" by (simp add: shutdown_tests)
  then show ?thesis
    using assms(2) Some poll inv down
    by (cases "shutdown_forwarding_receiver ?rc")
       (auto simp: poll_forwarding_def Let_def split: sum.splits Async.splits if_splits)
qed

lemma receiver_poll_some:
  assumes "never_closed H" "receiver_inv rc" "receiver_env_ok env"
  shows "\<exists>rc' rest r. receiver_poll M H S env rc = Some (rc', rest, r)
    \<and> receiver_inv rc' \<and> (r = Ready () \<longleftrightarrow> is_receiver_shutdown rc')"
proof -
  obtain rc1 rest r where one: "poll_receiving M H env rc = Some (rc1, rest, r)" "receiver_wf rc1"
    "r = NotReady \<longrightarrow> receiver_inv rc1"
    using poll_receiving_some [OF assms] by blast
  let ?rc = "case r of Ready _ \<Rightarrow> fst (shutdown_receiving (re_late_updates env) (re_late_end env) rc1) | NotReady \<Rightarrow> rc1"
  have inv: "receiver_inv ?rc" using one(2,3) shutdown_receiving_inv by (cases r) auto
  obtain rc' b where "poll_forwarding S ?rc = (rc', b)" by fastforce
  with poll_forwarding_inv [OF inv this] one(1) show ?thesis
    by (auto simp: receiver_poll_def Let_def)
qed

subsection \<open>Refinement\<close>

text \<open>
  Seen through its forwarding receiver, the receiver only does steps of that; it drops it when
  nothing is due any more or the handler is gone.
\<close>

definition fwd_evolves ::
  "'m header_map_ops \<Rightarrow> ('c, ('m, 'u) incoming, unit) sink_ops \<Rightarrow> ('m, 'u, 'c) forwarding_receiver option
     \<Rightarrow> ('m, 'u, 'c) forwarding_receiver option \<Rightarrow> bool"
where
  "fwd_evolves M S a b \<longleftrightarrow>
     (case b of
        Some fr' \<Rightarrow> \<exists>fr ls. a = Some fr \<and> runs (fwd_step M S) fr ls fr'
      | None \<Rightarrow> a = None \<or> (\<exists>fr fr' ls. a = Some fr \<and> runs (fwd_step M S) fr ls fr'
          \<and> (\<not> fwd_has_requests_ready fr' \<or> snd (fwd_poll S fr') \<noteq> Ok NotReady)))"

lemma fwd_evolves_refl [simp]: "fwd_evolves M S a a"
  by (cases a) (auto simp: fwd_evolves_def intro: exI [of _ "[]"])

lemma fwd_evolves_run: "runs (fwd_step M S) fr ls fr' \<Longrightarrow> fwd_evolves M S (Some fr) (Some fr')"
  unfolding fwd_evolves_def by auto

lemma fwd_evolves_end:
  "\<not> fwd_has_requests_ready fr \<or> snd (fwd_poll S fr) \<noteq> Ok NotReady \<Longrightarrow> fwd_evolves M S (Some fr) None"
  by (auto simp: fwd_evolves_def intro!: exI [of _ fr] exI [of _ "[]"])

lemma fwd_evolves_trans:
  assumes "fwd_evolves M S a b" "fwd_evolves M S b c"
  shows "fwd_evolves M S a c"
proof (cases b)
  case None
  then have "c = None" using assms(2) by (auto simp: fwd_evolves_def split: option.splits)
  then show ?thesis using assms(1) None by simp
next
  case (Some fr1)
  then obtain fr ls where "a = Some fr" "runs (fwd_step M S) fr ls fr1"
    using assms(1) by (auto simp: fwd_evolves_def)
  then show ?thesis
    using assms(2) Some runs_append [of "fwd_step M S"]
    by (cases c) (simp_all add: fwd_evolves_def, blast+)
qed

abbreviation rc_evolves where
  "rc_evolves M S rc rc' \<equiv> fwd_evolves M S (rc_forwarding_receiver rc) (rc_forwarding_receiver rc')"

lemma receiver_send_forwarding:
  "receiver_send H response rc = Some rc' \<Longrightarrow> rc_forwarding_receiver rc' = rc_forwarding_receiver rc"
  by (auto simp: receiver_send_def split: option.splits prod.splits if_splits)

lemma handle_errors_forwarding:
  "handle_protocol_error M H error rc = Some rc' \<Longrightarrow> rc_forwarding_receiver rc' = rc_forwarding_receiver rc"
  "handle_request_receiver_error M H error' rc = Some rc' \<Longrightarrow> rc_forwarding_receiver rc' = rc_forwarding_receiver rc"
  by (auto simp: handle_protocol_error_def handle_request_receiver_error_def
      split: if_splits option.splits RequestReceiverError.splits dest: receiver_send_forwarding)

lemma handle_message_evolves:
  assumes "handle_message M item rc = Some (rc', r)" "\<not> receiver_is_full rc"
  shows "rc_evolves M S rc rc'"
proof (cases "rc_forwarding_receiver rc")
  case None
  then show ?thesis
    using assms by (auto simp: handle_message_def split: prod.splits Message.splits option.splits if_splits)
next
  case (Some fr)
  have "fwd_evolves M S (Some fr) (Some fr')" if "fwd_handle_request M request fr = (fr', r')" for request fr' r'
    using that assms(2) Some
    by (intro fwd_evolves_run [OF runs_single [of "fwd_step M S" fr "FwdReceive request r'"]])
       (simp add: fwd_step_simps receiver_is_full_def)
  with Some show ?thesis
    using assms(1) by (auto simp: handle_message_def split: prod.splits Message.splits option.splits if_splits)
qed

lemma poll_stream_loop_evolves:
  "poll_stream_loop M H items e rc = Some (rc', rest, r) \<Longrightarrow> rc_evolves M S rc rc'"
proof (induction items arbitrary: rc)
  case Nil
  then show ?case
    by (auto split: if_splits StreamEnd.splits option.splits dest: handle_errors_forwarding)
next
  case (Cons item items)
  show ?case
  proof (cases "receiver_is_full rc")
    case False
    with Cons.prems obtain rc1 r1 where one: "handle_message M item rc = Some (rc1, r1)"
      by (auto split: option.splits)
    note step = handle_message_evolves [OF one False, of S]
    show ?thesis
    proof (cases r1)
      case (Inl error)
      with Cons.prems one False obtain rc2 where
        "handle_request_receiver_error M H error rc1 = Some rc2" "poll_stream_loop M H items e rc2 = Some (rc', rest, r)"
        by (auto split: option.splits)
      then show ?thesis
        using Cons.IH [of rc2] step fwd_evolves_trans by (metis handle_errors_forwarding(2))
    next
      case (Inr u)
      with Cons.prems one False have "poll_stream_loop M H items e rc1 = Some (rc', rest, r)" by simp
      from Cons.IH [OF this] show ?thesis by (rule fwd_evolves_trans [OF step])
    qed
  qed (use Cons.prems in auto)
qed

lemma shutdown_request_evolves: "rc_evolves M S rc (fst (shutdown_request_receiver rc))"
  using fwd_evolves_end
  by (auto simp: shutdown_request_receiver_def Let_def split: option.split)

lemma shutdown_response_forwarding:
  "rc_forwarding_receiver (fst (shutdown_response_receiver l e rc)) = rc_forwarding_receiver rc"
  by (simp add: shutdown_response_receiver_def Let_def drop_response_receiver_same)

lemma shutdown_receiving_evolves: "rc_evolves M S rc (fst (shutdown_receiving l e rc))"
  using shutdown_request_evolves by (simp add: shutdown_receiving_def shutdown_response_forwarding)

lemma poll_response_receiver_forwarding:
  "rc_forwarding_receiver (poll_response_receiver env rc) = rc_forwarding_receiver rc"
  by (auto simp: poll_response_receiver_def shutdown_response_forwarding Let_def split: option.split prod.split Async.split)

lemma poll_receiving_evolves:
  assumes "poll_receiving M H env rc = Some (rc', rest, r)"
  shows "rc_evolves M S rc rc'"
proof -
  have "rc_evolves M S (poll_response_receiver env rc) rc1"
    if "poll_stream M H (re_stream env) (re_stream_end env) (poll_response_receiver env rc) = Some (rc1, rest1, r1)"
    for rc1 rest1 r1
    using that poll_stream_loop_evolves [of M H _ _ "poll_response_receiver env rc\<lparr>rc_stream := False\<rparr>" rc1 rest1 r1 S]
    by (auto simp: poll_stream_def split: if_splits)
  moreover obtain rc1 rest1 r1 where
    "poll_stream M H (re_stream env) (re_stream_end env) (poll_response_receiver env rc) = Some (rc1, rest1, r1)"
    using assms by (auto simp: poll_receiving_def split: option.splits)
  moreover have "rc_forwarding_receiver rc' = rc_forwarding_receiver rc1"
    using assms calculation(2)
    by (auto simp: poll_receiving_def poll_codec_events_def fold_codec_events_same
        split: option.splits sum.splits Async.splits DrainEnd.splits)
  ultimately show ?thesis by (simp add: poll_response_receiver_forwarding)
qed

lemma poll_forwarding_evolves:
  assumes "poll_forwarding S rc = (rc', b)"
  shows "rc_evolves M S rc rc'"
proof (cases "rc_forwarding_receiver rc")
  case None
  then show ?thesis using assms by (auto simp: poll_forwarding_def)
next
  case (Some fr)
  obtain fr' r where poll: "fwd_poll S fr = (fr', r)" by fastforce
  have "fwd_evolves M S (Some fr) (Some fr')" if "r = Ok a" for a
    using poll that by (intro fwd_evolves_run [OF runs_single [of "fwd_step M S" fr "FwdPoll a"]]) (simp add: fwd_step_simps)
  moreover have "fwd_evolves M S (Some fr) None" if "r \<noteq> Ok NotReady"
    using poll that by (intro fwd_evolves_end) simp
  moreover have "rc_forwarding_receiver (fst (shutdown_forwarding_receiver x)) = None" for x :: "('a, 'b, 'c, 'd, 'e) receiver"
    by (simp add: shutdown_forwarding_receiver_def shutdown_request_receiver_def Let_def)
  ultimately show ?thesis
    using assms Some poll
    by (cases "shutdown_forwarding_receiver (rc\<lparr>rc_forwarding_receiver := Some fr'\<rparr>)")
       (auto simp: poll_forwarding_def Let_def split: sum.splits Async.splits if_splits,
        (metis fst_conv)+)
qed

lemma receiver_poll_evolves:
  assumes "receiver_poll M H S env rc = Some (rc', rest, r)"
  shows "rc_evolves M S rc rc'"
proof -
  obtain rc1 r1 where one: "poll_receiving M H env rc = Some (rc1, rest, r1)"
    using assms by (auto simp: receiver_poll_def Let_def split: option.splits prod.splits)
  let ?rc = "case r1 of Ready _ \<Rightarrow> fst (shutdown_receiving (re_late_updates env) (re_late_end env) rc1) | NotReady \<Rightarrow> rc1"
  have "rc_evolves M S rc1 ?rc" by (cases r1) (simp_all add: shutdown_receiving_evolves)
  moreover obtain b where "poll_forwarding S ?rc = (rc', b)"
    using assms one by (auto simp: receiver_poll_def Let_def split: prod.splits)
  from poll_forwarding_evolves [OF this] have "rc_evolves M S ?rc rc'" .
  ultimately show ?thesis using fwd_evolves_trans [OF poll_receiving_evolves [OF one]] fwd_evolves_trans by blast
qed

subsection \<open>Runs\<close>

text \<open>
  The receiver in use: polled by the connection while the environment keeps its promises, and told
  to stop receiving requests.
\<close>

datatype ('m, 'u, 'ch) rc_label = RcPoll "('m, 'u, 'ch) receiver_env" "('m, 'u, 'ch) stream_item list" "unit Async" | RcStopRequests

inductive rc_step ::
  "'m header_map_ops \<Rightarrow> ('h, ('m, 'u) Message) unbounded_ops \<Rightarrow> ('c, ('m, 'u) incoming, unit) sink_ops
     \<Rightarrow> ('m, 'u, 'c, 'ch, 'h) receiver \<Rightarrow> ('m, 'u, 'ch) rc_label \<Rightarrow> ('m, 'u, 'c, 'ch, 'h) receiver \<Rightarrow> bool"
  for M H S
where
  rc_step_poll:
    "receiver_env_ok env \<Longrightarrow> receiver_poll M H S env rc = Some (rc', rest, a) \<Longrightarrow> rc_step M H S rc (RcPoll env rest a) rc'"
| rc_step_stop: "rc_step M H S rc RcStopRequests (fst (shutdown_request_receiver rc))"

inductive_cases rc_step_cases: "rc_step M H S rc l rc'"

lemma receiver_inv_new: "receiver_inv (receiver_new tx h n)"
  by (simp add: receiver_inv_def receiver_wf_def receiver_new_def shutdown_tests)

interpretation rc: step_invariant "rc_step M H S" "receiver_new tx_incoming_request sender_handle request_buffer_size"
  "\<lambda>_ rc. (never_closed H \<longrightarrow> receiver_inv rc)
     \<and> fwd_evolves M S (Some (fwd_new tx_incoming_request request_buffer_size)) (rc_forwarding_receiver rc)"
  for M H S tx_incoming_request sender_handle request_buffer_size
proof
  show "(never_closed H \<longrightarrow> receiver_inv (receiver_new tx_incoming_request sender_handle request_buffer_size))
    \<and> fwd_evolves M S (Some (fwd_new tx_incoming_request request_buffer_size))
        (rc_forwarding_receiver (receiver_new tx_incoming_request sender_handle request_buffer_size))"
    by (simp add: receiver_inv_new) (simp add: receiver_new_def)
next
  fix rc l rc'
  assume inv: "(never_closed H \<longrightarrow> receiver_inv rc)
     \<and> fwd_evolves M S (Some (fwd_new tx_incoming_request request_buffer_size)) (rc_forwarding_receiver rc)"
    and step: "rc_step M H S rc l rc'"
  have "never_closed H \<longrightarrow> receiver_inv rc'"
    using step inv receiver_poll_some [of H rc _ M S] shutdown_request_inv by (fastforce elim!: rc_step_cases)
  moreover have "rc_evolves M S rc rc'"
    using step receiver_poll_evolves shutdown_request_evolves by (auto elim!: rc_step_cases)
  ultimately show "(never_closed H \<longrightarrow> receiver_inv rc')
     \<and> fwd_evolves M S (Some (fwd_new tx_incoming_request request_buffer_size)) (rc_forwarding_receiver rc')"
    using inv fwd_evolves_trans by blast
qed

lemma fwd_evolves_final:
  assumes "sink_laws S" "fwd_evolves M S (Some (fwd_new tx n)) None"
  shows "\<exists>fr ls. runs (fwd_step M S) (fwd_new tx n) ls fr
    \<and> (\<not> fwd_has_requests_ready fr \<or> (\<exists>fr'. fwd_poll S fr = (fr', Err ())))"
proof -
  obtain fr ls where fr: "runs (fwd_step M S) (fwd_new tx n) ls fr"
    "\<not> fwd_has_requests_ready fr \<or> snd (fwd_poll S fr) \<noteq> Ok NotReady"
    using assms(2) by (auto simp: fwd_evolves_def)
  obtain fr' r where poll: "fwd_poll S fr = (fr', r)" by fastforce
  show ?thesis
  proof (cases "r = Ok (Ready ())")
    case True
    have "\<not> fwd_has_requests_ready fr'"
      using fwd_poll_ready_none [OF assms(1) fwd_runs_distinct [OF assms(1) fr(1)]] poll True by simp
    moreover have "fwd_step M S fr (FwdPoll (Ready ())) fr'" using poll True by (simp add: fwd_step_simps)
    ultimately show ?thesis using runs_step [of "fwd_step M S", OF fr(1)] by blast
  next
    case False
    then have "\<not> fwd_has_requests_ready fr \<or> r = Err ()"
      using fr(2) poll by (cases r) (auto split: Async.splits, metis Async.exhaust old.unit.exhaust)
    then show ?thesis using fr(1) poll by blast
  qed
qed

subsection \<open>Properties\<close>



definition quiet_env :: "(headers, unit, nat) receiver_env" where
  "quiet_env = \<lparr>re_updates = [], re_updates_end = DrainPending, re_late_updates = [], re_late_end = DrainPending,
     re_stream = [(MessageRequest (numbered list_headers demo_request 7), 0, True)], re_stream_end = StreamPending,
     re_codec_events = [], re_codec_end = DrainPending, re_decoding_timer = TimerPending\<rparr>"

definition demo_sender :: "((headers, unit) Message list, (headers, unit) Message) unbounded_ops" where
  "demo_sender = \<lparr>chan_send = \<lambda>l x. (l @ [x], True), chan_sent = \<lambda>l. l\<rparr>"

lemma demo_sender_laws: "never_closed demo_sender" "unbounded_laws demo_sender" "chan_sent demo_sender l = l"
  by (simp_all add: demo_sender_def never_closed_def unbounded_laws_def)

definition demo_receiver :: "(headers, unit, (headers, unit) incoming list, nat, (headers, unit) Message list) receiver" where
  "demo_receiver = receiver_new [] [] 4"



definition request_error_status :: "'u request_decode_error \<Rightarrow> StatusCode" where
  "request_error_status e =
     (case e of RqUnsupportedVersion \<Rightarrow> RTSPVersionNotSupported | RqBodyTooLong \<Rightarrow> RequestMessageBodyTooLarge
      | RqURITooLong \<Rightarrow> RequestURITooLong | _ \<Rightarrow> BadRequest)"

text \<open>The replies to an error: at most one, for undecodable requests.\<close>

definition error_replies :: "'u ProtocolError \<Rightarrow> (bytes, 'm) Response list \<Rightarrow> bool" where
  "error_replies error replies \<longleftrightarrow>
     (case error of
        ProtocolDecodeError (DecodeErrorRequest e) \<Rightarrow> map resp_status_code replies = [request_error_status e]
      | _ \<Rightarrow> replies = [])"

lemma protocol_error_response_replies:
  "case protocol_error_response M error of
     None \<Rightarrow> error_replies error ([] :: (bytes, 'm) Response list)
   | Some None \<Rightarrow> False
   | Some (Some r) \<Rightarrow> error_replies error [r]"
  using canned_total [of M]
  by (auto simp: protocol_error_response_def error_replies_def request_error_status_def
      split: ProtocolError.splits DecodeError.splits request_decode_error.splits)

lemma handle_protocol_error_replies:
  assumes "never_closed H" "unbounded_laws H" "rc_sender_handle rc"
  shows "\<exists>rc' replies. handle_protocol_error M H error rc = Some rc'
    \<and> rc' = rc\<lparr>rc_channel := rc_channel rc'\<rparr>
    \<and> chan_sent H (rc_channel rc') = chan_sent H (rc_channel rc) @ map MessageResponse replies \<and> error_replies error replies"
proof (cases "protocol_error_response M error")
  case None
  then show ?thesis
    using assms(3) protocol_error_response_replies [of error M] by (auto simp: handle_protocol_error_def)
next
  case (Some response)
  then obtain r where r: "protocol_error_response M error = Some (Some r)" "error_replies error [r]"
    using protocol_error_response_replies [of error M] by (auto split: option.splits)
  obtain c where send: "chan_send H (rc_channel rc) (MessageResponse r) = (c, True)"
    using assms(1) by (metis (full_types) never_closed_def prod.collapse)
  then show ?thesis
    using r assms(3) unbounded_lawsD [OF assms(2) send]
    by (intro exI [of _ "rc\<lparr>rc_channel := c\<rparr>"] exI [of _ "[r]"])
       (simp add: handle_protocol_error_def receiver_send_def)
qed

lemma shutdown_receiving_result:
  "is_receiving_shutdown (fst (shutdown_receiving l e rc))"
  "rc_channel (fst (shutdown_receiving l e rc)) = rc_channel rc"
  by (auto simp: shutdown_receiving_def shutdown_response_receiver_def shutdown_request_receiver_def Let_def
      shutdown_tests drop_response_receiver_def split: option.splits prod.splits)

lemma poll_forwarding_result:
  "poll_forwarding S rc = (rc', b) \<Longrightarrow> is_receiving_shutdown rc \<Longrightarrow> is_receiving_shutdown rc'"
  "poll_forwarding S rc = (rc', b) \<Longrightarrow> rc_channel rc' = rc_channel rc"
  "poll_forwarding S rc = (rc', b) \<Longrightarrow> rc_uses rc' = rc_uses rc"
  by (auto simp: poll_forwarding_def shutdown_forwarding_receiver_def shutdown_request_receiver_def Let_def shutdown_tests
      split: option.splits prod.splits sum.splits Async.splits if_splits)

lemma shutdown_receiving_tells:
  assumes "case rc_response_receiver rc of None \<Rightarrow> True | Some rr \<Rightarrow> \<not> rr_updates_done rr"
  shows "rc_uses (fst (shutdown_receiving [] DrainPending rc)) = rc_uses rc
    @ (case rc_response_receiver rc of None \<Rightarrow> []
       | Some rr \<Rightarrow> map (\<lambda>(_, owner). SentTo owner PendingNone) (rr_pending_requests rr))"
  using assms
  by (auto simp: shutdown_receiving_def shutdown_response_receiver_def shutdown_request_receiver_def Let_def
      shutdown_tests drop_response_receiver_def response_receiver_drop_def remove_pending_requests_def
      split: option.splits)


text \<open>
  The receiver assumes that the sender outlives it: when the sender is gone while the receiver still
  waits for responses, an undecodable request on the stream makes the poll panic.
\<close>

lemma receiver_panics_without_sender:
  assumes "\<not> snd (chan_send H (rc_channel rc) (MessageResponse (the (BAD_REQUEST_RESPONSE M))))"
    and "rc_stream rc" "rc_sender_handle rc" "\<not> receiver_is_full rc"
    and "rc_response_receiver rc = Some rr" "re_updates env = []" "re_updates_end env = DrainPending"
    and "re_stream env = []" "re_stream_end env = StreamFailed (ProtocolDecodeError (DecodeErrorRequest RqMethodTooLong))"
  shows "receiver_poll M H S env rc = None"
proof -
  have polled: "poll_response_receiver env rc = rc"
    using assms(5-7) by (simp add: poll_response_receiver_def)
  obtain r where "BAD_REQUEST_RESPONSE M = Some r" using canned_total(1) by blast
  then have "handle_protocol_error M H (ProtocolDecodeError (DecodeErrorRequest RqMethodTooLong)) (rc\<lparr>rc_stream := False\<rparr>) = None"
    using assms(1,3) by (auto simp: handle_protocol_error_def protocol_error_response_def receiver_send_def split: prod.split)
  moreover have "\<not> receiver_is_full (rc\<lparr>rc_stream := False\<rparr>)" using assms(4) by (simp add: receiver_is_full_def)
  ultimately show ?thesis
    using polled assms by (simp add: receiver_poll_def poll_receiving_def poll_stream_def)
qed

definition failing_env :: "(headers, unit, nat) receiver_env" where
  "failing_env = quiet_env\<lparr>re_stream := [],
     re_stream_end := StreamFailed (ProtocolDecodeError (DecodeErrorRequest RqMethodTooLong))\<rparr>"

lemma failing_env_simps:
  "receiver_env_ok failing_env" "re_updates failing_env = []" "re_updates_end failing_env = DrainPending"
  "re_late_updates failing_env = []" "re_late_end failing_env = DrainPending" "re_stream failing_env = []"
  "re_stream_end failing_env = StreamFailed (ProtocolDecodeError (DecodeErrorRequest RqMethodTooLong))"
  by (simp_all add: failing_env_def quiet_env_def receiver_env_ok_def)

lemma demo_receiver_simps:
  "rc_stream demo_receiver" "rc_sender_handle demo_receiver" "\<not> receiver_is_full demo_receiver"
  "rc_response_receiver demo_receiver = Some response_receiver_new" "\<not> rr_updates_done response_receiver_new"
  by (simp_all add: demo_receiver_def receiver_new_def receiver_is_full_def fwd_is_full_def fwd_new_def response_receiver_new_def)


end
