(* ===== verification/Matching.thy ===== *)
theory Matching
  imports Receiver
begin

text \<open>
  The second half of \<open>Receiver\<close> (\<^verbatim>\<open>rtsp-2/src/protocol/connection/receiver.rs\<close>) seen through its
  response receiver: what it logs about the channels of pending requests is what a run of the
  response receiver alone does, and shutting it down ends that run with the drop.
\<close>

definition rr_log ::
  "'m header_map_ops \<Rightarrow> 'ch response_receiver option \<Rightarrow> ('m, 'ch) channel_use list \<Rightarrow> bool" where
  "rr_log M rr uses \<longleftrightarrow>
     (\<exists>ls rr'. runs (rr_step M) response_receiver_new ls rr' \<and> uses = all_uses ls
       \<and> rr_pending_requests rr' = (case rr of Some rr \<Rightarrow> rr_pending_requests rr | None \<Rightarrow> []))"

abbreviation rc_log where "rc_log M rc \<equiv> rr_log M (rc_response_receiver rc) (rc_uses rc)"

text \<open>The flag that the stream of updates has ended plays no role in a step.\<close>

lemma rr_operations_flag:
  "handle_pending_request_update update (rr\<lparr>rr_updates_done := b\<rparr>) =
    (case handle_pending_request_update update rr of (rr', uses) \<Rightarrow> (rr'\<lparr>rr_updates_done := b\<rparr>, uses))"
  "handle_response M new_channel alive response (rr\<lparr>rr_updates_done := b\<rparr>) =
    (case handle_response M new_channel alive response rr of (rr', uses) \<Rightarrow> (rr'\<lparr>rr_updates_done := b\<rparr>, uses))"
  "remove_pending_requests (rr\<lparr>rr_updates_done := b\<rparr>) =
    (case remove_pending_requests rr of (rr', uses) \<Rightarrow> (rr'\<lparr>rr_updates_done := b\<rparr>, uses))"
  by (simp_all add: handle_pending_request_update_def handle_response_def remove_pending_requests_def
      split: PendingRequestUpdate.split option.split)

lemma rr_step_flag:
  "rr_step M rr l rr1 \<Longrightarrow> rr_step M (rr\<lparr>rr_updates_done := b\<rparr>) l (rr1\<lparr>rr_updates_done := b\<rparr>)"
  by (cases l) (auto simp: rr_step_simps rr_operations_flag, metis case_prod_conv)

lemma rr_log_new: "rr_log M (Some response_receiver_new) []"
  unfolding rr_log_def using runs_nil [of "rr_step M"] by fastforce

lemma rr_log_step:
  assumes "rr_log M (Some rr) uses" "rr_step M rr l rr1"
  shows "rr_log M (Some rr1) (uses @ label_uses l)"
proof -
  obtain ls rr' where run: "runs (rr_step M) response_receiver_new ls rr'" "uses = all_uses ls"
    "rr_pending_requests rr' = rr_pending_requests rr"
    using assms(1) by (auto simp: rr_log_def)
  have "rr\<lparr>rr_updates_done := rr_updates_done rr'\<rparr> = rr'" using run(3) by simp
  with rr_step_flag [OF assms(2), of "rr_updates_done rr'"]
  have "rr_step M rr' l (rr1\<lparr>rr_updates_done := rr_updates_done rr'\<rparr>)" by simp
  from runs_step [of "rr_step M", OF run(1) this] run(2) show ?thesis
    unfolding rr_log_def by (intro exI [of _ "ls @ [l]"]) auto
qed

lemma rr_log_flag: "rr_log M (Some (rr\<lparr>rr_updates_done := b\<rparr>)) uses = rr_log M (Some rr) uses"
  by (simp add: rr_log_def)

lemma rr_log_poll:
  "rr_log M (Some rr) uses \<Longrightarrow> response_receiver_poll updates e rr = (rr1, uses1, r) \<Longrightarrow> rr_log M (Some rr1) (uses @ uses1)"
proof (induction updates arbitrary: rr uses uses1)
  case Nil
  then show ?case by (cases e) (auto simp: rr_log_flag)
next
  case (Cons update updates)
  obtain rr2 uses2 where one: "handle_pending_request_update update rr = (rr2, uses2 :: ('a, 'b) channel_use list)"
    by fastforce
  obtain uses3 where two: "response_receiver_poll updates e rr2 = (rr1, uses3, r)" "uses1 = uses2 @ uses3"
    using Cons.prems(2) one by (auto split: prod.splits)
  have "rr_step M rr (RrUpdate update uses2) rr2" using one by (simp add: rr_step_simps)
  from rr_log_step [OF Cons.prems(1) this] have "rr_log M (Some rr2) (uses @ uses2)" by simp
  from Cons.IH [OF this two(1)] two(2) show ?case by simp
qed

lemma rr_log_drop:
  assumes "rr_log M (Some rr) uses" "response_receiver_drop updates e rr = (rr1, uses1)"
  shows "rr_log M None (uses @ uses1)"
proof -
  obtain rr2 r uses2 uses3 where poll: "response_receiver_poll updates e rr = (rr2, uses2 :: ('a, 'b) channel_use list, r)"
    "remove_pending_requests rr2 = (rr1, uses3)" "uses1 = uses2 @ uses3"
    using assms(2) by (auto simp: response_receiver_drop_def split: prod.splits)
  have "rr_step M rr2 (RrDrop uses3) rr1" using poll(2) by (simp add: rr_step_simps)
  from rr_log_step [OF rr_log_poll [OF assms(1) poll(1)] this]
  have "rr_log M (Some rr1) (uses @ uses1)" using poll(3) by simp
  moreover have "rr_pending_requests rr1 = []" using poll(2) by (auto simp: remove_pending_requests_def)
  ultimately show ?thesis by (simp add: rr_log_def)
qed

subsection \<open>The operations of the receiver\<close>

lemma drop_response_receiver_log: "rc_log M rc \<Longrightarrow> rc_log M (drop_response_receiver l e rc)"
  by (auto simp: drop_response_receiver_def split: option.split prod.split dest: rr_log_drop)

lemma shutdown_response_log: "rc_log M rc \<Longrightarrow> rc_log M (fst (shutdown_response_receiver l e rc))"
  using drop_response_receiver_log [of M rc l e] by (simp add: shutdown_response_receiver_def Let_def)

lemma shutdown_request_log:
  "rc_response_receiver (fst (shutdown_request_receiver rc)) = rc_response_receiver rc"
  "rc_uses (fst (shutdown_request_receiver rc)) = rc_uses rc"
  by (auto simp: shutdown_request_receiver_def Let_def split: option.split)

lemma shutdown_receiving_log: "rc_log M rc \<Longrightarrow> rc_log M (fst (shutdown_receiving l e rc))"
  by (simp add: shutdown_receiving_def shutdown_response_log shutdown_request_log)

lemma poll_response_receiver_log:
  fixes rc :: "('m, 'u, 'c, 'ch, 'h) receiver"
  assumes "rc_log M rc"
  shows "rc_log M (poll_response_receiver env rc)"
proof (cases "rc_response_receiver rc")
  case (Some rr)
  obtain rr' r and uses :: "('m, 'ch) channel_use list"
    where poll: "response_receiver_poll (re_updates env) (re_updates_end env) rr = (rr', uses, r)"
    by (metis prod_cases3)
  have log: "rc_log M (rc\<lparr>rc_response_receiver := Some rr', rc_uses := rc_uses rc @ uses\<rparr>)"
    using rr_log_poll [OF _ poll] assms Some by simp
  then have "rc_log M (fst (shutdown_response_receiver [] DrainClosed
      (rc\<lparr>rc_response_receiver := Some rr', rc_uses := rc_uses rc @ uses\<rparr>)))"
    by (rule shutdown_response_log)
  with log Some poll show ?thesis by (cases r) (simp_all add: poll_response_receiver_def)
qed (use assms in \<open>simp add: poll_response_receiver_def\<close>)

lemma handle_message_log:
  assumes "handle_message M item rc = Some (rc', r)" "rc_log M rc"
  shows "rc_log M rc'"
proof (cases item)
  case (fields message new_channel alive)
  show ?thesis
  proof (cases message)
    case (MessageRequest request)
    then show ?thesis
      using assms fields by (auto simp: handle_message_def split: if_splits option.splits prod.splits)
  next
    case (MessageResponse response)
    show ?thesis
    proof (cases "rc_response_receiver rc")
      case (Some rr)
      obtain rr1 uses where resp: "handle_response M new_channel alive response rr = (rr1, uses)" by fastforce
      then have "rr_step M rr (RrResponse response new_channel uses) rr1" by (auto simp: rr_step_simps)
      from rr_log_step [OF _ this] show ?thesis
        using assms fields MessageResponse Some resp by (auto simp: handle_message_def)
    qed (use assms fields MessageResponse in \<open>simp add: handle_message_def\<close>)
  qed
qed

lemma handle_errors_log:
  "handle_protocol_error M H error rc = Some rc' \<Longrightarrow> rc_response_receiver rc' = rc_response_receiver rc \<and> rc_uses rc' = rc_uses rc"
  "handle_request_receiver_error M H error' rc = Some rc' \<Longrightarrow> rc_response_receiver rc' = rc_response_receiver rc \<and> rc_uses rc' = rc_uses rc"
  by (auto simp: handle_protocol_error_def handle_request_receiver_error_def receiver_send_def
      split: if_splits option.splits RequestReceiverError.splits prod.splits)

lemma poll_stream_loop_log: "poll_stream_loop M H items e rc = Some (rc', rest, r) \<Longrightarrow> rc_log M rc \<Longrightarrow> rc_log M rc'"
proof (induction items arbitrary: rc)
  case Nil
  then show ?case by (auto split: if_splits StreamEnd.splits option.splits dest: handle_errors_log)
next
  case (Cons item items)
  show ?case
  proof (cases "receiver_is_full rc")
    case False
    with Cons.prems(1) obtain rc1 r1 where one: "handle_message M item rc = Some (rc1, r1)"
      by (auto split: option.splits)
    note log = handle_message_log [OF one Cons.prems(2)]
    show ?thesis
    proof (cases r1)
      case (Inl error)
      with Cons.prems(1) one False obtain rc2 where
        "handle_request_receiver_error M H error rc1 = Some rc2" "poll_stream_loop M H items e rc2 = Some (rc', rest, r)"
        by (auto split: option.splits)
      then show ?thesis using Cons.IH [of rc2] log by (metis handle_errors_log(2))
    qed (use Cons one False log in simp)
  qed (use Cons.prems in auto)
qed

lemma fold_codec_events_log:
  "rc_response_receiver (fold handle_codec_event evs rc) = rc_response_receiver rc"
  "rc_uses (fold handle_codec_event evs rc) = rc_uses rc"
  by (induction evs arbitrary: rc) (simp_all add: handle_codec_event_def split: CodecEvent.split)

lemma poll_receiving_log:
  assumes "poll_receiving M H env rc = Some (rc', rest, r)" "rc_log M rc"
  shows "rc_log M rc'"
proof -
  let ?rc = "poll_response_receiver env rc"
  obtain rc1 rest1 r1 where stream: "poll_stream M H (re_stream env) (re_stream_end env) ?rc = Some (rc1, rest1, r1)"
    using assms(1) by (auto simp: poll_receiving_def split: option.splits)
  have "rc_log M (?rc\<lparr>rc_stream := False\<rparr>)" using poll_response_receiver_log [OF assms(2)] by simp
  then have "rc_log M rc1"
    using stream poll_stream_loop_log [of M H _ _ "?rc\<lparr>rc_stream := False\<rparr>" rc1 rest1 r1] poll_response_receiver_log [OF assms(2)]
    by (auto simp: poll_stream_def split: if_splits)
  moreover have "rc_response_receiver rc' = rc_response_receiver rc1 \<and> rc_uses rc' = rc_uses rc1"
    using assms(1) stream
    by (auto simp: poll_receiving_def poll_codec_events_def fold_codec_events_log
        split: option.splits sum.splits Async.splits DrainEnd.splits)
  ultimately show ?thesis by simp
qed

lemma poll_forwarding_log:
  "poll_forwarding S rc = (rc', b) \<Longrightarrow> rc_response_receiver rc' = rc_response_receiver rc \<and> rc_uses rc' = rc_uses rc"
  by (auto simp: poll_forwarding_def shutdown_forwarding_receiver_def shutdown_request_receiver_def Let_def
      split: option.splits prod.splits sum.splits Async.splits if_splits)

lemma receiver_poll_log:
  assumes "receiver_poll M H S env rc = Some (rc', rest, r)" "rc_log M rc"
  shows "rc_log M rc'"
proof -
  obtain rc1 r1 where one: "poll_receiving M H env rc = Some (rc1, rest, r1)"
    using assms(1) by (auto simp: receiver_poll_def Let_def split: option.splits prod.splits)
  let ?rc = "case r1 of Ready _ \<Rightarrow> fst (shutdown_receiving (re_late_updates env) (re_late_end env) rc1) | NotReady \<Rightarrow> rc1"
  have "rc_log M ?rc"
    using poll_receiving_log [OF one assms(2)] by (cases r1) (simp_all add: shutdown_receiving_log)
  moreover obtain b where "poll_forwarding S ?rc = (rc', b)"
    using assms(1) one by (auto simp: receiver_poll_def Let_def split: prod.splits)
  from poll_forwarding_log [OF this]
  have "rc_response_receiver rc' = rc_response_receiver ?rc \<and> rc_uses rc' = rc_uses ?rc" .
  ultimately show ?thesis by simp
qed

interpretation rl: step_invariant "rc_step M H S" "receiver_new tx_incoming_request sender_handle request_buffer_size"
  "\<lambda>_ rc. rc_log M rc" for M H S tx_incoming_request sender_handle request_buffer_size
proof
  show "rc_log M (receiver_new tx_incoming_request sender_handle request_buffer_size)"
    using rr_log_new by (simp add: receiver_new_def)
  show "rc_log M rc \<Longrightarrow> rc_step M H S rc l rc' \<Longrightarrow> rc_log M rc'" for rc l rc'
    by (auto elim!: rc_step_cases simp: shutdown_request_log dest: receiver_poll_log)
qed

lemma rr_log_linear:
  assumes "rr_log M rr uses"
  shows "\<exists>channels. mset (map snd channels) = mset (map use_channel uses)
      + mset (case rr of Some rr \<Rightarrow> map snd (rr_pending_requests rr) | None \<Rightarrow> [])
    \<and> list_all (use_right M channels) uses"
proof -
  obtain ls rr' where run: "runs (rr_step M) response_receiver_new ls rr'" "uses = all_uses ls"
    "rr_pending_requests rr' = (case rr of Some rr \<Rightarrow> rr_pending_requests rr | None \<Rightarrow> [])"
    using assms by (auto simp: rr_log_def)
  have "rr_inv M ls rr'" by (rule rr.inv_runs [OF run(1)])
  with run(2,3) show ?thesis
    by (intro exI [of _ "all_channels M ls"]) (auto simp: rr_inv_def split: option.splits)
qed

end
