(* ===== verification/Handler.thy ===== *)
theory Handler
  imports Responses Forwarding Sender ContentLength
begin

text \<open>
  Servicing incoming requests: \<^verbatim>\<open>rtsp-2/src/protocol/connection/handler.rs\<close>. The service and
  its futures are the parameter \<open>V\<close>, the channel of outgoing messages is the parameter \<open>H\<close>. The
  answers of the continue timer during one poll are a list; after them the timer is not ready. What
  the channel of incoming requests gives is a list as well, and what is left of it is returned. The
  option around a result is a panic.
\<close>

record ('s, 'f, 'm, 'u) service_ops =
  service_call :: "'s \<Rightarrow> (bytes, 'm, 'u) Request \<Rightarrow> 's \<times> 'f"
  service_future_poll :: "'f \<Rightarrow> 'f \<times> (unit + (bytes, 'm) Response Async)"

record ('s, 'f, 'h) request_handler =
  hd_continue_timer :: bool
  hd_continue_wait_duration :: "Duration option"
  hd_channel :: 'h
  hd_sender_handle :: bool
  hd_service :: 's
  hd_serviced_request :: "(CSeq \<times> 'f) option"
  hd_tx_shutdown_event :: bool
  hd_events_sent :: nat

definition request_handler_new :: "'s \<Rightarrow> 'h \<Rightarrow> Duration option \<Rightarrow> ('s, 'f, 'h) request_handler" where
  "request_handler_new service channel continue_wait_duration =
     \<lparr>hd_continue_timer = False, hd_continue_wait_duration = continue_wait_duration, hd_channel = channel,
      hd_sender_handle = True, hd_service = service, hd_serviced_request = None,
      hd_tx_shutdown_event = True, hd_events_sent = 0\<rparr>"

definition reset_continue_timer :: "('s, 'f, 'h) request_handler \<Rightarrow> ('s, 'f, 'h) request_handler" where
  "reset_continue_timer h =
     (case hd_continue_wait_duration h of Some _ \<Rightarrow> h\<lparr>hd_continue_timer := True\<rparr> | None \<Rightarrow> h)"

definition number_response :: "'m header_map_ops \<Rightarrow> CSeq \<Rightarrow> (bytes, 'm) Response \<Rightarrow> (bytes, 'm) Response" where
  "number_response M cseq response =
     response\<lparr>resp_headers := typed_insert M cseq_header_name cseq_encode cseq (resp_headers response)\<rparr>"

definition send_response ::
  "'m header_map_ops \<Rightarrow> ('h, ('m, 'u) Message) unbounded_ops \<Rightarrow> CSeq \<Rightarrow> (bytes, 'm) Response
     \<Rightarrow> ('s, 'f, 'h) request_handler \<Rightarrow> ('s, 'f, 'h) request_handler"
where
  "send_response M H cseq response h =
     (if hd_sender_handle h then
        (case chan_send H (hd_channel h) (MessageResponse (number_response M cseq response)) of
           (channel, sent) \<Rightarrow>
             if sent then h\<lparr>hd_channel := channel\<rparr> else h\<lparr>hd_channel := channel, hd_sender_handle := False\<rparr>)
      else h)"

definition handler_shutdown :: "('s, 'f, 'h) request_handler \<Rightarrow> ('s, 'f, 'h) request_handler" where
  "handler_shutdown h =
     (let h = h\<lparr>hd_continue_timer := False, hd_sender_handle := False, hd_serviced_request := None\<rparr>
      in if hd_tx_shutdown_event h
         then h\<lparr>hd_tx_shutdown_event := False, hd_events_sent := Suc (hd_events_sent h)\<rparr> else h)"

definition request_handler_drop :: "('s, 'f, 'h) request_handler \<Rightarrow> ('s, 'f, 'h) request_handler" where
  "request_handler_drop h = handler_shutdown h"

definition process_request ::
  "'m header_map_ops \<Rightarrow> ('h, ('m, 'u) Message) unbounded_ops \<Rightarrow> ('s, 'f, 'm, 'u) service_ops
     \<Rightarrow> CSeq \<Rightarrow> (bytes, 'm, 'u) Request \<Rightarrow> ('s, 'f, 'h) request_handler \<Rightarrow> ('s, 'f, 'h) request_handler option"
where
  "process_request M H V cseq request h =
     (if uri_scheme (req_uri request) = Some RTSPU then
        (case NOT_IMPLEMENTED_RESPONSE M of
           None \<Rightarrow> None | Some response \<Rightarrow> Some (send_response M H cseq response h))
      else if (case typed_get M content_length_header_name content_length_decode (req_headers request) of
                 Some content_length \<Rightarrow> content_length_value content_length > 0
                   \<and> \<not> map_contains_key M (req_headers request) HeaderContentType
               | None \<Rightarrow> False) then
        (case BAD_REQUEST_RESPONSE M of
           None \<Rightarrow> None | Some response \<Rightarrow> Some (send_response M H cseq response h))
      else
        (let h = reset_continue_timer h
         in case service_call V (hd_service h) request of
              (service, future) \<Rightarrow>
                Some (h\<lparr>hd_service := service, hd_serviced_request := Some (cseq, future)\<rparr>)))"

fun poll_continue_timer ::
  "'m header_map_ops \<Rightarrow> ('h, ('m, 'u) Message) unbounded_ops \<Rightarrow> CSeq \<Rightarrow> TimerPoll list
     \<Rightarrow> ('s, 'f, 'h) request_handler \<Rightarrow> (('s, 'f, 'h) request_handler \<times> unit Async) option"
where
  "poll_continue_timer M H cseq [] h = Some (h, if hd_continue_timer h then NotReady else Ready ())"
| "poll_continue_timer M H cseq (answer # answers) h =
     (if \<not> hd_continue_timer h then Some (h, Ready ())
      else case answer of
        TimerElapsed \<Rightarrow>
          (case CONTINUE_RESPONSE M of
             None \<Rightarrow> None
           | Some response \<Rightarrow>
               poll_continue_timer M H cseq answers (reset_continue_timer (send_response M H cseq response h)))
      | TimerPending \<Rightarrow> Some (h, NotReady)
      | TimerAtCapacity \<Rightarrow> poll_continue_timer M H cseq answers (h\<lparr>hd_continue_timer := False\<rparr>)
      | TimerShutdown \<Rightarrow> None)"

definition poll_serviced_request ::
  "'m header_map_ops \<Rightarrow> ('h, ('m, 'u) Message) unbounded_ops \<Rightarrow> ('s, 'f, 'm, 'u) service_ops \<Rightarrow> TimerPoll list
     \<Rightarrow> ('s, 'f, 'h) request_handler \<Rightarrow> (('s, 'f, 'h) request_handler \<times> unit Async) option"
where
  "poll_serviced_request M H V answers h =
     (case hd_serviced_request h of
        None \<Rightarrow> Some (h, Ready ())
      | Some (cseq, serviced_request) \<Rightarrow>
          (case service_future_poll V serviced_request of
             (_, Ok (Ready response)) \<Rightarrow>
               Some (send_response M H cseq response h
                       \<lparr>hd_continue_timer := False, hd_serviced_request := None\<rparr>, Ready ())
           | (future, Ok NotReady) \<Rightarrow>
               (case poll_continue_timer M H cseq answers (h\<lparr>hd_serviced_request := Some (cseq, future)\<rparr>) of
                  None \<Rightarrow> None | Some (h, _) \<Rightarrow> Some (h, NotReady))
           | (_, Err _) \<Rightarrow>
               (case INTERNAL_SERVER_ERROR_RESPONSE M of
                  None \<Rightarrow> None
                | Some response \<Rightarrow>
                    Some (send_response M H cseq response h
                            \<lparr>hd_continue_timer := False, hd_serviced_request := None\<rparr>, Ready ()))))"

text \<open>
  The loop of \<open>poll\<close>. The timer is only polled when the service is not ready, and then the loop
  ends; so every round gets the same answers.
\<close>

fun handler_poll ::
  "'m header_map_ops \<Rightarrow> ('h, ('m, 'u) Message) unbounded_ops \<Rightarrow> ('s, 'f, 'm, 'u) service_ops \<Rightarrow> TimerPoll list
     \<Rightarrow> ('m, 'u) incoming list \<Rightarrow> DrainEnd \<Rightarrow> ('s, 'f, 'h) request_handler
     \<Rightarrow> (('s, 'f, 'h) request_handler \<times> ('m, 'u) incoming list \<times> unit Async) option"
where
  "handler_poll M H V answers [] e h =
     (case poll_serviced_request M H V answers h of
        None \<Rightarrow> None
      | Some (h, NotReady) \<Rightarrow> Some (h, [], NotReady)
      | Some (h, Ready _) \<Rightarrow>
          (case e of DrainPending \<Rightarrow> Some (h, [], NotReady) | DrainClosed \<Rightarrow> Some (handler_shutdown h, [], Ready ())))"
| "handler_poll M H V answers ((cseq, request) # incoming) e h =
     (case poll_serviced_request M H V answers h of
        None \<Rightarrow> None
      | Some (h, NotReady) \<Rightarrow> Some (h, (cseq, request) # incoming, NotReady)
      | Some (h, Ready _) \<Rightarrow>
          (case process_request M H V cseq request h of
             None \<Rightarrow> None
           | Some h \<Rightarrow> handler_poll M H V answers incoming e h))"

text \<open>A dropped handler is shut down: nothing is serviced or sent, and the event is sent at most once more.\<close>

lemma request_handler_dropped:
  "hd_serviced_request (request_handler_drop h) = None" "\<not> hd_sender_handle (request_handler_drop h)"
  "\<not> hd_tx_shutdown_event (request_handler_drop h)"
  "hd_events_sent (request_handler_drop h) = hd_events_sent h + (if hd_tx_shutdown_event h then 1 else 0)"
  "request_handler_drop (request_handler_drop h) = request_handler_drop h"
  by (simp_all add: request_handler_drop_def handler_shutdown_def Let_def)

subsection \<open>What has been sent\<close>

text \<open>
  The handler in use: polled until it is finished. The requests that a poll takes from the channel
  are part of the label.
\<close>

datatype ('m, 'u) hd_label = HdPoll "('m, 'u) incoming list" "unit Async"

fun label_taken :: "('m, 'u) hd_label \<Rightarrow> ('m, 'u) incoming list" where
  "label_taken (HdPoll taken _) = taken"

inductive hd_step ::
  "'m header_map_ops \<Rightarrow> ('h, ('m, 'u) Message) unbounded_ops \<Rightarrow> ('s, 'f, 'm, 'u) service_ops
     \<Rightarrow> ('s, 'f, 'h) request_handler \<Rightarrow> ('m, 'u) hd_label \<Rightarrow> ('s, 'f, 'h) request_handler \<Rightarrow> bool"
  for M H V
where
  hd_step_poll:
    "hd_tx_shutdown_event h \<Longrightarrow> handler_poll M H V answers (taken @ rest) e h = Some (h', rest, a) \<Longrightarrow>
     hd_step M H V h (HdPoll taken a) h'"

inductive_cases hd_step_cases: "hd_step M H V h l h'"

definition continue_for :: "'m header_map_ops \<Rightarrow> CSeq \<Rightarrow> (bytes, 'm) Response" where
  "continue_for M cseq = number_response M cseq (the (CONTINUE_RESPONSE M))"

text \<open>The answer to one request: some \<open>Continue\<close> responses and then the final one.\<close>

fun answer_block :: "'m header_map_ops \<Rightarrow> CSeq \<times> nat \<times> (bytes, 'm) Response \<Rightarrow> (bytes, 'm) Response list" where
  "answer_block M (cseq, k, response) = replicate k (continue_for M cseq) @ [number_response M cseq response]"

definition current_cseq :: "('s, 'f, 'h) request_handler \<Rightarrow> CSeq list" where
  "current_cseq h = (case hd_serviced_request h of None \<Rightarrow> [] | Some (cseq, _) \<Rightarrow> [cseq])"

definition answers_so_far ::
  "'m header_map_ops \<Rightarrow> (CSeq \<times> nat \<times> (bytes, 'm) Response) list \<Rightarrow> nat \<Rightarrow> ('s, 'f, 'h) request_handler
     \<Rightarrow> (bytes, 'm) Response list"
where
  "answers_so_far M answered k h =
     concat (map (answer_block M) answered) @ concat (map (\<lambda>cseq. replicate k (continue_for M cseq)) (current_cseq h))"

text \<open>
  What it means that the responses \<open>ideal\<close> have been sent: all of them as long as the handler holds
  its sender handle or the channel never closes, else a prefix.
\<close>

definition sent_as ::
  "('h, ('m, 'u) Message) unbounded_ops \<Rightarrow> ('m, 'u) Message list \<Rightarrow> (bytes, 'm) Response list
     \<Rightarrow> ('s, 'f, 'h) request_handler \<Rightarrow> bool"
where
  "sent_as H before ideal h \<longleftrightarrow>
     (\<exists>n. chan_sent H (hd_channel h) = before @ map MessageResponse (take n ideal)
       \<and> (hd_sender_handle h \<or> never_closed H \<longrightarrow> length ideal \<le> n))"

lemma sent_asI:
  "chan_sent H (hd_channel h) = before @ map MessageResponse (take n ideal) \<Longrightarrow>
   (hd_sender_handle h \<or> never_closed H \<Longrightarrow> length ideal \<le> n) \<Longrightarrow> sent_as H before ideal h"
  unfolding sent_as_def by blast

lemma send_response_same [simp]:
  "hd_serviced_request (send_response M H cseq r h) = hd_serviced_request h"
  "hd_tx_shutdown_event (send_response M H cseq r h) = hd_tx_shutdown_event h"
  "hd_continue_timer (send_response M H cseq r h) = hd_continue_timer h"
  "hd_events_sent (send_response M H cseq r h) = hd_events_sent h"
  by (simp_all add: send_response_def split: prod.split)

lemma reset_continue_timer_same [simp]:
  "hd_serviced_request (reset_continue_timer h) = hd_serviced_request h"
  "hd_tx_shutdown_event (reset_continue_timer h) = hd_tx_shutdown_event h"
  "hd_channel (reset_continue_timer h) = hd_channel h"
  "hd_sender_handle (reset_continue_timer h) = hd_sender_handle h"
  "hd_events_sent (reset_continue_timer h) = hd_events_sent h"
  by (simp_all add: reset_continue_timer_def split: option.split)

definition hd_open :: "('h, 'a) unbounded_ops \<Rightarrow> ('s, 'f, 'h) request_handler \<Rightarrow> bool" where
  "hd_open H h \<longleftrightarrow> (never_closed H \<longrightarrow> hd_sender_handle h)"

lemma sent_as_send:
  assumes "unbounded_laws H" "sent_as H before ideal h" "hd_open H h"
  shows "sent_as H before (ideal @ [number_response M cseq r]) (send_response M H cseq r h)
    \<and> hd_open H (send_response M H cseq r h)"
proof -
  obtain n where n: "chan_sent H (hd_channel h) = before @ map MessageResponse (take n ideal)"
    "hd_sender_handle h \<or> never_closed H \<Longrightarrow> length ideal \<le> n"
    using assms(2) unfolding sent_as_def by blast
  obtain c b where send: "chan_send H (hd_channel h) (MessageResponse (number_response M cseq r)) = (c, b)" by fastforce
  note sent = unbounded_lawsD [OF assms(1) send]
  have open_b: "never_closed H \<Longrightarrow> b" using send by (metis never_closed_def snd_conv)
  show ?thesis
  proof (cases "hd_sender_handle h")
    case True
    then show ?thesis
      using n sent send open_b assms(3)
      by (auto simp: send_response_def hd_open_def intro!: sent_asI [where n = "if b then Suc (length ideal) else length ideal"])
  next
    case False
    then have "\<not> never_closed H" using assms(3) by (simp add: hd_open_def)
    with False show ?thesis
      using n by (auto simp: send_response_def hd_open_def min_def intro!: sent_asI [where n = "min n (length ideal)"])
  qed
qed

lemma sent_as_cong:
  "hd_channel h' = hd_channel h \<Longrightarrow> hd_sender_handle h' = hd_sender_handle h \<Longrightarrow>
   sent_as H before ideal h' = sent_as H before ideal h \<and> hd_open H h' = hd_open H h"
  by (simp add: sent_as_def hd_open_def)

lemma poll_continue_timer_sends:
  assumes "unbounded_laws H"
  shows "poll_continue_timer M H cseq answers h = Some (h', a) \<Longrightarrow> sent_as H before ideal h \<Longrightarrow> hd_open H h \<Longrightarrow>
    (\<exists>j. sent_as H before (ideal @ replicate j (continue_for M cseq)) h') \<and> hd_open H h'
    \<and> hd_serviced_request h' = hd_serviced_request h \<and> hd_tx_shutdown_event h' = hd_tx_shutdown_event h"
proof (induction answers arbitrary: h ideal)
  case Nil
  then show ?case by (auto intro!: exI [of _ 0])
next
  case (Cons answer answers)
  show ?case
  proof (cases "hd_continue_timer h")
    case False
    then show ?thesis using Cons.prems by (auto intro!: exI [of _ 0])
  next
    case True
    show ?thesis
    proof (cases answer)
      case TimerElapsed
      obtain response where response: "CONTINUE_RESPONSE M = Some response" using canned_total(2) by blast
      let ?h = "reset_continue_timer (send_response M H cseq response h)"
      have "sent_as H before (ideal @ [continue_for M cseq]) ?h \<and> hd_open H ?h"
        using sent_as_send [OF assms Cons.prems(2,3), of M cseq response] response
        by (simp add: continue_for_def sent_as_def hd_open_def)
      then obtain j where "sent_as H before ((ideal @ [continue_for M cseq]) @ replicate j (continue_for M cseq)) h'"
        "hd_open H h'" "hd_serviced_request h' = hd_serviced_request ?h" "hd_tx_shutdown_event h' = hd_tx_shutdown_event ?h"
        using Cons.IH [of ?h "ideal @ [continue_for M cseq]"] Cons.prems(1) True TimerElapsed response by auto
      then show ?thesis by (auto intro!: exI [of _ "Suc j"])
    next
      case TimerAtCapacity
      then show ?thesis
        using Cons.IH [of "h\<lparr>hd_continue_timer := False\<rparr>" ideal] Cons.prems True
        by (simp add: sent_as_def hd_open_def)
    qed (use Cons.prems True in \<open>auto intro!: exI [of _ 0]\<close>)
  qed
qed

text \<open>
  The requests taken so far, by number: each answered in turn, and then the one in service.
\<close>

definition hd_account ::
  "'m header_map_ops \<Rightarrow> ('h, ('m, 'u) Message) unbounded_ops \<Rightarrow> ('m, 'u) Message list \<Rightarrow> CSeq list
     \<Rightarrow> ('s, 'f, 'h) request_handler \<Rightarrow> bool"
where
  "hd_account M H before taken h \<longleftrightarrow>
     (\<exists>answered k. map fst answered @ current_cseq h = taken \<and> sent_as H before (answers_so_far M answered k h) h)"

lemma hd_accountI:
  "map fst answered @ current_cseq h = taken \<Longrightarrow> sent_as H before (answers_so_far M answered k h) h \<Longrightarrow>
   hd_account M H before taken h"
  unfolding hd_account_def by blast

lemma hd_account_final:
  assumes "unbounded_laws H" "hd_account M H before taken h" "hd_open H h"
    and "current_cseq h = [] \<and> taken' = taken @ [cseq] \<or> current_cseq h = [cseq] \<and> taken' = taken"
  shows "hd_account M H before taken'
      (send_response M H cseq r h\<lparr>hd_continue_timer := False, hd_serviced_request := None\<rparr>)
    \<and> hd_open H (send_response M H cseq r h\<lparr>hd_continue_timer := False, hd_serviced_request := None\<rparr>)"
proof -
  obtain answered k where acc: "map fst answered @ current_cseq h = taken"
    "sent_as H before (answers_so_far M answered k h) h"
    using assms(2) unfolding hd_account_def by blast
  let ?h = "send_response M H cseq r h\<lparr>hd_continue_timer := False, hd_serviced_request := None\<rparr>"
  define j where "j = (if current_cseq h = [] then 0 else k)"
  have "answers_so_far M (answered @ [(cseq, j, r)]) 0 ?h = answers_so_far M answered k h @ [number_response M cseq r]"
    using assms(4) by (auto simp: answers_so_far_def current_cseq_def j_def)
  moreover have "map fst (answered @ [(cseq, j, r)]) @ current_cseq ?h = taken'"
    using assms(4) acc(1) by (auto simp: current_cseq_def)
  moreover have "sent_as H before ideal ?h = sent_as H before ideal (send_response M H cseq r h)
      \<and> hd_open H ?h = hd_open H (send_response M H cseq r h)" for ideal
    by (rule sent_as_cong) simp_all
  ultimately show ?thesis
    using sent_as_send [OF assms(1) acc(2) assms(3), of M cseq r]
    by (intro conjI hd_accountI [where k = 0 and answered = "answered @ [(cseq, j, r)]"]) simp_all
qed

lemma poll_serviced_account:
  assumes "unbounded_laws H" "hd_account M H before taken h" "hd_open H h"
    and "poll_serviced_request M H V answers h = Some (h', a)"
  shows "hd_account M H before taken h' \<and> hd_open H h' \<and> hd_tx_shutdown_event h' = hd_tx_shutdown_event h
    \<and> (a = Ready () \<longrightarrow> current_cseq h' = [])"
proof (cases "hd_serviced_request h")
  case None
  then show ?thesis using assms by (simp add: poll_serviced_request_def current_cseq_def)
next
  case (Some cf)
  then obtain cseq future where cf: "hd_serviced_request h = Some (cseq, future)" by (cases cf) auto
  then have current: "current_cseq h = [cseq]" by (simp add: current_cseq_def)
  note final = hd_account_final [OF assms(1-3) disjI2 [OF conjI [OF current refl]]]
  obtain future' r where poll: "service_future_poll V future = (future', r)" by fastforce
  show ?thesis
  proof (cases "r = Ok NotReady")
    case True
    let ?h = "h\<lparr>hd_serviced_request := Some (cseq, future')\<rparr>"
    obtain b where timer: "poll_continue_timer M H cseq answers ?h = Some (h', b)" "a = NotReady"
      using assms(4) cf poll True by (auto simp: poll_serviced_request_def split: option.splits)
    obtain answered k where acc: "map fst answered @ current_cseq h = taken"
      "sent_as H before (answers_so_far M answered k h) h"
      using assms(2) unfolding hd_account_def by blast
    have same: "current_cseq ?h = current_cseq h" "hd_open H ?h" using assms(3) cf by (simp_all add: current_cseq_def hd_open_def)
    then have "sent_as H before (answers_so_far M answered k h) ?h" using acc(2) by (simp add: sent_as_def)
    from poll_continue_timer_sends [OF assms(1) timer(1) this same(2)]
    obtain j where j: "sent_as H before (answers_so_far M answered k h @ replicate j (continue_for M cseq)) h'"
      "hd_open H h'" "hd_serviced_request h' = hd_serviced_request ?h" "hd_tx_shutdown_event h' = hd_tx_shutdown_event h"
      by auto
    then have "current_cseq h' = [cseq]" by (simp add: current_cseq_def)
    then have "answers_so_far M answered k h @ replicate j (continue_for M cseq) = answers_so_far M answered (k + j) h'"
      using current by (simp add: answers_so_far_def replicate_add)
    then show ?thesis
      using acc(1) j timer(2) \<open>current_cseq h' = [cseq]\<close> current
      by (auto intro!: hd_accountI [where answered = answered and k = "k + j"])
  next
    case False
    obtain response where "INTERNAL_SERVER_ERROR_RESPONSE M = Some response" using canned_total(3) by blast
    then show ?thesis
      using assms(4) cf poll False final
      by (auto simp: poll_serviced_request_def current_cseq_def split: sum.splits Async.splits)
  qed
qed

lemma process_request_account:
  assumes "unbounded_laws H" "hd_account M H before taken h" "hd_open H h" "current_cseq h = []"
    and "process_request M H V cseq request h = Some h'"
  shows "hd_account M H before (taken @ [cseq]) h' \<and> hd_open H h' \<and> hd_tx_shutdown_event h' = hd_tx_shutdown_event h"
proof -
  have none: "hd_serviced_request h = None"
    using assms(4) by (auto simp: current_cseq_def split: option.splits)
  have "hd_account M H before (taken @ [cseq]) (send_response M H cseq r h) \<and> hd_open H (send_response M H cseq r h)" for r
    using hd_account_final [OF assms(1-3) disjI1 [OF conjI [OF assms(4) refl]], of cseq r] none
    by (auto simp: hd_account_def answers_so_far_def current_cseq_def sent_as_def hd_open_def)
  moreover have "hd_account M H before (taken @ [cseq]) h' \<and> hd_open H h' \<and> hd_tx_shutdown_event h' = hd_tx_shutdown_event h"
    if "h' = (reset_continue_timer h)\<lparr>hd_service := service, hd_serviced_request := Some (cseq, future)\<rparr>" for service future
  proof -
    obtain answered k where acc: "map fst answered @ current_cseq h = taken"
      "sent_as H before (answers_so_far M answered k h) h"
      using assms(2) unfolding hd_account_def by blast
    have same: "hd_channel h' = hd_channel h" "hd_sender_handle h' = hd_sender_handle h"
      "hd_tx_shutdown_event h' = hd_tx_shutdown_event h" "current_cseq h' = [cseq]"
      using that by (simp_all add: current_cseq_def)
    then have "answers_so_far M answered 0 h' = answers_so_far M answered k h"
      using assms(4) by (simp add: answers_so_far_def)
    then have "hd_account M H before (taken @ [cseq]) h'"
      using acc assms(4) same sent_as_cong [OF same(1,2), of H before]
      by (intro hd_accountI [where answered = answered and k = 0]) simp_all
    then show ?thesis using sent_as_cong [OF same(1,2), of H before] assms(3) same by simp
  qed
  ultimately show ?thesis
    using assms(5) by (auto simp: process_request_def Let_def split: if_splits option.splits prod.splits)
qed

lemma handler_poll_account:
  assumes "unbounded_laws H"
  shows "handler_poll M H V answers incoming e h = Some (h', rest, a) \<Longrightarrow> hd_account M H before taken h \<Longrightarrow> hd_open H h \<Longrightarrow>
    \<exists>more. incoming = more @ rest \<and> hd_account M H before (taken @ map fst more) h'
      \<and> (case a of Ready _ \<Rightarrow> current_cseq h' = [] \<and> \<not> hd_tx_shutdown_event h' \<and> rest = [] \<and> e = DrainClosed
         | NotReady \<Rightarrow> hd_open H h' \<and> hd_tx_shutdown_event h' = hd_tx_shutdown_event h)"
proof (induction incoming arbitrary: h taken)
  case Nil
  then obtain t b where poll: "poll_serviced_request M H V answers h = Some (t, b)" by (auto split: option.splits)
  note acc = poll_serviced_account [OF assms Nil.prems(2,3) poll]
  have "hd_account M H before taken (handler_shutdown t)" if "current_cseq t = []"
    using acc that
    by (auto simp: hd_account_def handler_shutdown_def Let_def answers_so_far_def current_cseq_def sent_as_def)
  then show ?case
    using Nil.prems(1) poll acc
    by (cases b; cases e) (auto simp: handler_shutdown_def Let_def current_cseq_def)
next
  case (Cons cq incoming)
  obtain cseq request where cq: "cq = (cseq, request)" by (cases cq)
  from Cons.prems(1) obtain t b where poll: "poll_serviced_request M H V answers h = Some (t, b)"
    by (auto simp: cq split: option.splits)
  note acc = poll_serviced_account [OF assms Cons.prems(2,3) poll]
  show ?case
  proof (cases b)
    case NotReady
    then show ?thesis using Cons.prems(1) poll acc by (auto simp: cq)
  next
    case (Ready u)
    from Ready poll Cons.prems(1) obtain t' where t': "process_request M H V cseq request t = Some t'"
      "handler_poll M H V answers incoming e t' = Some (h', rest, a)"
      by (auto simp: cq split: option.splits)
    have "hd_account M H before (taken @ [cseq]) t' \<and> hd_open H t' \<and> hd_tx_shutdown_event t' = hd_tx_shutdown_event t"
      using acc Ready by (intro process_request_account [OF assms _ _ _ t'(1)]) auto
    with Cons.IH [OF t'(2)] obtain more where "incoming = more @ rest"
      "hd_account M H before ((taken @ [cseq]) @ map fst more) h'"
      "case a of Ready _ \<Rightarrow> current_cseq h' = [] \<and> \<not> hd_tx_shutdown_event h' \<and> rest = [] \<and> e = DrainClosed
         | NotReady \<Rightarrow> hd_open H h' \<and> hd_tx_shutdown_event h' = hd_tx_shutdown_event t'"
      by blast
    then show ?thesis
      using acc \<open>hd_account M H before (taken @ [cseq]) t' \<and> _\<close>
      by (intro exI [of _ "cq # more"]) (auto simp: cq split: Async.splits)
  qed
qed

definition hd_inv ::
  "'m header_map_ops \<Rightarrow> ('h, ('m, 'u) Message) unbounded_ops \<Rightarrow> ('m, 'u) Message list \<Rightarrow> ('m, 'u) hd_label list
     \<Rightarrow> ('s, 'f, 'h) request_handler \<Rightarrow> bool"
where
  "hd_inv M H before ls h \<longleftrightarrow>
     hd_account M H before (map fst (concat (map label_taken ls))) h
     \<and> (if hd_tx_shutdown_event h then hd_open H h else current_cseq h = [])"

interpretation hd: step_invariant "hd_step M H V" "request_handler_new service channel continue_wait_duration"
  "\<lambda>ls h. unbounded_laws H \<longrightarrow> hd_inv M H (chan_sent H channel) ls h" for M H V service channel continue_wait_duration
proof
  show "unbounded_laws H \<longrightarrow>
      hd_inv M H (chan_sent H channel) [] (request_handler_new service channel continue_wait_duration)"
    by (auto simp: hd_inv_def request_handler_new_def hd_open_def current_cseq_def answers_so_far_def sent_as_def
        intro!: hd_accountI [where answered = "[]" and k = 0])
next
  fix ls h l h'
  assume inv: "unbounded_laws H \<longrightarrow> hd_inv M H (chan_sent H channel) ls h" and step: "hd_step M H V h l h'"
  show "unbounded_laws H \<longrightarrow> hd_inv M H (chan_sent H channel) (ls @ [l]) h'"
  proof
    assume laws: "unbounded_laws H"
    from step obtain answers taken rest e a where l: "l = HdPoll taken a" "hd_tx_shutdown_event h"
      "handler_poll M H V answers (taken @ rest) e h = Some (h', rest, a)"
      by (rule hd_step_cases)
    show "hd_inv M H (chan_sent H channel) (ls @ [l]) h'"
      using handler_poll_account [OF laws l(3)] inv laws l(1,2)
      by (cases a) (auto simp: hd_inv_def)
  qed
qed

lemma poll_continue_timer_some:
  "TimerShutdown \<notin> set answers \<Longrightarrow> poll_continue_timer M H cseq answers h \<noteq> None"
  using canned_total(2) [of M] by (induction answers arbitrary: h) (auto split: TimerPoll.split)

lemma poll_serviced_some:
  "TimerShutdown \<notin> set answers \<Longrightarrow> poll_serviced_request M H V answers h \<noteq> None"
  using canned_total(3) [of M]
  by (auto simp: poll_serviced_request_def poll_continue_timer_some
      split: option.split prod.split sum.split Async.split simp del: not_None_eq)

lemma process_request_some: "process_request M H V cseq request h \<noteq> None"
  using canned_total(1,4) [of M] by (auto simp: process_request_def Let_def split: prod.split)

lemma handler_poll_some:
  assumes "TimerShutdown \<notin> set answers"
  shows "handler_poll M H V answers incoming e h \<noteq> None"
proof (induction incoming arbitrary: h)
  case Nil
  then show ?case
    using poll_serviced_some [OF assms, of M H V h] by (auto split: option.split Async.split DrainEnd.split)
next
  case (Cons cq incoming)
  then show ?case
    using poll_serviced_some [OF assms, of M H V h] process_request_some [of M H V]
    by (cases cq) (auto split: option.split Async.split simp del: not_None_eq)
qed

lemma poll_continue_timer_keeps:
  "poll_continue_timer M H cseq answers h = Some (h', a) \<Longrightarrow>
   hd_serviced_request h' = hd_serviced_request h \<and> hd_tx_shutdown_event h' = hd_tx_shutdown_event h
   \<and> hd_events_sent h' = hd_events_sent h"
  by (induction answers arbitrary: h) (auto split: if_splits TimerPoll.splits option.splits)

lemma poll_serviced_keeps:
  "poll_serviced_request M H V answers h = Some (h', a) \<Longrightarrow>
   (a = Ready () \<longleftrightarrow> hd_serviced_request h' = None)
   \<and> hd_tx_shutdown_event h' = hd_tx_shutdown_event h \<and> hd_events_sent h' = hd_events_sent h"
  by (auto simp: poll_serviced_request_def split: option.splits prod.splits sum.splits Async.splits
      dest: poll_continue_timer_keeps)

lemma process_request_keeps:
  "process_request M H V cseq request h = Some h' \<Longrightarrow>
   hd_tx_shutdown_event h' = hd_tx_shutdown_event h \<and> hd_events_sent h' = hd_events_sent h"
  by (auto simp: process_request_def Let_def split: if_splits option.splits prod.splits)

lemma handler_poll_stops:
  "handler_poll M H V answers incoming e h = Some (h', rest, a) \<Longrightarrow>
   (case a of
      Ready _ \<Rightarrow> rest = [] \<and> e = DrainClosed \<and> hd_serviced_request h' = None \<and> \<not> hd_tx_shutdown_event h'
        \<and> hd_events_sent h' = hd_events_sent h + (if hd_tx_shutdown_event h then 1 else 0)
    | NotReady \<Rightarrow> (hd_serviced_request h' \<noteq> None \<or> rest = [] \<and> e = DrainPending)
        \<and> hd_tx_shutdown_event h' = hd_tx_shutdown_event h \<and> hd_events_sent h' = hd_events_sent h)"
proof (induction incoming arbitrary: h)
  case Nil
  then obtain t b where "poll_serviced_request M H V answers h = Some (t, b)" by (auto split: option.splits)
  then show ?case
    using Nil poll_serviced_keeps [of M H V answers h t b]
    by (cases b; cases e) (auto simp: handler_shutdown_def Let_def)
next
  case (Cons cq incoming)
  obtain cseq request where cq: "cq = (cseq, request)" by (cases cq)
  with Cons.prems obtain t b where poll: "poll_serviced_request M H V answers h = Some (t, b)"
    by (auto split: option.splits)
  note keeps = poll_serviced_keeps [OF poll]
  show ?case
  proof (cases b)
    case NotReady
    then show ?thesis using Cons.prems poll keeps by (auto simp: cq)
  next
    case (Ready u)
    then obtain t' where "process_request M H V cseq request t = Some t'"
      "handler_poll M H V answers incoming e t' = Some (h', rest, a)"
      using Cons.prems poll by (auto simp: cq split: option.splits)
    then show ?thesis
      using Cons.IH [of t'] process_request_keeps [of M H V cseq request t t'] keeps by (cases a) simp_all
  qed
qed

subsection \<open>Properties\<close>

text \<open>
  C9. Every request is answered once, in the order in which the requests came. At any moment of any
  run, the requests taken so far are those that have been answered, in that order, and at most one
  that is in service; nothing is in service when the handler has finished. What the handler sent is,
  request after request, some \<open>Continue\<close> responses and one final response, all of them with the
  sequence number of the request, then the \<open>Continue\<close> responses of the one in service. All of this
  was sent if the channel never closes; if it does, exactly a prefix was, and nothing after it.
\<close>

theorem handler_answers_in_order:
  assumes "unbounded_laws H"
    and "runs (hd_step M H V) (request_handler_new service channel continue_wait_duration) ls h"
  shows "\<exists>answered k n.
    map fst answered @ current_cseq h = map fst (concat (map label_taken ls))
    \<and> chan_sent H (hd_channel h) =
        chan_sent H channel @ map MessageResponse (take n (answers_so_far M answered k h))
    \<and> (hd_sender_handle h \<or> never_closed H \<longrightarrow> length (answers_so_far M answered k h) \<le> n)
    \<and> (hd_tx_shutdown_event h \<or> current_cseq h = [])"
proof -
  have inv: "hd_inv M H (chan_sent H channel) ls h" using hd.inv_runs [OF assms(2)] assms(1) by blast
  then obtain answered k where acc: "map fst answered @ current_cseq h = map fst (concat (map label_taken ls))"
    "sent_as H (chan_sent H channel) (answers_so_far M answered k h) h"
    unfolding hd_inv_def hd_account_def by blast
  with inv show ?thesis unfolding sent_as_def hd_inv_def by (metis (full_types))
qed

text \<open>A service that answers at once, for the examples.\<close>

definition demo_service :: "(nat, unit, headers, unit) service_ops" where
  "demo_service = \<lparr>service_call = (\<lambda>n _. (n + 1, ())), service_future_poll = (\<lambda>_. ((), Ok (Ready ok_response)))\<rparr>"

definition demo_outgoing :: "(nat \<times> (headers, unit) Message list, (headers, unit) Message) unbounded_ops" where
  "demo_outgoing = list_channel"

lemma demo_outgoing_laws: "unbounded_laws demo_outgoing"
  by (simp add: demo_outgoing_def list_channel_laws)

definition demo_handler :: "nat \<Rightarrow> nat \<Rightarrow> (headers, unit) Message list \<Rightarrow> (nat, unit, nat \<times> (headers, unit) Message list) request_handler" where
  "demo_handler calls room sent = request_handler_new calls (room, sent) None"

lemma demo_handler_poll:
  "handler_poll list_headers demo_outgoing demo_service [] ([(CSeq 1, demo_request)] @ []) DrainPending (demo_handler 0 5 []) =
    Some (demo_handler 1 4 [MessageResponse (number_response list_headers (CSeq 1) ok_response)], [], NotReady)"
  by (simp add: demo_handler_def poll_serviced_request_def process_request_def request_handler_new_def demo_request_def
      demo_service_def uri_scheme_def typed_get_def typed_try_get_def content_length_decode_def list_headers_def
      reset_continue_timer_def send_response_def demo_outgoing_def list_channel_def)

lemma handler_answers_in_order_witness:
  "\<exists>ls h (answered :: (CSeq \<times> nat \<times> (bytes, headers) Response) list).
    runs (hd_step list_headers demo_outgoing demo_service) (demo_handler 0 5 []) ls h
    \<and> concat (map label_taken ls) = [(CSeq 1, demo_request)] \<and> map fst answered @ current_cseq h = [CSeq 1]"
proof -
  let ?h = "demo_handler 1 4 [MessageResponse (number_response list_headers (CSeq 1) ok_response)]"
  let ?ls = "[HdPoll [(CSeq 1, demo_request)] NotReady]"
  have "hd_step list_headers demo_outgoing demo_service (demo_handler 0 5 []) (HdPoll [(CSeq 1, demo_request)] NotReady) ?h"
    by (rule hd_step_poll [OF _ demo_handler_poll]) (simp add: demo_handler_def request_handler_new_def)
  then have run: "runs (hd_step list_headers demo_outgoing demo_service) (demo_handler 0 5 []) ?ls ?h"
    by (rule runs_single)
  have taken: "concat (map label_taken ?ls) = [(CSeq 1, demo_request)]" by simp
  obtain answered :: "(CSeq \<times> nat \<times> (bytes, headers) Response) list" where "map fst answered @ current_cseq ?h = map fst (concat (map label_taken ?ls))"
    using handler_answers_in_order [OF demo_outgoing_laws run [unfolded demo_handler_def]] unfolding demo_handler_def by blast
  then have "map fst answered @ current_cseq ?h = [CSeq 1]" unfolding taken by simp
  with run taken show ?thesis by blast
qed

text \<open>
  Polling the request handler always returns when the timer service is up. It goes on taking
  requests until one is in service or none is there; it finishes only when the channel of requests
  has ended and nothing is in service, and then the shutdown event has been sent, once.
\<close>

theorem handler_poll_returns:
  assumes "TimerShutdown \<notin> set answers"
  shows "case handler_poll M H V answers incoming e h of
      None \<Rightarrow> False
    | Some (h', rest, Ready _) \<Rightarrow> rest = [] \<and> e = DrainClosed \<and> hd_serviced_request h' = None
        \<and> hd_events_sent h' = hd_events_sent h + (if hd_tx_shutdown_event h then 1 else 0)
    | Some (h', rest, NotReady) \<Rightarrow> (hd_serviced_request h' \<noteq> None \<or> rest = [] \<and> e = DrainPending)
        \<and> hd_events_sent h' = hd_events_sent h"
  using handler_poll_some [OF assms, of M H V incoming e h] handler_poll_stops [of M H V answers incoming e h]
  by (force split: option.split Async.split)

lemma handler_poll_returns_witness:
  "case handler_poll list_headers demo_outgoing demo_service [TimerElapsed] [] DrainClosed
      (request_handler_new 0 (5, []) (Some 5)) of
     Some (h', rest, Ready _) \<Rightarrow> rest = [] | Some (h', rest, NotReady) \<Rightarrow> True | None \<Rightarrow> False"
  using handler_poll_returns [where answers = "[TimerElapsed]" and M = list_headers and H = demo_outgoing
      and V = demo_service and incoming = "[]" and e = DrainClosed and h = "request_handler_new 0 (5, []) (Some 5)"]
  by (simp split: option.splits Async.splits)

text \<open>
  A request for the scheme \<open>rtspu\<close> is answered with 501, and one with a non-empty body but no
  content type with 400, under its own sequence number; the service never sees it and the handler
  goes on with the next request.
\<close>

theorem handler_rejects:
  assumes "header_map_laws M" "unbounded_laws H" "never_closed H" "cseq_valid cseq"
    and "hd_serviced_request h = None" "hd_sender_handle h"
    and "uri_scheme (req_uri request) = Some RTSPU
      \<or> (case typed_get M content_length_header_name content_length_decode (req_headers request) of
           Some content_length \<Rightarrow> content_length_value content_length > 0
             \<and> \<not> map_contains_key M (req_headers request) HeaderContentType
         | None \<Rightarrow> False)"
  shows "\<exists>response h'.
    (\<forall>incoming. handler_poll M H V answers ((cseq, request) # incoming) e h = handler_poll M H V answers incoming e h')
    \<and> chan_sent H (hd_channel h') = chan_sent H (hd_channel h) @ [MessageResponse response]
    \<and> resp_status_code response = (if uri_scheme (req_uri request) = Some RTSPU then NotImplemented else BadRequest)
    \<and> response_cseq M response = Some cseq
    \<and> hd_service h' = hd_service h \<and> hd_serviced_request h' = None"
proof -
  have "\<exists>response. resp_status_code response =
      (if uri_scheme (req_uri request) = Some RTSPU then NotImplemented else BadRequest)
    \<and> process_request M H V cseq request h = Some (send_response M H cseq response h)"
    using assms(7) canned_total(1,4) [of M]
    by (cases "uri_scheme (req_uri request) = Some RTSPU") (auto simp: process_request_def)
  then obtain response where response: "resp_status_code response =
      (if uri_scheme (req_uri request) = Some RTSPU then NotImplemented else BadRequest)"
    and sent: "process_request M H V cseq request h = Some (send_response M H cseq response h)"
    by blast
  obtain channel where channel: "chan_send H (hd_channel h) (MessageResponse (number_response M cseq response)) = (channel, True)"
    using assms(3) by (metis (full_types) never_closed_def prod.collapse)
  have "response_cseq M (number_response M cseq response) = Some cseq"
    using cseq_hdr.get_after_insert [OF assms(1,4)] by (simp add: response_cseq_def number_response_def typed_get_def)
  then show ?thesis
    using assms(5,6) response sent channel unbounded_lawsD [OF assms(2) channel]
    by (intro exI [of _ "number_response M cseq response"] exI [of _ "h\<lparr>hd_channel := channel\<rparr>"])
       (simp add: poll_serviced_request_def send_response_def number_response_def)
qed

lemma handler_rejects_witness:
  "\<exists>response. resp_status_code response = NotImplemented \<and> response_cseq list_headers response = Some (CSeq 4)"
proof -
  let ?q = "demo_request\<lparr>req_uri := Some \<lparr>scheme_part = RTSPU, authority_part = (), path_part = (), query_part = None\<rparr>\<rparr>"
  let ?H = "\<lparr>chan_send = \<lambda>l x. (l @ [x], True), chan_sent = \<lambda>l. l\<rparr> :: ((headers, unit) Message list, (headers, unit) Message) unbounded_ops"
  let ?h = "request_handler_new 0 [] None :: (nat, unit, (headers, unit) Message list) request_handler"
  have H: "unbounded_laws ?H" "never_closed ?H" by (simp_all add: unbounded_laws_def never_closed_def)
  have c: "cseq_valid (CSeq 4)" by code_simp
  have h: "hd_serviced_request ?h = None" "hd_sender_handle ?h" by (simp_all add: request_handler_new_def)
  have q: "uri_scheme (req_uri ?q) = Some RTSPU" by (simp add: uri_scheme_def)
  show ?thesis
    using handler_rejects [OF list_headers_laws H c h disjI1 [OF q], of demo_service "[]" DrainPending]
    unfolding q by auto
qed

end
