(* ===== verification/Shutdown.thy ===== *)
theory Shutdown
  imports Pending
begin

text \<open>
  Deliberate shutdown of a connection: \<^verbatim>\<open>rtsp-2/src/protocol/connection/shutdown.rs\<close>. The
  receiver, the timer and the event sender are options of the source; only their presence matters.
  The number of shutdown events sent is the last field. The option around a result is a panic.
\<close>

datatype ShutdownState = Running | ShutDown | ShuttingDown

datatype ShutdownType = Graceful Duration | Immediate

record shutdown_handler =
  sh_rx_initiate_shutdown :: bool
  sh_timer :: bool
  sh_tx_shutdown_event :: bool
  sh_events_sent :: nat

definition shutdown_new :: shutdown_handler where
  "shutdown_new =
     \<lparr>sh_rx_initiate_shutdown = True, sh_timer = False, sh_tx_shutdown_event = True, sh_events_sent = 0\<rparr>"

definition shutdown_state :: "shutdown_handler \<Rightarrow> ShutdownState" where
  "shutdown_state sh =
     (if sh_rx_initiate_shutdown sh then Running else if sh_timer sh then ShuttingDown else ShutDown)"

definition handle_shutdown :: "ShutdownType \<Rightarrow> shutdown_handler \<Rightarrow> shutdown_handler" where
  "handle_shutdown shutdown_type sh =
     (case shutdown_type of
        Graceful duration \<Rightarrow> sh\<lparr>sh_rx_initiate_shutdown := False, sh_timer := True\<rparr>
      | Immediate \<Rightarrow>
          (let sh = sh\<lparr>sh_rx_initiate_shutdown := False, sh_timer := False\<rparr>
           in if sh_tx_shutdown_event sh
              then sh\<lparr>sh_tx_shutdown_event := False, sh_events_sent := Suc (sh_events_sent sh)\<rparr> else sh))"

definition force_shutdown :: "shutdown_handler \<Rightarrow> shutdown_handler" where
  "force_shutdown sh = handle_shutdown Immediate sh"

definition shutdown_handler_drop :: "shutdown_handler \<Rightarrow> shutdown_handler" where
  "shutdown_handler_drop sh = force_shutdown sh"

text \<open>The answer of the channel that initiates a shutdown is one of a single-use channel.\<close>

definition poll_running :: "ShutdownType OneshotPoll \<Rightarrow> shutdown_handler \<Rightarrow> (shutdown_handler \<times> unit Async) option" where
  "poll_running answer sh =
     (if \<not> sh_rx_initiate_shutdown sh then None
      else Some (case answer of
        OneshotMessage shutdown_type \<Rightarrow> (handle_shutdown shutdown_type sh, Ready ())
      | OneshotCanceled \<Rightarrow> (handle_shutdown Immediate sh, Ready ())
      | OneshotPending \<Rightarrow> (sh, NotReady)))"

definition poll_shutting_down :: "TimerPoll \<Rightarrow> shutdown_handler \<Rightarrow> (shutdown_handler \<times> unit Async) option" where
  "poll_shutting_down answer sh =
     (if \<not> sh_timer sh then None
      else case answer of
        TimerElapsed \<Rightarrow> Some (handle_shutdown Immediate sh, Ready ())
      | TimerPending \<Rightarrow> Some (sh, NotReady)
      | TimerAtCapacity \<Rightarrow> Some (handle_shutdown Immediate sh, Ready ())
      | TimerShutdown \<Rightarrow> None)"

text \<open>
  The loop of \<open>poll\<close>. Each round but the last leaves its state for good, so that the state is the
  measure: running, shutting down, shut down. The channel and the timer are polled at most once.
\<close>

definition state_rank :: "shutdown_handler \<Rightarrow> nat" where
  "state_rank sh = (case shutdown_state sh of Running \<Rightarrow> 2 | ShuttingDown \<Rightarrow> 1 | ShutDown \<Rightarrow> 0)"

lemma handle_shutdown_rank:
  "shutdown_state sh = Running \<Longrightarrow> state_rank (handle_shutdown t sh) < state_rank sh"
  "shutdown_state sh = ShuttingDown \<Longrightarrow> state_rank (handle_shutdown Immediate sh) < state_rank sh"
  by (auto simp: state_rank_def shutdown_state_def handle_shutdown_def Let_def split: ShutdownType.splits if_splits)

lemma poll_rank:
  "shutdown_state sh = Running \<Longrightarrow> poll_running answer sh = Some (sh', Ready ()) \<Longrightarrow> state_rank sh' < state_rank sh"
  "shutdown_state sh = ShuttingDown \<Longrightarrow> poll_shutting_down answer' sh = Some (sh', Ready ()) \<Longrightarrow> state_rank sh' < state_rank sh"
  using handle_shutdown_rank
  by (auto simp: poll_running_def poll_shutting_down_def split: OneshotPoll.splits TimerPoll.splits if_splits)

function shutdown_poll ::
  "ShutdownType OneshotPoll \<Rightarrow> TimerPoll \<Rightarrow> shutdown_handler \<Rightarrow> (shutdown_handler \<times> unit Async) option" where
  "shutdown_poll answer timer_answer sh =
     (case shutdown_state sh of
        Running \<Rightarrow>
          (case poll_running answer sh of
             None \<Rightarrow> None
           | Some (sh', NotReady) \<Rightarrow> Some (sh', NotReady)
           | Some (sh', Ready _) \<Rightarrow> shutdown_poll answer timer_answer sh')
      | ShuttingDown \<Rightarrow>
          (case poll_shutting_down timer_answer sh of
             None \<Rightarrow> None
           | Some (sh', NotReady) \<Rightarrow> Some (sh', NotReady)
           | Some (sh', Ready _) \<Rightarrow> shutdown_poll answer timer_answer sh')
      | ShutDown \<Rightarrow> Some (sh, Ready ()))"
  by pat_completeness auto
termination
  by (relation "measure (\<lambda>(answer, timer_answer, sh). state_rank sh)") (auto simp: poll_rank)

declare shutdown_poll.simps [simp del]

subsection \<open>Facts\<close>

text \<open>What the debug assertions of \<open>state\<close> check, and when the event is sent.\<close>

definition shutdown_inv :: "shutdown_handler \<Rightarrow> bool" where
  "shutdown_inv sh \<longleftrightarrow>
     \<not> (sh_rx_initiate_shutdown sh \<and> sh_timer sh)
     \<and> (sh_tx_shutdown_event sh \<longleftrightarrow> shutdown_state sh \<noteq> ShutDown)
     \<and> sh_events_sent sh = (if shutdown_state sh = ShutDown then 1 else 0)"

lemmas shutdown_unfold = shutdown_inv_def shutdown_state_def handle_shutdown_def Let_def

lemma shutdown_inv_new: "shutdown_inv shutdown_new"
  by (simp add: shutdown_unfold shutdown_new_def)

lemma shutdown_inv_handle:
  "shutdown_inv sh \<Longrightarrow> t = Immediate \<or> shutdown_state sh = Running \<Longrightarrow> shutdown_inv (handle_shutdown t sh)"
  by (cases t) (auto simp: shutdown_unfold split: if_splits)

text \<open>Dropping the handler shuts it down, and has sent the event once by then.\<close>

lemma shutdown_handler_dropped:
  "shutdown_inv sh \<Longrightarrow> shutdown_state (shutdown_handler_drop sh) = ShutDown \<and> sh_events_sent (shutdown_handler_drop sh) = 1"
  by (auto simp: shutdown_handler_drop_def force_shutdown_def shutdown_unfold split: if_splits)

text \<open>A poll, state by state; a graceful shutdown polls its new timer at once.\<close>

lemma shutdown_poll_shut: "shutdown_state sh = ShutDown \<Longrightarrow> shutdown_poll a t sh = Some (sh, Ready ())"
  by (simp add: shutdown_poll.simps)

lemma shutdown_state_immediate: "shutdown_state (handle_shutdown Immediate sh) = ShutDown"
  by (simp add: shutdown_unfold)

lemma shutdown_poll_immediate:
  "shutdown_poll a t (handle_shutdown Immediate sh) = Some (handle_shutdown Immediate sh, Ready ())"
  by (rule shutdown_poll_shut [OF shutdown_state_immediate])

lemma shutdown_poll_shutting:
  "shutdown_state sh = ShuttingDown \<Longrightarrow> shutdown_poll a t sh =
     (case t of TimerPending \<Rightarrow> Some (sh, NotReady) | TimerShutdown \<Rightarrow> None
      | _ \<Rightarrow> Some (handle_shutdown Immediate sh, Ready ()))"
  by (subst shutdown_poll.simps)
     (auto simp: poll_shutting_down_def shutdown_poll_immediate
        shutdown_state_def split: TimerPoll.splits if_splits)

lemma shutdown_poll_running:
  "shutdown_state sh = Running \<Longrightarrow> shutdown_poll a t sh =
     (case a of OneshotPending \<Rightarrow> Some (sh, NotReady)
      | OneshotMessage (Graceful d) \<Rightarrow> shutdown_poll a t (handle_shutdown (Graceful d) sh)
      | _ \<Rightarrow> Some (handle_shutdown Immediate sh, Ready ()))"
  by (subst shutdown_poll.simps)
     (auto simp: poll_running_def shutdown_poll_immediate
        shutdown_state_def split: OneshotPoll.splits ShutdownType.splits if_splits)

text \<open>The handler in use: polled, forced, and forced once more when it is dropped.\<close>

datatype sh_label = ShPoll "ShutdownType OneshotPoll" TimerPoll "unit Async" | ShForce

inductive sh_step :: "shutdown_handler \<Rightarrow> sh_label \<Rightarrow> shutdown_handler \<Rightarrow> bool" where
  sh_step_poll: "shutdown_poll a t sh = Some (sh', r) \<Longrightarrow> sh_step sh (ShPoll a t r) sh'"
| sh_step_force: "sh_step sh ShForce (force_shutdown sh)"

inductive_cases sh_step_cases: "sh_step sh l sh'"

lemma shutdown_poll_keeps:
  assumes "shutdown_inv sh" "shutdown_poll a t sh = Some (sh', r)"
  shows "shutdown_inv sh' \<and> (r = Ready () \<longleftrightarrow> shutdown_state sh' = ShutDown) \<and> state_rank sh' \<le> state_rank sh"
proof -
  have shutting: "shutdown_inv sh' \<and> (r = Ready () \<longleftrightarrow> shutdown_state sh' = ShutDown) \<and> state_rank sh' \<le> state_rank sh"
    if "shutdown_inv sh" "shutdown_state sh = ShuttingDown" "shutdown_poll a t sh = Some (sh', r)" for sh
    using that shutdown_inv_handle [OF that(1)] handle_shutdown_rank(2) [OF that(2)] shutdown_state_immediate
    by (auto simp: shutdown_poll_shutting split: TimerPoll.splits)
  show ?thesis
  proof (cases "shutdown_state sh")
    case Running
    have "shutdown_state (handle_shutdown (Graceful d) sh) = ShuttingDown" for d by (simp add: shutdown_unfold)
    then show ?thesis
      using Running assms shutting [of "handle_shutdown (Graceful _) sh"] shutdown_inv_handle [OF assms(1)]
        handle_shutdown_rank(1) [OF Running] shutdown_state_immediate
      by (auto simp: shutdown_poll_running split: OneshotPoll.splits ShutdownType.splits)
         (meson le_trans less_imp_le)+
  qed (use assms shutting in \<open>auto simp: shutdown_poll_shut\<close>)
qed

interpretation sh: step_invariant sh_step shutdown_new "\<lambda>_. shutdown_inv"
proof
  show "shutdown_inv shutdown_new" by (rule shutdown_inv_new)
  show "shutdown_inv sh \<Longrightarrow> sh_step sh l sh' \<Longrightarrow> shutdown_inv sh'" for sh l sh'
    using shutdown_poll_keeps shutdown_inv_handle by (auto elim!: sh_step_cases simp: force_shutdown_def)
qed

subsection \<open>Properties\<close>

text \<open>
  C16. The shutdown event is sent exactly once, at the moment the handler becomes shut down, however
  it gets there and however often it is polled, forced and dropped; before that it is not sent. The
  initiating channel and the timer are never both held, and once shut down neither is.
\<close>

theorem shutdown_event_once:
  assumes "runs sh_step shutdown_new ls sh"
  shows "sh_events_sent sh = (if shutdown_state sh = ShutDown then 1 else 0)
    \<and> (sh_tx_shutdown_event sh \<longleftrightarrow> shutdown_state sh \<noteq> ShutDown) \<and> \<not> (sh_rx_initiate_shutdown sh \<and> sh_timer sh)"
  using sh.inv_runs [OF assms] by (simp add: shutdown_inv_def)

lemma shutdown_event_once_witness:
  "\<exists>ls sh. runs sh_step shutdown_new ls sh \<and> sh_events_sent sh = 1"
proof -
  have "runs sh_step shutdown_new [ShForce] (force_shutdown shutdown_new)"
    by (rule runs_single) (rule sh_step_force)
  then have run: "runs sh_step shutdown_new ([ShForce] @ [ShForce]) (force_shutdown (force_shutdown shutdown_new))"
    by (rule runs_step) (rule sh_step_force)
  have "shutdown_state (force_shutdown (force_shutdown shutdown_new)) = ShutDown" by code_simp
  with run shutdown_event_once [OF run] show ?thesis by auto
qed



end
