(* ===== verification/Connection.thy ===== *)
theory Connection
  imports Matching Handler Shutdown
begin

text \<open>
  The connection task, its configuration and its handle: \<^verbatim>\<open>rtsp-2/src/protocol/connection/mod.rs\<close>.
  The connection polls the receiver, the sender and the shutdown handler; what all of their channels
  and timers give during one poll is a record of the environment. Dropping the receiver drops its
  response receiver; what that does is kept in the log. The option around a result is a panic.
\<close>

definition DEFAULT_CONTINUE_WAIT_DURATION :: Duration where "DEFAULT_CONTINUE_WAIT_DURATION = 5"
definition DEFAULT_DECODE_TIMEOUT_DURATION :: Duration where "DEFAULT_DECODE_TIMEOUT_DURATION = 10"
definition DEFAULT_GRACEFUL_SHUTDOWN_TIMEOUT_DURATION :: Duration where
  "DEFAULT_GRACEFUL_SHUTDOWN_TIMEOUT_DURATION = 10"
definition DEFAULT_REQUEST_BUFFER_SIZE :: nat where "DEFAULT_REQUEST_BUFFER_SIZE = 10"

record connection_config =
  cfg_continue_wait_duration :: "Duration option"
  cfg_decode_timeout_duration :: Duration
  cfg_graceful_shutdown_timeout_default_duration :: Duration
  cfg_request_buffer_size :: nat
  cfg_request_max_timeout_default_duration :: "Duration option"
  cfg_request_timeout_default_duration :: "Duration option"

record connection_config_builder =
  cfb_continue_wait_duration :: "Duration option"
  cfb_decode_timeout_duration :: Duration
  cfb_graceful_shutdown_timeout_default_duration :: Duration
  cfb_request_buffer_size :: nat
  cfb_request_max_timeout_default_duration :: "Duration option"
  cfb_request_timeout_default_duration :: "Duration option"

definition config_builder_new :: connection_config_builder where
  "config_builder_new =
     \<lparr>cfb_continue_wait_duration = Some DEFAULT_CONTINUE_WAIT_DURATION,
      cfb_decode_timeout_duration = DEFAULT_DECODE_TIMEOUT_DURATION,
      cfb_graceful_shutdown_timeout_default_duration = DEFAULT_GRACEFUL_SHUTDOWN_TIMEOUT_DURATION,
      cfb_request_buffer_size = DEFAULT_REQUEST_BUFFER_SIZE,
      cfb_request_max_timeout_default_duration = Some REQUEST_MAX_TIMEOUT_DEFAULT_DURATION,
      cfb_request_timeout_default_duration = Some REQUEST_TIMEOUT_DEFAULT_DURATION\<rparr>"

definition config_build :: "connection_config_builder \<Rightarrow> connection_config" where
  "config_build b =
     \<lparr>cfg_continue_wait_duration = cfb_continue_wait_duration b,
      cfg_decode_timeout_duration = cfb_decode_timeout_duration b,
      cfg_graceful_shutdown_timeout_default_duration = cfb_graceful_shutdown_timeout_default_duration b,
      cfg_request_buffer_size = cfb_request_buffer_size b,
      cfg_request_max_timeout_default_duration = cfb_request_max_timeout_default_duration b,
      cfg_request_timeout_default_duration = cfb_request_timeout_default_duration b\<rparr>"

definition config_default :: connection_config where
  "config_default = config_build config_builder_new"

definition set_continue_wait_duration :: "Duration option \<Rightarrow> connection_config_builder \<Rightarrow> connection_config_builder" where
  "set_continue_wait_duration duration b = b\<lparr>cfb_continue_wait_duration := duration\<rparr>"

definition set_decode_timeout_duration :: "Duration \<Rightarrow> connection_config_builder \<Rightarrow> connection_config_builder" where
  "set_decode_timeout_duration duration b = b\<lparr>cfb_decode_timeout_duration := duration\<rparr>"

definition set_graceful_shutdown_timeout_default_duration ::
  "Duration \<Rightarrow> connection_config_builder \<Rightarrow> connection_config_builder" where
  "set_graceful_shutdown_timeout_default_duration duration b =
     b\<lparr>cfb_graceful_shutdown_timeout_default_duration := duration\<rparr>"

definition set_request_buffer_size :: "nat \<Rightarrow> connection_config_builder \<Rightarrow> connection_config_builder" where
  "set_request_buffer_size size_limit b = b\<lparr>cfb_request_buffer_size := size_limit\<rparr>"

definition set_request_max_timeout_default_duration ::
  "Duration option \<Rightarrow> connection_config_builder \<Rightarrow> connection_config_builder" where
  "set_request_max_timeout_default_duration duration b = b\<lparr>cfb_request_max_timeout_default_duration := duration\<rparr>"

definition set_request_timeout_default_duration ::
  "Duration option \<Rightarrow> connection_config_builder \<Rightarrow> connection_config_builder" where
  "set_request_timeout_default_duration duration b = b\<lparr>cfb_request_timeout_default_duration := duration\<rparr>"

subsection \<open>The connection\<close>

record ('m, 'u, 'c, 'ch, 'h, 't) connection =
  cn_allow_requests :: bool
  cn_receiver :: "('m, 'u, 'c, 'ch, 'h) receiver option"
  cn_rx_handler_shutdown_event :: bool
  cn_sender :: "('m, 'u, 't) sender option"
  cn_shutdown :: shutdown_handler
  cn_dropped_uses :: "('m, 'ch) channel_use list"

record ('m, 'u, 'ch) connection_env =
  ce_receiver :: "('m, 'u, 'ch) receiver_env"
  ce_outgoing :: "('m, 'u) outgoing"
  ce_outgoing_end :: DrainEnd
  ce_initiate_shutdown :: "ShutdownType OneshotPoll"
  ce_shutdown_timer :: TimerPoll
  ce_handler_shutdown :: bool
  ce_late_updates :: "'ch PendingRequestUpdate list"
  ce_late_end :: DrainEnd

text \<open>
  The parts that \<open>with_config\<close> puts together: the channel to the request handler, the handle to the
  sender and the transport sink are given; there is a request handler exactly when there is a service.
\<close>

definition connection_with_config ::
  "'c \<Rightarrow> 'h \<Rightarrow> 't \<Rightarrow> 's option \<Rightarrow> connection_config
     \<Rightarrow> ('m, 'u, 'c, 'ch, 'h, 't) connection \<times> ('s, 'f, 'h) request_handler option"
where
  "connection_with_config tx_incoming_request sender_handle sink service config =
     (let handler = (case service of
            Some service \<Rightarrow> Some (request_handler_new service sender_handle (cfg_continue_wait_duration config))
          | None \<Rightarrow> None)
      in (\<lparr>cn_allow_requests = True,
           cn_receiver = Some (receiver_new tx_incoming_request sender_handle (cfg_request_buffer_size config)),
           cn_rx_handler_shutdown_event = (handler \<noteq> None), cn_sender = Some (sender_new sink),
           cn_shutdown = shutdown_new, cn_dropped_uses = []\<rparr>, handler))"

definition connection_new ::
  "'c \<Rightarrow> 'h \<Rightarrow> 't \<Rightarrow> 's option \<Rightarrow> ('m, 'u, 'c, 'ch, 'h, 't) connection \<times> ('s, 'f, 'h) request_handler option" where
  "connection_new tx_incoming_request sender_handle sink service =
     connection_with_config tx_incoming_request sender_handle sink service config_default"

definition is_connection_shutdown :: "('m, 'u, 'c, 'ch, 'h, 't) connection \<Rightarrow> bool" where
  "is_connection_shutdown cn \<longleftrightarrow> cn_receiver cn = None \<and> cn_sender cn = None"

definition cn_shutdown_receiver ::
  "('m, 'u, 'ch) connection_env \<Rightarrow> ('m, 'u, 'c, 'ch, 'h, 't) connection \<Rightarrow> ('m, 'u, 'c, 'ch, 'h, 't) connection" where
  "cn_shutdown_receiver env cn =
     (case cn_receiver cn of
        None \<Rightarrow> cn
      | Some rc \<Rightarrow>
          cn\<lparr>cn_receiver := None,
             cn_dropped_uses := rc_uses (drop_response_receiver (ce_late_updates env) (ce_late_end env) rc)\<rparr>)"

definition cn_shutdown_sender :: "('m, 'u, 'c, 'ch, 'h, 't) connection \<Rightarrow> ('m, 'u, 'c, 'ch, 'h, 't) connection" where
  "cn_shutdown_sender cn = cn\<lparr>cn_sender := None\<rparr>"

definition cn_shutdown_request_receiver ::
  "('m, 'u, 'ch) connection_env \<Rightarrow> ('m, 'u, 'c, 'ch, 'h, 't) connection \<Rightarrow> ('m, 'u, 'c, 'ch, 'h, 't) connection" where
  "cn_shutdown_request_receiver env cn =
     (case cn_receiver cn of
        None \<Rightarrow> cn
      | Some rc \<Rightarrow>
          (case shutdown_request_receiver rc of
             (rc, down) \<Rightarrow>
               if down then cn_shutdown_receiver env (cn\<lparr>cn_receiver := Some rc\<rparr>) else cn\<lparr>cn_receiver := Some rc\<rparr>))"

definition cn_poll_receiver ::
  "'m header_map_ops \<Rightarrow> ('h, ('m, 'u) Message) unbounded_ops \<Rightarrow> ('c, ('m, 'u) incoming, unit) sink_ops
     \<Rightarrow> ('m, 'u, 'ch) connection_env \<Rightarrow> ('m, 'u, 'c, 'ch, 'h, 't) connection
     \<Rightarrow> ('m, 'u, 'c, 'ch, 'h, 't) connection option"
where
  "cn_poll_receiver M H S env cn =
     (case cn_receiver cn of
        None \<Rightarrow> Some cn
      | Some rc \<Rightarrow>
          (case receiver_poll M H S (ce_receiver env) rc of
             None \<Rightarrow> None
           | Some (rc, _, r) \<Rightarrow>
               (let cn = cn\<lparr>cn_receiver := Some rc\<rparr>
                in Some (case r of Ready _ \<Rightarrow> cn_shutdown_receiver env cn | NotReady \<Rightarrow> cn))))"

definition cn_poll_sender ::
  "'m header_map_ops \<Rightarrow> ('t, ('m, 'u) Message, 'e) sink_ops \<Rightarrow> ('m, 'u, 'ch) connection_env
     \<Rightarrow> ('m, 'u, 'c, 'ch, 'h, 't) connection \<Rightarrow> ('m, 'u, 'c, 'ch, 'h, 't) connection"
where
  "cn_poll_sender M T env cn =
     (case cn_sender cn of
        None \<Rightarrow> cn
      | Some s \<Rightarrow>
          (case sender_poll M T (ce_outgoing env) (ce_outgoing_end env) s of
             (s, _, r) \<Rightarrow>
               (let cn = cn\<lparr>cn_sender := Some s\<rparr>
                in case r of
                     Ok NotReady \<Rightarrow> cn
                   | _ \<Rightarrow> cn_shutdown_sender (cn_shutdown_request_receiver env cn))))"

definition cn_poll_request_handler_shutdown ::
  "('m, 'u, 'ch) connection_env \<Rightarrow> ('m, 'u, 'c, 'ch, 'h, 't) connection \<Rightarrow> ('m, 'u, 'c, 'ch, 'h, 't) connection" where
  "cn_poll_request_handler_shutdown env cn =
     (if cn_receiver cn = None \<and> cn_rx_handler_shutdown_event cn \<and> ce_handler_shutdown env
      then cn_shutdown_sender cn else cn)"

text \<open>The match of \<open>poll\<close> on the shutdown state, after the components have been polled.\<close>

definition cn_after_shutdown_poll ::
  "('m, 'u, 'ch) connection_env \<Rightarrow> ('m, 'u, 'c, 'ch, 'h, 't) connection \<Rightarrow> ('m, 'u, 'c, 'ch, 'h, 't) connection" where
  "cn_after_shutdown_poll env cn =
     (case shutdown_state (cn_shutdown cn) of
        Running \<Rightarrow>
          (let allow_responses = (case cn_receiver cn of
                 Some receiver \<Rightarrow> \<not> is_response_receiver_shutdown receiver | None \<Rightarrow> False);
               cn = (if \<not> allow_responses \<or> cn_sender cn = None then cn\<lparr>cn_allow_requests := False\<rparr> else cn)
           in cn_poll_request_handler_shutdown env cn)
      | ShuttingDown \<Rightarrow> (cn_shutdown_request_receiver env cn)\<lparr>cn_allow_requests := False\<rparr>
      | ShutDown \<Rightarrow> (cn_shutdown_sender (cn_shutdown_receiver env cn))\<lparr>cn_allow_requests := False\<rparr>)"

definition connection_poll ::
  "'m header_map_ops \<Rightarrow> ('h, ('m, 'u) Message) unbounded_ops \<Rightarrow> ('c, ('m, 'u) incoming, unit) sink_ops
     \<Rightarrow> ('t, ('m, 'u) Message, 'e) sink_ops \<Rightarrow> ('m, 'u, 'ch) connection_env
     \<Rightarrow> ('m, 'u, 'c, 'ch, 'h, 't) connection \<Rightarrow> (('m, 'u, 'c, 'ch, 'h, 't) connection \<times> unit Async) option"
where
  "connection_poll M H S T env cn =
     (case cn_poll_receiver M H S env cn of
        None \<Rightarrow> None
      | Some cn \<Rightarrow>
          (let cn = cn_poll_sender M T env cn
           in case shutdown_poll (ce_initiate_shutdown env) (ce_shutdown_timer env) (cn_shutdown cn) of
                None \<Rightarrow> None
              | Some (sh, _) \<Rightarrow>
                  (let cn = cn_after_shutdown_poll env (cn\<lparr>cn_shutdown := sh\<rparr>)
                   in if shutdown_state (cn_shutdown cn) = ShutDown then Some (cn, Ready ())
                      else if is_connection_shutdown cn
                      then Some (cn\<lparr>cn_shutdown := force_shutdown (cn_shutdown cn)\<rparr>, Ready ())
                      else Some (cn, NotReady))))"

text \<open>Dropping a connection drops its shutdown handler, which forces an immediate shutdown.\<close>

definition connection_drop ::
  "('m, 'u, 'ch) connection_env \<Rightarrow> ('m, 'u, 'c, 'ch, 'h, 't) connection \<Rightarrow> ('m, 'u, 'c, 'ch, 'h, 't) connection" where
  "connection_drop env cn =
     (cn_shutdown_sender (cn_shutdown_receiver env cn))\<lparr>cn_shutdown := force_shutdown (cn_shutdown cn)\<rparr>"

subsection \<open>The handle\<close>

text \<open>Initiating a shutdown: the sending half is used up by the first call.\<close>

record shutdown_sender =
  ss_graceful_shutdown_timeout_default_duration :: Duration
  ss_tx_initiate_shutdown :: bool

definition shutdown_sender_new :: "Duration \<Rightarrow> shutdown_sender" where
  "shutdown_sender_new duration =
     \<lparr>ss_graceful_shutdown_timeout_default_duration = duration, ss_tx_initiate_shutdown = True\<rparr>"

definition shutdown_sender_shutdown :: "ShutdownType \<Rightarrow> shutdown_sender \<Rightarrow> shutdown_sender \<times> ShutdownType list" where
  "shutdown_sender_shutdown shutdown_type s =
     (if ss_tx_initiate_shutdown s then (s\<lparr>ss_tx_initiate_shutdown := False\<rparr>, [shutdown_type]) else (s, []))"

definition shutdown_sender_drop :: "shutdown_sender \<Rightarrow> shutdown_sender \<times> ShutdownType list" where
  "shutdown_sender_drop s = shutdown_sender_shutdown (Graceful (ss_graceful_shutdown_timeout_default_duration s)) s"

text \<open>Waiting for both shutdown events; the arguments are whether each has happened.\<close>

record shutdown_receiver =
  sv_rx_connection_shutdown_event :: bool
  sv_rx_handler_shutdown_event :: bool

definition shutdown_receiver_poll :: "bool \<Rightarrow> bool \<Rightarrow> shutdown_receiver \<Rightarrow> shutdown_receiver \<times> unit Async" where
  "shutdown_receiver_poll connection_event handler_event r =
     (let r = (if sv_rx_connection_shutdown_event r \<and> connection_event
               then r\<lparr>sv_rx_connection_shutdown_event := False\<rparr> else r);
          r = (if sv_rx_handler_shutdown_event r \<and> handler_event
               then r\<lparr>sv_rx_handler_shutdown_event := False\<rparr> else r)
      in (r, if \<not> sv_rx_connection_shutdown_event r \<and> \<not> sv_rx_handler_shutdown_event r then Ready () else NotReady))"

text \<open>
  Sending requests. \<open>H\<close> is the handle to the sender, \<open>P\<close> the channel to the response receiver, and
  the name of the new single-use channel is an argument.
\<close>

record ('h, 'p) connection_handle =
  chd_request_max_timeout_default_duration :: "Duration option"
  chd_request_timeout_default_duration :: "Duration option"
  chd_sender_handle :: 'h
  chd_sequence_number :: CSeq
  chd_tx_pending_request :: 'p

definition connection_handle_new :: "'h \<Rightarrow> 'p \<Rightarrow> CSeq \<Rightarrow> connection_config \<Rightarrow> ('h, 'p) connection_handle" where
  "connection_handle_new sender_handle tx_pending_request sequence_number config =
     \<lparr>chd_request_max_timeout_default_duration = cfg_request_max_timeout_default_duration config,
      chd_request_timeout_default_duration = cfg_request_timeout_default_duration config,
      chd_sender_handle = sender_handle, chd_sequence_number = sequence_number,
      chd_tx_pending_request = tx_pending_request\<rparr>"

definition send_request_with_options ::
  "'m header_map_ops \<Rightarrow> ('h, ('m, 'u) Message) unbounded_ops \<Rightarrow> ('p, 'ch PendingRequestUpdate) unbounded_ops
     \<Rightarrow> bool \<Rightarrow> 'ch \<Rightarrow> (bytes, 'm, 'u) Request \<Rightarrow> RequestOptions \<Rightarrow> ('h, 'p) connection_handle
     \<Rightarrow> ('h, 'p) connection_handle \<times> (OperationError + 'ch send_request)"
where
  "send_request_with_options M H P allow_requests channel request options h =
     (if \<not> allow_requests then (h, Err OperationClosed)
      else
        (let sequence_number = chd_sequence_number h;
             request = request\<lparr>req_headers := typed_insert M cseq_header_name cseq_encode sequence_number (req_headers request)\<rparr>
         in case chan_send P (chd_tx_pending_request h) (AddPendingRequest sequence_number channel) of
              (tx, False) \<Rightarrow> (h\<lparr>chd_tx_pending_request := tx\<rparr>, Err OperationClosed)
            | (tx, True) \<Rightarrow>
                (case chan_send H (chd_sender_handle h) (MessageRequest request) of
                   (sender_handle, False) \<Rightarrow>
                     (h\<lparr>chd_sender_handle := sender_handle,
                        chd_tx_pending_request := fst (chan_send P tx (RemovePendingRequest sequence_number))\<rparr>,
                      Err OperationClosed)
                 | (sender_handle, True) \<Rightarrow>
                     (h\<lparr>chd_sender_handle := sender_handle, chd_tx_pending_request := tx,
                        chd_sequence_number := wrapping_increment sequence_number\<rparr>,
                      Ok (send_request_new channel sequence_number
                            (ro_timeout_duration options) (ro_max_timeout_duration options))))))"

definition handle_send_request ::
  "'m header_map_ops \<Rightarrow> ('h, ('m, 'u) Message) unbounded_ops \<Rightarrow> ('p, 'ch PendingRequestUpdate) unbounded_ops
     \<Rightarrow> bool \<Rightarrow> 'ch \<Rightarrow> (bytes, 'm, 'u) Request \<Rightarrow> ('h, 'p) connection_handle
     \<Rightarrow> ('h, 'p) connection_handle \<times> (OperationError + 'ch send_request)"
where
  "handle_send_request M H P allow_requests channel request h =
     send_request_with_options M H P allow_requests channel request
       (options_build (options_set_timeout_duration (chd_request_timeout_default_duration h)
         (options_set_max_timeout_duration (chd_request_max_timeout_default_duration h) options_builder_new))) h"

subsection \<open>Facts\<close>

lemma cn_shutdown_receiver_same [simp]:
  "cn_receiver (cn_shutdown_receiver env cn) = None"
  "cn_sender (cn_shutdown_receiver env cn) = cn_sender cn"
  "cn_shutdown (cn_shutdown_receiver env cn) = cn_shutdown cn"
  "cn_allow_requests (cn_shutdown_receiver env cn) = cn_allow_requests cn"
  by (auto simp: cn_shutdown_receiver_def split: option.split)

lemma cn_shutdown_sender_same [simp]:
  "cn_receiver (cn_shutdown_sender cn) = cn_receiver cn" "cn_sender (cn_shutdown_sender cn) = None"
  "cn_shutdown (cn_shutdown_sender cn) = cn_shutdown cn"
  "cn_allow_requests (cn_shutdown_sender cn) = cn_allow_requests cn"
  "cn_dropped_uses (cn_shutdown_sender cn) = cn_dropped_uses cn"
  by (simp_all add: cn_shutdown_sender_def)

lemma cn_shutdown_request_receiver_same [simp]:
  "cn_sender (cn_shutdown_request_receiver env cn) = cn_sender cn"
  "cn_shutdown (cn_shutdown_request_receiver env cn) = cn_shutdown cn"
  "cn_allow_requests (cn_shutdown_request_receiver env cn) = cn_allow_requests cn"
  "cn_receiver cn = None \<Longrightarrow> cn_receiver (cn_shutdown_request_receiver env cn) = None"
  by (auto simp: cn_shutdown_request_receiver_def split: option.split prod.split)

lemma cn_shutdown_request_receiver_refuses:
  "case cn_receiver (cn_shutdown_request_receiver env cn) of None \<Rightarrow> True | Some rc \<Rightarrow> is_request_receiver_shutdown rc"
  by (auto simp: cn_shutdown_request_receiver_def shutdown_request_receiver_def shutdown_tests Let_def
      split: option.split prod.split)

lemma cn_poll_receiver_same:
  "cn_poll_receiver M H S env cn = Some cn' \<Longrightarrow>
   cn_shutdown cn' = cn_shutdown cn \<and> cn_allow_requests cn' = cn_allow_requests cn \<and> cn_sender cn' = cn_sender cn"
  by (auto simp: cn_poll_receiver_def Let_def split: option.splits prod.splits Async.splits)

lemma cn_poll_sender_same [simp]:
  "cn_shutdown (cn_poll_sender M T env cn) = cn_shutdown cn"
  "cn_allow_requests (cn_poll_sender M T env cn) = cn_allow_requests cn"
  by (auto simp: cn_poll_sender_def Let_def split: option.split prod.split sum.split Async.split)

lemma cn_after_shutdown_poll_state [simp]: "cn_shutdown (cn_after_shutdown_poll env cn) = cn_shutdown cn"
  by (auto simp: cn_after_shutdown_poll_def cn_poll_request_handler_shutdown_def Let_def split: ShutdownState.split)

text \<open>While requests may be sent, they can be sent and answered.\<close>

definition can_request :: "('m, 'u, 'c, 'ch, 'h, 't) connection \<Rightarrow> bool" where
  "can_request cn \<longleftrightarrow> shutdown_state (cn_shutdown cn) = Running \<and> cn_sender cn \<noteq> None
     \<and> (case cn_receiver cn of Some rc \<Rightarrow> rc_response_receiver rc \<noteq> None | None \<Rightarrow> False)"

lemma cn_after_shutdown_poll_allow:
  "cn_allow_requests (cn_after_shutdown_poll env cn) \<Longrightarrow>
   cn_allow_requests cn \<and> can_request (cn_after_shutdown_poll env cn)"
  by (auto simp: cn_after_shutdown_poll_def cn_poll_request_handler_shutdown_def Let_def can_request_def
      is_response_receiver_shutdown_def split: ShutdownState.splits option.splits if_splits)

lemma cn_after_shutdown_poll_down:
  "shutdown_state (cn_shutdown cn) = ShutDown \<Longrightarrow> is_connection_shutdown (cn_after_shutdown_poll env cn)"
  by (simp add: cn_after_shutdown_poll_def is_connection_shutdown_def)

lemma connection_poll_cases:
  assumes "connection_poll M H S T env cn = Some (cn', a)"
  obtains cn1 sh r where "cn_poll_receiver M H S env cn = Some cn1"
    "shutdown_poll (ce_initiate_shutdown env) (ce_shutdown_timer env) (cn_shutdown cn) = Some (sh, r)"
    "cn_allow_requests cn1 = cn_allow_requests cn"
    "let cn2 = cn_after_shutdown_poll env ((cn_poll_sender M T env cn1)\<lparr>cn_shutdown := sh\<rparr>)
     in (a = Ready () \<longleftrightarrow> shutdown_state sh = ShutDown \<or> is_connection_shutdown cn2)
       \<and> cn' = (if a = Ready () \<and> shutdown_state sh \<noteq> ShutDown then cn2\<lparr>cn_shutdown := force_shutdown sh\<rparr> else cn2)"
proof -
  obtain cn1 where one: "cn_poll_receiver M H S env cn = Some cn1"
    using assms by (auto simp: connection_poll_def split: option.splits)
  note same = cn_poll_receiver_same [OF one]
  obtain sh r where two: "shutdown_poll (ce_initiate_shutdown env) (ce_shutdown_timer env) (cn_shutdown cn) = Some (sh, r)"
    using assms one same by (auto simp: connection_poll_def Let_def split: option.splits)
  show ?thesis
    using assms one two same
    by (intro that [OF one two]) (auto simp: connection_poll_def Let_def split: if_splits)
qed

lemma connection_poll_keeps:
  assumes "shutdown_inv (cn_shutdown cn)" "connection_poll M H S T env cn = Some (cn', a)"
  shows "shutdown_inv (cn_shutdown cn')" "a = Ready () \<longleftrightarrow> is_connection_shutdown cn'"
    "a = Ready () \<longleftrightarrow> shutdown_state (cn_shutdown cn') = ShutDown"
    "cn_allow_requests cn' \<Longrightarrow> cn_allow_requests cn \<and> can_request cn'"
proof -
  from assms(2) obtain cn1 sh r where
    sh: "shutdown_poll (ce_initiate_shutdown env) (ce_shutdown_timer env) (cn_shutdown cn) = Some (sh, r)"
    and allow: "cn_allow_requests cn1 = cn_allow_requests cn"
    and cases: "let cn2 = cn_after_shutdown_poll env ((cn_poll_sender M T env cn1)\<lparr>cn_shutdown := sh\<rparr>)
     in (a = Ready () \<longleftrightarrow> shutdown_state sh = ShutDown \<or> is_connection_shutdown cn2)
       \<and> cn' = (if a = Ready () \<and> shutdown_state sh \<noteq> ShutDown then cn2\<lparr>cn_shutdown := force_shutdown sh\<rparr> else cn2)"
    by (rule connection_poll_cases)
  define cn2 where "cn2 = cn_after_shutdown_poll env ((cn_poll_sender M T env cn1)\<lparr>cn_shutdown := sh\<rparr>)"
  have cn2: "cn_shutdown cn2 = sh" "shutdown_state sh = ShutDown \<Longrightarrow> is_connection_shutdown cn2"
    "cn_allow_requests cn2 \<Longrightarrow> cn_allow_requests cn \<and> can_request cn2"
    using allow cn_after_shutdown_poll_down [of "(cn_poll_sender M T env cn1)\<lparr>cn_shutdown := sh\<rparr>" env]
      cn_after_shutdown_poll_allow [of env "(cn_poll_sender M T env cn1)\<lparr>cn_shutdown := sh\<rparr>"]
    by (simp_all add: cn2_def)
  have a: "a = Ready () \<longleftrightarrow> shutdown_state sh = ShutDown \<or> is_connection_shutdown cn2"
    and cn': "cn' = (if a = Ready () \<and> shutdown_state sh \<noteq> ShutDown then cn2\<lparr>cn_shutdown := force_shutdown sh\<rparr> else cn2)"
    using cases by (simp_all add: cn2_def Let_def)
  have inv: "shutdown_inv sh" using shutdown_poll_keeps [OF assms(1) sh] by blast
  have forced: "shutdown_inv (force_shutdown sh)" "shutdown_state (force_shutdown sh) = ShutDown"
    using shutdown_inv_handle [OF inv] shutdown_state_immediate by (simp_all add: force_shutdown_def)
  show "shutdown_inv (cn_shutdown cn')" using inv forced cn2(1) cn' by simp
  have same: "is_connection_shutdown cn' = is_connection_shutdown cn2" using cn' by (simp add: is_connection_shutdown_def)
  show "a = Ready () \<longleftrightarrow> is_connection_shutdown cn'" using a cn2(2) same by blast
  show "a = Ready () \<longleftrightarrow> shutdown_state (cn_shutdown cn') = ShutDown" using a cn' cn2(1) forced(2) by auto
  show "cn_allow_requests cn \<and> can_request cn'" if "cn_allow_requests cn'"
  proof -
    have "cn_allow_requests cn2" using that cn' by (simp split: if_splits)
    with cn2(3) have ok: "cn_allow_requests cn" "can_request cn2" by blast+
    then have "\<not> is_connection_shutdown cn2" by (auto simp: can_request_def is_connection_shutdown_def)
    then have "cn' = cn2" using a cn' by auto
    with ok show ?thesis by simp
  qed
qed

text \<open>The log of the channels of pending requests, across the end of the receiver.\<close>

definition connection_pending :: "('m, 'u, 'c, 'ch, 'h, 't) connection \<Rightarrow> 'ch response_receiver option" where
  "connection_pending cn = (case cn_receiver cn of Some rc \<Rightarrow> rc_response_receiver rc | None \<Rightarrow> None)"

definition connection_uses :: "('m, 'u, 'c, 'ch, 'h, 't) connection \<Rightarrow> ('m, 'ch) channel_use list" where
  "connection_uses cn = (case cn_receiver cn of Some rc \<Rightarrow> rc_uses rc | None \<Rightarrow> cn_dropped_uses cn)"

abbreviation cn_log where "cn_log M cn \<equiv> rr_log M (connection_pending cn) (connection_uses cn)"

lemma cn_log_receiver: "cn_receiver cn = Some rc \<Longrightarrow> cn_log M cn = rc_log M rc"
  by (simp add: connection_pending_def connection_uses_def)

lemma cn_log_cong:
  "cn_receiver cn' = cn_receiver cn \<Longrightarrow> cn_dropped_uses cn' = cn_dropped_uses cn \<Longrightarrow> cn_log M cn' = cn_log M cn"
  by (cases "cn_receiver cn") (simp_all add: connection_pending_def connection_uses_def)

lemma cn_shutdown_receiver_log:
  assumes "cn_log M cn"
  shows "cn_log M (cn_shutdown_receiver env cn)"
proof (cases "cn_receiver cn")
  case (Some rc)
  then have "rc_log M (drop_response_receiver (ce_late_updates env) (ce_late_end env) rc)"
    using assms drop_response_receiver_log [of M rc] by (simp add: cn_log_receiver)
  then show ?thesis
    using Some by (simp add: cn_shutdown_receiver_def connection_pending_def connection_uses_def drop_response_receiver_same)
qed (use assms in \<open>simp add: cn_shutdown_receiver_def\<close>)

lemma cn_shutdown_request_receiver_log:
  assumes "cn_log M cn"
  shows "cn_log M (cn_shutdown_request_receiver env cn)"
proof (cases "cn_receiver cn")
  case (Some rc)
  let ?cn = "cn\<lparr>cn_receiver := Some (fst (shutdown_request_receiver rc))\<rparr>"
  have "cn_log M ?cn"
    using assms Some by (simp add: connection_pending_def connection_uses_def shutdown_request_log)
  then show ?thesis
    using Some cn_shutdown_receiver_log [of M ?cn env]
    by (cases "shutdown_request_receiver rc") (simp add: cn_shutdown_request_receiver_def)
qed (use assms in \<open>simp add: cn_shutdown_request_receiver_def\<close>)

lemma cn_poll_receiver_log:
  assumes "cn_log M cn" "cn_poll_receiver M H S env cn = Some cn'"
  shows "cn_log M cn'"
proof (cases "cn_receiver cn")
  case (Some rc)
  obtain rc' rest r where poll: "receiver_poll M H S (ce_receiver env) rc = Some (rc', rest, r)"
    using assms(2) Some by (auto simp: cn_poll_receiver_def split: option.splits)
  have "rc_log M rc'" using receiver_poll_log [OF poll] assms(1) Some by (simp add: cn_log_receiver)
  then have "cn_log M (cn\<lparr>cn_receiver := Some rc'\<rparr>)" by (simp add: connection_pending_def connection_uses_def)
  moreover from this have "cn_log M (cn_shutdown_receiver env (cn\<lparr>cn_receiver := Some rc'\<rparr>))"
    by (rule cn_shutdown_receiver_log)
  ultimately show ?thesis
    using assms(2) Some poll by (cases r) (auto simp: cn_poll_receiver_def)
qed (use assms in \<open>simp add: cn_poll_receiver_def\<close>)

lemma cn_shutdown_sender_log: "cn_log M (cn_shutdown_sender cn) = cn_log M cn"
  by (rule cn_log_cong) simp_all

lemma cn_poll_sender_log:
  assumes "cn_log M cn"
  shows "cn_log M (cn_poll_sender M' T env cn)"
proof (cases "cn_sender cn")
  case (Some s)
  have "cn_log M (cn\<lparr>cn_sender := Some s'\<rparr>)" for s'
    using assms cn_log_cong [of "cn\<lparr>cn_sender := Some s'\<rparr>" cn M] by simp
  moreover from this have "cn_log M (cn_shutdown_sender (cn_shutdown_request_receiver env (cn\<lparr>cn_sender := Some s'\<rparr>)))" for s'
    by (simp add: cn_shutdown_sender_log cn_shutdown_request_receiver_log)
  ultimately show ?thesis
    using Some by (simp add: cn_poll_sender_def Let_def split: prod.split sum.split Async.split)
qed (use assms in \<open>simp add: cn_poll_sender_def\<close>)

lemma cn_after_shutdown_poll_log:
  assumes "cn_log M cn"
  shows "cn_log M (cn_after_shutdown_poll env cn)"
proof -
  have flag: "cn_log M (x\<lparr>cn_allow_requests := b\<rparr>) = cn_log M x" for x b
    by (rule cn_log_cong) simp_all
  show ?thesis
    using assms
    by (simp add: cn_after_shutdown_poll_def cn_poll_request_handler_shutdown_def Let_def flag
        cn_shutdown_sender_log cn_shutdown_receiver_log cn_shutdown_request_receiver_log split: ShutdownState.split)
qed

lemma connection_poll_log:
  assumes "cn_log M cn" "connection_poll M H S T env cn = Some (cn', a)"
  shows "cn_log M cn'"
proof -
  from assms(2) obtain cn1 sh where
    one: "cn_poll_receiver M H S env cn = Some cn1"
    and cn': "let cn2 = cn_after_shutdown_poll env ((cn_poll_sender M T env cn1)\<lparr>cn_shutdown := sh\<rparr>)
     in cn' = (if a = Ready () \<and> shutdown_state sh \<noteq> ShutDown then cn2\<lparr>cn_shutdown := force_shutdown sh\<rparr> else cn2)"
    by (rule connection_poll_cases) (auto simp: Let_def)
  have flag: "cn_log M (x\<lparr>cn_shutdown := b\<rparr>) = cn_log M x" for x b
    by (rule cn_log_cong) simp_all
  have "cn_log M ((cn_poll_sender M T env cn1)\<lparr>cn_shutdown := sh\<rparr>)"
    using cn_poll_sender_log [OF cn_poll_receiver_log [OF assms(1) one]] by (simp add: flag)
  from cn_after_shutdown_poll_log [OF this, of env] show ?thesis using cn' by (simp add: Let_def flag)
qed

subsection \<open>Runs\<close>

datatype ('m, 'u, 'ch) cn_label = CnPoll "('m, 'u, 'ch) connection_env" "unit Async"

inductive cn_step ::
  "'m header_map_ops \<Rightarrow> ('h, ('m, 'u) Message) unbounded_ops \<Rightarrow> ('c, ('m, 'u) incoming, unit) sink_ops
     \<Rightarrow> ('t, ('m, 'u) Message, 'e) sink_ops \<Rightarrow> ('m, 'u, 'c, 'ch, 'h, 't) connection
     \<Rightarrow> ('m, 'u, 'ch) cn_label \<Rightarrow> ('m, 'u, 'c, 'ch, 'h, 't) connection \<Rightarrow> bool"
  for M H S T
where
  cn_step_poll: "connection_poll M H S T env cn = Some (cn', a) \<Longrightarrow> cn_step M H S T cn (CnPoll env a) cn'"

inductive_cases cn_step_cases: "cn_step M H S T cn l cn'"

abbreviation connection_start where
  "connection_start tx sender_handle sink handler_event config \<equiv>
     \<lparr>cn_allow_requests = True,
      cn_receiver = Some (receiver_new tx sender_handle (cfg_request_buffer_size config)),
      cn_rx_handler_shutdown_event = handler_event, cn_sender = Some (sender_new sink),
      cn_shutdown = shutdown_new, cn_dropped_uses = []\<rparr>"

lemma connection_with_config_start:
  "fst (connection_with_config tx sender_handle sink service config) =
     connection_start tx sender_handle sink (service \<noteq> None) config"
  by (simp add: connection_with_config_def split: option.split)

interpretation cn: step_invariant "cn_step M H S T" "fst (connection_with_config tx sender_handle sink service config)"
  "\<lambda>_ cn. shutdown_inv (cn_shutdown cn) \<and> cn_log M cn \<and> (cn_allow_requests cn \<longrightarrow> can_request cn)"
  for M H S T tx sender_handle sink service config
proof (unfold_locales, goal_cases)
  case 1
  show ?case
    using shutdown_inv_new rr_log_new
    by (simp add: connection_with_config_start connection_pending_def connection_uses_def can_request_def receiver_new_def
        sender_new_def) (simp add: shutdown_new_def shutdown_state_def)
next
  case (2 ls cn l cn')
  from 2(2) obtain env a where poll: "connection_poll M H S T env cn = Some (cn', a)" by (rule cn_step_cases)
  show ?case
    using 2(1) connection_poll_keeps [OF _ poll] connection_poll_log [OF _ poll] by blast
qed

subsection \<open>Properties\<close>

text \<open>A connection over lists, for the examples.\<close>

type_synonym demo_connection =
  "(headers, unit, (headers, unit) incoming list, nat, (headers, unit) Message list, (headers, unit) Message list) connection"

definition demo_transport_unit :: "((headers, unit) Message list, (headers, unit) Message, unit) sink_ops" where
  "demo_transport_unit = list_sink 5"

text \<open>A transport that fails as soon as it is flushed.\<close>

definition broken_transport :: "((headers, unit) Message list, (headers, unit) Message, unit) sink_ops" where
  "broken_transport = demo_transport_unit\<lparr>sink_poll_complete := \<lambda>l. (l, Err ())\<rparr>"

definition demo_env :: "(headers, unit, nat) receiver_env \<Rightarrow> (headers, unit, nat) connection_env" where
  "demo_env env = \<lparr>ce_receiver = env, ce_outgoing = [], ce_outgoing_end = DrainPending,
     ce_initiate_shutdown = OneshotPending, ce_shutdown_timer = TimerPending, ce_handler_shutdown = False,
     ce_late_updates = [], ce_late_end = DrainPending\<rparr>"

definition idle_env :: "(headers, unit, nat) receiver_env" where
  "idle_env = quiet_env\<lparr>re_stream := []\<rparr>"

definition demo_connection :: demo_connection where
  "demo_connection = connection_start [] [] [] True config_default"

lemma demo_connection_start:
  "demo_connection = fst (connection_with_config [] [] [] (Some ()) config_default ::
     demo_connection \<times> (unit, unit, (headers, unit) Message list) request_handler option)"
  by (simp add: demo_connection_def connection_with_config_start)

lemmas demo_poll_simps = connection_poll_def cn_poll_receiver_def cn_poll_sender_def cn_after_shutdown_poll_def
  cn_poll_request_handler_shutdown_def demo_connection_def demo_env_def idle_env_def quiet_env_def receiver_poll_def
  poll_receiving_def poll_response_receiver_def poll_stream_def poll_codec_events_def poll_decoding_timer_def
  poll_forwarding_def receiver_new_def response_receiver_new_def receiver_is_full_def fwd_is_full_def fwd_new_def
  fwd_poll_def sender_poll_def sender_new_def shutdown_tests config_default_def config_build_def config_builder_new_def
  DEFAULT_REQUEST_BUFFER_SIZE_def shutdown_poll_running shutdown_state_def shutdown_new_def is_connection_shutdown_def

lemma demo_connection_poll:
  "connection_poll list_headers demo_sender demo_channel demo_transport_unit (demo_env idle_env) demo_connection =
     Some (demo_connection, NotReady)"
  by (simp add: demo_poll_simps demo_transport_unit_def list_sink_def)

text \<open>
  C12. The connection finishes exactly when it should, in every run: a poll is \<open>Ready\<close> exactly when the
  receiver and the sender are both gone, exactly when the shutdown handler is shut down, and exactly
  then its shutdown event has been sent, once. Requests may be sent only while the connection is
  running, has a sender and can receive responses; once forbidden they stay forbidden.
\<close>

theorem connection_finishes:
  assumes "runs (cn_step M H S T) (fst (connection_with_config tx sender_handle sink service config)) ls cn"
    and "connection_poll M H S T env cn = Some (cn', a)"
  shows "(a = Ready () \<longleftrightarrow> is_connection_shutdown cn')
    \<and> (a = Ready () \<longleftrightarrow> shutdown_state (cn_shutdown cn') = ShutDown)
    \<and> sh_events_sent (cn_shutdown cn') = (if a = Ready () then 1 else 0)
    \<and> (cn_allow_requests cn' \<longrightarrow> cn_allow_requests cn \<and> can_request cn')"
proof -
  have "shutdown_inv (cn_shutdown cn)" using cn.inv_runs [OF assms(1)] by blast
  from connection_poll_keeps [OF this assms(2)] show ?thesis
    unfolding shutdown_inv_def by (metis (full_types))
qed

lemma connection_finishes_witness:
  "connection_poll list_headers demo_sender demo_channel demo_transport_unit (demo_env idle_env) demo_connection =
     Some (demo_connection, NotReady) \<and> \<not> is_connection_shutdown demo_connection \<and> can_request demo_connection"
proof -
  have run: "runs (cn_step list_headers demo_sender demo_channel demo_transport_unit)
      (fst (connection_with_config [] [] [] (Some ()) config_default ::
        demo_connection \<times> (unit, unit, (headers, unit) Message list) request_handler option)) [] demo_connection"
    by (simp add: demo_connection_start)
  have "cn_allow_requests demo_connection" by (simp add: demo_connection_def)
  with connection_finishes [OF run demo_connection_poll] demo_connection_poll show ?thesis by auto
qed



text \<open>The poll in which the shutdown handler reaches its last state is the last one.\<close>

lemma connection_poll_shutdown:
  assumes "cn_poll_receiver M H S env cn \<noteq> None"
    and "shutdown_poll (ce_initiate_shutdown env) (ce_shutdown_timer env) (cn_shutdown cn) = Some (sh, r)"
    and "shutdown_state sh = ShutDown"
  shows "\<exists>cn'. connection_poll M H S T env cn = Some (cn', Ready ())
    \<and> is_connection_shutdown cn' \<and> \<not> cn_allow_requests cn' \<and> cn_shutdown cn' = sh"
proof -
  obtain cn1 where one: "cn_poll_receiver M H S env cn = Some cn1" using assms(1) by blast
  show ?thesis
    using one cn_poll_receiver_same [OF one] assms(2,3)
    by (simp add: connection_poll_def Let_def cn_after_shutdown_poll_def is_connection_shutdown_def)
qed

text \<open>What starts the end of a connection: for each state, what it waits for.\<close>

definition shutdown_due :: "shutdown_handler \<Rightarrow> ShutdownType OneshotPoll \<Rightarrow> TimerPoll \<Rightarrow> bool" where
  "shutdown_due sh answer timer_answer \<longleftrightarrow>
     (case shutdown_state sh of
        Running \<Rightarrow> answer = OneshotCanceled \<or> answer = OneshotMessage Immediate
      | ShuttingDown \<Rightarrow> timer_answer = TimerElapsed \<or> timer_answer = TimerAtCapacity
      | ShutDown \<Rightarrow> True)"

lemma shutdown_due_poll:
  "shutdown_due sh answer timer_answer \<Longrightarrow>
    \<exists>sh'. shutdown_poll answer timer_answer sh = Some (sh', Ready ()) \<and> shutdown_state sh' = ShutDown"
  using shutdown_state_immediate [of sh]
  by (auto simp: shutdown_due_def shutdown_poll_running shutdown_poll_shutting shutdown_poll_shut split: ShutdownState.splits)

definition graceful_begins :: "shutdown_handler \<Rightarrow> ShutdownType OneshotPoll \<Rightarrow> TimerPoll \<Rightarrow> bool" where
  "graceful_begins sh answer timer_answer \<longleftrightarrow>
     shutdown_state sh = Running \<and> (\<exists>d. answer = OneshotMessage (Graceful d)) \<and> timer_answer = TimerPending"

lemma graceful_poll:
  assumes "graceful_begins sh answer timer_answer"
  shows "\<exists>sh'. shutdown_poll answer timer_answer sh = Some (sh', NotReady) \<and> shutdown_state sh' = ShuttingDown"
proof -
  have "shutdown_state (handle_shutdown (Graceful d) sh) = ShuttingDown" for d by (simp add: shutdown_unfold)
  with assms show ?thesis by (auto simp: graceful_begins_def shutdown_poll_running shutdown_poll_shutting)
qed



text \<open>
  C25. A failing transport can make the connection panic. When sending fails, the connection drops the
  sender but keeps the receiver for the responses it still waits for, together with its handle to the
  sender; if an undecodable request then arrives, answering it fails and the next poll panics, where
  the connection should have shut down its receiver. (The channel to the dropped sender refuses every
  message.)
\<close>

theorem connection_panics_after_sender_failure:
  "case connection_poll list_headers demo_sender demo_channel broken_transport (demo_env idle_env) demo_connection of
     Some (cn, NotReady) \<Rightarrow> cn_sender cn = None
       \<and> connection_poll list_headers (demo_sender\<lparr>chan_send := \<lambda>l x. (l, False)\<rparr>) demo_channel broken_transport
           (demo_env failing_env) cn = None
   | _ \<Rightarrow> False"
proof -
  let ?rc = "(receiver_new [] [] 10)\<lparr>rc_requests_allowed := False, rc_forwarding_receiver := None\<rparr>"
  let ?cn = "demo_connection\<lparr>cn_receiver := Some ?rc, cn_sender := None, cn_allow_requests := False\<rparr>"
  have first: "connection_poll list_headers demo_sender demo_channel broken_transport (demo_env idle_env) demo_connection =
      Some (?cn, NotReady)"
    by (simp add: demo_poll_simps broken_transport_def demo_transport_unit_def list_sink_def cn_shutdown_sender_def
        cn_shutdown_request_receiver_def shutdown_request_receiver_def fwd_has_requests_ready_def)
  have "receiver_poll list_headers (demo_sender\<lparr>chan_send := \<lambda>l x. (l, False)\<rparr>) demo_channel failing_env ?rc = None"
    using failing_env_simps
    by (intro receiver_panics_without_sender [of _ _ list_headers])
       (simp_all add: receiver_new_def receiver_is_full_def)
  then have "connection_poll list_headers (demo_sender\<lparr>chan_send := \<lambda>l x. (l, False)\<rparr>) demo_channel broken_transport
      (demo_env failing_env) ?cn = None"
    by (simp add: connection_poll_def cn_poll_receiver_def demo_env_def)
  then show ?thesis unfolding first by simp
qed

subsection \<open>Numbering requests\<close>

datatype ('m, 'u, 'ch) hs_label = HsSend "(bytes, 'm, 'u) Request" "OperationError + 'ch send_request"

inductive hs_step ::
  "'m header_map_ops \<Rightarrow> ('h, ('m, 'u) Message) unbounded_ops \<Rightarrow> ('p, 'ch PendingRequestUpdate) unbounded_ops
     \<Rightarrow> ('h, 'p) connection_handle \<Rightarrow> ('m, 'u, 'ch) hs_label \<Rightarrow> ('h, 'p) connection_handle \<Rightarrow> bool"
  for M H P
where
  hs_step_send:
    "send_request_with_options M H P allow_requests channel request options h = (h', r) \<Longrightarrow>
     hs_step M H P h (HsSend request r) h'"

inductive_cases hs_step_cases: "hs_step M H P h l h'"

fun label_sent :: "('m, 'u, 'ch) hs_label \<Rightarrow> ((bytes, 'm, 'u) Request \<times> 'ch send_request) list" where
  "label_sent (HsSend request (Ok sr)) = [(request, sr)]"
| "label_sent (HsSend request (Err _)) = []"

abbreviation all_sent where "all_sent ls \<equiv> concat (map label_sent ls)"

definition number_request :: "'m header_map_ops \<Rightarrow> CSeq \<Rightarrow> (bytes, 'm, 'u) Request \<Rightarrow> (bytes, 'm, 'u) Request" where
  "number_request M cseq request =
     request\<lparr>req_headers := typed_insert M cseq_header_name cseq_encode cseq (req_headers request)\<rparr>"

definition hs_inv ::
  "'m header_map_ops \<Rightarrow> ('h, ('m, 'u) Message) unbounded_ops \<Rightarrow> ('p, 'ch PendingRequestUpdate) unbounded_ops
     \<Rightarrow> ('h, 'p) connection_handle \<Rightarrow> ('m, 'u, 'ch) hs_label list \<Rightarrow> ('h, 'p) connection_handle \<Rightarrow> bool"
where
  "hs_inv M H P h0 ls h \<longleftrightarrow>
     map (sr_sequence_number \<circ> snd) (all_sent ls) = cseqs_from (chd_sequence_number h0) (length (all_sent ls))
     \<and> chd_sequence_number h = (wrapping_increment ^^ length (all_sent ls)) (chd_sequence_number h0)
     \<and> chan_sent H (chd_sender_handle h) = chan_sent H (chd_sender_handle h0)
         @ map (\<lambda>(request, sr). MessageRequest (number_request M (sr_sequence_number sr) request)) (all_sent ls)
     \<and> list_all (\<lambda>p. AddPendingRequest (sr_sequence_number (snd p)) (sr_rx_response (snd p))
           \<in> set (chan_sent P (chd_tx_pending_request h))) (all_sent ls)"

lemma send_request_effect:
  assumes "unbounded_laws H" "unbounded_laws P"
    and "send_request_with_options M H P allow channel request options h = (h', r)"
  obtains (closed) "r = Err OperationClosed" "chd_sequence_number h' = chd_sequence_number h"
      "chan_sent H (chd_sender_handle h') = chan_sent H (chd_sender_handle h)"
      "set (chan_sent P (chd_tx_pending_request h)) \<subseteq> set (chan_sent P (chd_tx_pending_request h'))"
  | (sent) sr where "r = Ok sr" "sr_sequence_number sr = chd_sequence_number h"
      "chd_sequence_number h' = wrapping_increment (chd_sequence_number h)"
      "chan_sent H (chd_sender_handle h') = chan_sent H (chd_sender_handle h)
        @ [MessageRequest (number_request M (chd_sequence_number h) request)]"
      "insert (AddPendingRequest (sr_sequence_number sr) (sr_rx_response sr)) (set (chan_sent P (chd_tx_pending_request h)))
        \<subseteq> set (chan_sent P (chd_tx_pending_request h'))"
proof -
  obtain tx b where add: "chan_send P (chd_tx_pending_request h) (AddPendingRequest (chd_sequence_number h) channel) = (tx, b)"
    by fastforce
  obtain c b' where out: "chan_send H (chd_sender_handle h)
      (MessageRequest (number_request M (chd_sequence_number h) request)) = (c, b')"
    by fastforce
  obtain tx' b'' where rem: "chan_send P tx (RemovePendingRequest (chd_sequence_number h)) = (tx', b'')" by fastforce
  note laws = unbounded_lawsD [OF assms(2) add] unbounded_lawsD [OF assms(1) out] unbounded_lawsD [OF assms(2) rem]
  note h' = assms(3) [unfolded send_request_with_options_def number_request_def [symmetric] Let_def]
  show ?thesis
  proof (cases "allow \<and> b \<and> b'")
    case True
    then show ?thesis
      using h' add out laws by (intro sent) (auto simp: send_request_new_def)
  next
    case False
    then show ?thesis
      using h' add out rem laws by (intro closed) (auto split: if_splits bool.splits)
  qed
qed

interpretation hs: step_invariant "hs_step M H P" h0
  "\<lambda>ls h. unbounded_laws H \<and> unbounded_laws P \<longrightarrow> hs_inv M H P h0 ls h" for M H P h0
proof (unfold_locales, goal_cases)
  case (2 ls h l h')
  show ?case
  proof
    assume laws: "unbounded_laws H \<and> unbounded_laws P"
    note inv = 2(1)
    from 2(2) obtain allow channel request options r where l: "l = HsSend request r"
      and send: "send_request_with_options M H P allow channel request options h = (h', r)"
      by (rule hs_step_cases)
    show "hs_inv M H P h0 (ls @ [l]) h'"
    proof (cases rule: send_request_effect [OF conjunct1 [OF laws] conjunct2 [OF laws] send])
      case 1
      then show ?thesis using inv laws l by (auto simp: hs_inv_def list_all_iff dest!: subsetD)
    next
      case (2 sr)
      then show ?thesis using inv laws l by (auto simp: hs_inv_def list_all_iff dest!: subsetD)
    qed
  qed
qed (simp add: hs_inv_def)

text \<open>
  C24. A handle numbers its requests consecutively. In every run of a handle, the messages it handed
  to the sender are the requests whose sending succeeded, in order, numbered one after the other from
  the initial number; each of them had been announced to the response receiver under its number and
  with the channel on which its future waits. A request that could not be sent uses up no number.
\<close>

theorem handle_numbers_requests:
  assumes "unbounded_laws H" "unbounded_laws P" "runs (hs_step M H P) h0 ls h"
  shows "map (sr_sequence_number \<circ> snd) (all_sent ls) = cseqs_from (chd_sequence_number h0) (length (all_sent ls))
    \<and> chan_sent H (chd_sender_handle h) = chan_sent H (chd_sender_handle h0)
         @ map (\<lambda>(request, sr). MessageRequest (number_request M (sr_sequence_number sr) request)) (all_sent ls)
    \<and> list_all (\<lambda>p. AddPendingRequest (sr_sequence_number (snd p)) (sr_rx_response (snd p))
           \<in> set (chan_sent P (chd_tx_pending_request h))) (all_sent ls)
    \<and> chd_sequence_number h = (wrapping_increment ^^ length (all_sent ls)) (chd_sequence_number h0)"
  using hs.inv_runs [OF assms(3)] assms(1,2) unfolding hs_inv_def by blast

definition list_updates :: "(nat PendingRequestUpdate list, nat PendingRequestUpdate) unbounded_ops" where
  "list_updates = \<lparr>chan_send = \<lambda>l x. (l @ [x], True), chan_sent = \<lambda>l. l\<rparr>"

lemma list_updates_laws: "unbounded_laws list_updates"
  by (simp add: list_updates_def unbounded_laws_def)

lemma handle_numbers_requests_witness:
  "\<exists>ls h. runs (hs_step list_headers demo_sender list_updates)
      (connection_handle_new [] [] (CSeq 999999999) config_default) ls h
    \<and> map (sr_sequence_number \<circ> snd) (all_sent ls) = [CSeq 999999999, CSeq 0]"
proof -
  let ?start = "connection_handle_new [] [] (CSeq 999999999) config_default"
  define r1 where "r1 = handle_send_request list_headers demo_sender list_updates True (7 :: nat) demo_request ?start"
  define r2 where "r2 = handle_send_request list_headers demo_sender list_updates True (8 :: nat) demo_request (fst r1)"
  have wrap: "wrapping_increment (CSeq 999999999) = CSeq 0" by code_simp
  have ok: "\<exists>sr. snd r1 = Ok sr" "\<exists>sr. snd r2 = Ok sr"
    by (simp_all add: r1_def r2_def handle_send_request_def send_request_with_options_def connection_handle_new_def
        demo_sender_def list_updates_def Let_def)
  have "hs_step list_headers demo_sender list_updates ?start (HsSend demo_request (snd r1)) (fst r1)"
    "hs_step list_headers demo_sender list_updates (fst r1) (HsSend demo_request (snd r2)) (fst r2)"
    unfolding r1_def r2_def handle_send_request_def by (rule hs_step_send; simp)+
  then have run: "runs (hs_step list_headers demo_sender list_updates) ?start
      [HsSend demo_request (snd r1), HsSend demo_request (snd r2)] (fst r2)"
    using runs_Cons [of "hs_step list_headers demo_sender list_updates"] runs_single [of "hs_step list_headers demo_sender list_updates"]
    by blast
  have two: "length (all_sent [HsSend demo_request (snd r1), HsSend demo_request (snd r2)]) = 2" using ok by auto
  have "map (sr_sequence_number \<circ> snd) (all_sent [HsSend demo_request (snd r1), HsSend demo_request (snd r2)])
      = cseqs_from (CSeq 999999999) 2"
    using handle_numbers_requests [OF demo_sender_laws(2) list_updates_laws run] two
    unfolding connection_handle_new_def connection_handle.simps by metis
  also have "\<dots> = [CSeq 999999999, CSeq 0]" using wrap by (simp add: numeral_2_eq_2)
  finally show ?thesis by (intro exI conjI) (rule run)
qed

end
