(* ===== verification/Split.thy ===== *)
theory Split
  imports Syntax
begin

text \<open>
  The string functions that the typed headers are parsed and printed with: \<open>split\<close> and \<open>splitn\<close> of a
  \<open>str\<close> or slice on one character, \<open>itertools::join\<close> of what an iterator gives, and the laws that
  printing a list with separators and splitting it again obeys.
\<close>

fun split_on :: "'a \<Rightarrow> 'a list \<Rightarrow> 'a list list" where
  "split_on c [] = [[]]"
| "split_on c (x # xs) =
     (if x = c then [] # split_on c xs
      else (case split_on c xs of [] \<Rightarrow> [[x]] | p # ps \<Rightarrow> (x # p) # ps))"

text \<open>\<open>splitn(2, c)\<close>: one part, or what is before and what is after the first \<open>c\<close>.\<close>

fun splitn_2 :: "'a \<Rightarrow> 'a list \<Rightarrow> 'a list \<times> 'a list option" where
  "splitn_2 c [] = ([], None)"
| "splitn_2 c (x # xs) = (if x = c then ([], Some xs) else (case splitn_2 c xs of (p, r) \<Rightarrow> (x # p, r)))"

fun join :: "'a list \<Rightarrow> 'a list list \<Rightarrow> 'a list" where
  "join sep [] = []"
| "join sep [p] = p"
| "join sep (p # q # ps) = p @ sep @ join sep (q # ps)"

lemma split_on_not_Nil [simp]: "split_on c s \<noteq> []"
  by (induction s) (auto split: list.split)

lemma split_on_free: "c \<notin> set p \<Longrightarrow> split_on c p = [p]"
  by (induction p) auto

lemma split_on_append: "c \<notin> set p \<Longrightarrow> split_on c (p @ c # s) = p # split_on c s"
  by (induction p) auto

lemma split_on_parts: "q \<in> set (split_on c s) \<Longrightarrow> c \<notin> set q"
proof (induction s arbitrary: q)
  case (Cons x xs)
  then show ?case by (cases "split_on c xs") (auto split: if_splits)
qed simp

lemma splitn_2_free: "c \<notin> set p \<Longrightarrow> splitn_2 c p = (p, None)"
  by (induction p) auto

lemma splitn_2_append: "c \<notin> set p \<Longrightarrow> splitn_2 c (p @ c # s) = (p, Some s)"
  by (induction p) auto

lemma splitn_2_None: "splitn_2 c s = (p, None) \<Longrightarrow> p = s \<and> c \<notin> set s"
proof (induction s arbitrary: p)
  case (Cons x xs)
  then show ?case by (cases "x = c"; cases "splitn_2 c xs") auto
qed simp

lemma splitn_2_Some: "splitn_2 c s = (p, Some r) \<Longrightarrow> s = p @ c # r \<and> c \<notin> set p"
proof (induction s arbitrary: p)
  case (Cons x xs)
  then show ?case by (cases "x = c"; cases "splitn_2 c xs") auto
qed simp

lemma set_join: "set (join sep ps) \<subseteq> set sep \<union> \<Union> (set ` set ps)"
  by (induction sep ps rule: join.induct) auto

text \<open>
  Splitting what was joined with a separator that starts with the character: every part but the first
  keeps the rest of the separator in front.
\<close>

lemma split_join_rest:
  assumes "c \<notin> set sep" "c \<notin> set p" "\<forall>q \<in> set ps. c \<notin> set q"
  shows "split_on c (sep @ p @ concat (map (\<lambda>q. c # sep @ q) ps)) = (sep @ p) # map ((@) sep) ps"
  using assms
proof (induction ps arbitrary: p)
  case Nil
  then show ?case using split_on_free [of c "sep @ p"] by simp
next
  case (Cons q ps)
  then show ?case
    using split_on_append [of c "sep @ p" "sep @ q @ concat (map (\<lambda>q. c # sep @ q) ps)"] by simp
qed

lemma join_concat: "join sep (p # ps) = p @ concat (map ((@) sep) ps)"
  by (induction ps arbitrary: p) simp_all

lemma split_join:
  assumes "c \<notin> set sep" "c \<notin> set p" "\<forall>q \<in> set ps. c \<notin> set q"
  shows "split_on c (join (c # sep) (p # ps)) = p # map ((@) sep) ps"
proof (cases ps)
  case Nil
  with assms show ?thesis by (simp add: split_on_free)
next
  case (Cons q qs)
  have "join (c # sep) (p # ps) = p @ c # sep @ q @ concat (map (\<lambda>q. c # sep @ q) qs)"
    using Cons by (simp add: join_concat flip: append_Cons)
  then have "split_on c (join (c # sep) (p # ps)) = p # split_on c (sep @ q @ concat (map (\<lambda>q. c # sep @ q) qs))"
    using split_on_append [OF assms(2)] by simp
  also have "\<dots> = p # map ((@) sep) ps"
    using split_join_rest [of c sep q qs] assms Cons by simp
  finally show ?thesis .
qed

text \<open>Trimming takes a leading blank off and leaves a token as it is.\<close>

lemma trim_token:
  assumes "is_token s"
  shows "trim_whitespace s = s" "trim_whitespace (SP # s) = s"
    "trim_bytes_whitespace s = s" "trim_bytes_whitespace (SP # s) = s"
proof -
  have "s \<noteq> []" using assms by (simp add: is_token_iff)
  then have ends: "hd s \<in> set s" "last s \<in> set s" by simp_all
  with token_no_delims [OF assms]
  have "\<not> is_blank (hd s)" "hd s \<noteq> CR" "\<not> is_blank (last s)" "last s \<noteq> LF" by (auto simp: is_blank_def)
  then have id: "strip_left s = s" "strip_right s = s" by (simp_all add: strip_left_id strip_right_id)
  then show "trim_whitespace s = s" "trim_whitespace (SP # s) = s"
    "trim_bytes_whitespace s = s" "trim_bytes_whitespace (SP # s) = s"
    by (simp_all add: trim_eqs trim_whitespace_def trim_bytes_whitespace_def)
qed

end
