(* ===== verification/DateParse.thy ===== *)
theory DateParse
  imports Split "HOL-Library.Signed_Division"
begin

text \<open>
  Parsing the dates of header values: \<^verbatim>\<open>rtsp-2/src/header/common/date.rs\<close>. A parser returns what
  it read and the rest of the text, or stops: with the error of the source, or with a panic. Panics
  come from \<open>str::split_at\<close> inside a character and from an addition that overflows (in builds with
  overflow checks). \<open>chars\<close> of a \<open>str\<close> compared with ASCII characters are its bytes. The calendar of
  the third-party \<open>chrono\<close> is a parameter \<open>C\<close>.
\<close>

datatype date_stop = DateTimeError | DatePanic

text \<open>The question mark operator.\<close>

definition and_then :: "'e + 'a \<Rightarrow> ('a \<Rightarrow> 'e + 'b) \<Rightarrow> 'e + 'b" where
  "and_then r f = (case r of Err e \<Rightarrow> Err e | Ok a \<Rightarrow> f a)"

lemma and_then_simps [simp]: "and_then (Err e) f = Err e" "and_then (Ok a) f = f a"
  by (simp_all add: and_then_def)

lemma and_then_Ok: "and_then r f = Ok b \<longleftrightarrow> (\<exists>a. r = Ok a \<and> f a = Ok b)"
  by (cases r) simp_all

lemma and_then_Err: "and_then r f = Err e \<longleftrightarrow> r = Err e \<or> (\<exists>a. r = Ok a \<and> f a = Err e)"
  by (cases r) simp_all

lemma and_then_cong [fundef_cong]:
  "r = r' \<Longrightarrow> (\<And>a. r' = Ok a \<Longrightarrow> f a = g a) \<Longrightarrow> and_then r f = and_then r' g"
  by (cases r') simp_all

text \<open>\<open>str::split_at\<close> panics unless the index is a character boundary.\<close>

definition split_at :: "nat \<Rightarrow> bytes \<Rightarrow> date_stop + bytes \<times> bytes" where
  "split_at n value =
     (if n \<le> length value \<and> (n = length value \<or> \<not> is_cont (value ! n)) then Ok (take n value, drop n value)
      else Err DatePanic)"

lemma split_at_Ok: "split_at n value = Ok (p, r) \<Longrightarrow> value = p @ r \<and> length p = n"
  by (auto simp: split_at_def split: if_splits)

subsection \<open>Comments and folding white space\<close>

datatype ParseState = PsCRLF | PsInitialWhitespace | PsWhitespace bool

function folding_loop :: "ParseState \<Rightarrow> nat \<Rightarrow> bytes \<Rightarrow> date_stop + nat" where
  "folding_loop PsCRLF bytes_parsed iter =
     (case iter of
        c # cs \<Rightarrow>
          if c = CR then
            (case cs of
               d # ds \<Rightarrow>
                 if d = LF then folding_loop (PsWhitespace True) (bytes_parsed + 2) ds else Err DateTimeError
             | [] \<Rightarrow> Err DateTimeError)
          else Ok bytes_parsed
      | [] \<Rightarrow> Ok bytes_parsed)"
| "folding_loop (PsWhitespace required) bytes_parsed iter =
     (case iter of
        c # cs \<Rightarrow>
          if c = SP \<or> c = HT then folding_loop (PsWhitespace False) (bytes_parsed + 1) cs
          else if required then Err DateTimeError
          else if c = CR then folding_loop PsCRLF bytes_parsed (c # cs)
          else Ok bytes_parsed
      | [] \<Rightarrow> if required then Err DateTimeError else Ok bytes_parsed)"
| "folding_loop PsInitialWhitespace bytes_parsed iter =
     (case iter of
        c # cs \<Rightarrow>
          if c = SP \<or> c = HT then folding_loop (PsWhitespace False) (bytes_parsed + 1) cs
          else Err DateTimeError
      | [] \<Rightarrow> Err DateTimeError)"
  by pat_completeness auto
termination
  by (relation "measure (\<lambda>(st, n, s). 2 * length s + (if st = PsCRLF then 0 else 1))") auto

declare folding_loop.simps [simp del]

definition parse_folding_whitespace :: "bytes \<Rightarrow> date_stop + bytes \<times> bytes" where
  "parse_folding_whitespace value =
     and_then (folding_loop PsInitialWhitespace 0 value) (\<lambda>bytes_parsed. split_at bytes_parsed value)"

definition is_comment_text :: "byte \<Rightarrow> bool" where
  "is_comment_text c \<longleftrightarrow>
     (33 \<le> u8 c \<and> u8 c \<le> 39) \<or> (42 \<le> u8 c \<and> u8 c \<le> 91) \<or> (93 \<le> u8 c \<and> u8 c \<le> 126)"

definition BACKSLASH :: byte where "BACKSLASH = CHR 0x5C"

definition parse_quoted_pair :: "bytes \<Rightarrow> date_stop + bytes \<times> bytes" where
  "parse_quoted_pair value =
     (case value of
        a # b # _ \<Rightarrow>
          if a = BACKSLASH \<and> ((33 < u8 b \<and> u8 b < 126) \<or> b = SP \<or> b = HT) then split_at 2 value
          else Err DateTimeError
      | _ \<Rightarrow> Err DateTimeError)"

text \<open>Parsers that leave a proper rest: \<open>get_new_iter\<close> always advances.\<close>

lemma folding_loop_grows: "folding_loop st n s = Ok m \<Longrightarrow> n \<le> m \<and> (st = PsInitialWhitespace \<longrightarrow> n < m)"
proof (induction st n s rule: folding_loop.induct)
  case (1 n s)
  then show ?case
    by (subst (asm) folding_loop.simps) (fastforce split: list.splits if_splits)
next
  case (2 required n s)
  then show ?case
    by (subst (asm) (2) folding_loop.simps) (auto split: list.splits if_splits)
next
  case (3 n s)
  then show ?case
    by (subst (asm) folding_loop.simps) (auto split: list.splits if_splits)
qed

lemma folding_whitespace_advances:
  "parse_folding_whitespace value = Ok (p, r) \<Longrightarrow> value = p @ r \<and> p \<noteq> []"
  using folding_loop_grows [of PsInitialWhitespace 0 "value"]
  by (auto simp: parse_folding_whitespace_def and_then_Ok dest!: split_at_Ok)

lemma quoted_pair_advances: "parse_quoted_pair value = Ok (p, r) \<Longrightarrow> value = p @ r \<and> p \<noteq> []"
  by (auto simp: parse_quoted_pair_def split: list.splits if_splits dest: split_at_Ok)

text \<open>
  The loop of \<open>parse_comment\<close>; \<open>chars\<close> is always \<open>value\<close> from \<open>bytes_parsed\<close> on, so that
  \<open>get_new_iter\<close> is the call of the parser on it and the advance over what it read.
\<close>

function (domintros) comment_loop :: "bytes \<Rightarrow> nat \<Rightarrow> date_stop + bytes \<times> bytes" where
  "comment_loop value bytes_parsed =
     (case drop bytes_parsed value of
        [] \<Rightarrow> Err DateTimeError
      | c # _ \<Rightarrow>
          if c = SP \<or> c = HT then
            and_then (parse_folding_whitespace (drop bytes_parsed value))
              (\<lambda>(p, _). comment_loop value (bytes_parsed + length p))
          else if c = CHR ''('' then
            and_then (comment_loop (drop bytes_parsed value) 1)
              (\<lambda>(p, _). comment_loop value (bytes_parsed + length p))
          else if c = CHR '')'' then split_at (bytes_parsed + 1) value
          else if c = BACKSLASH then
            and_then (parse_quoted_pair (drop bytes_parsed value))
              (\<lambda>(p, _). comment_loop value (bytes_parsed + length p))
          else if is_comment_text c then comment_loop value (bytes_parsed + 1)
          else Err DateTimeError)"
  by pat_completeness auto

lemma comment_loop_advances:
  assumes "comment_loop_dom (value, n)"
  shows "comment_loop value n = Ok (p, r) \<Longrightarrow> value = p @ r \<and> n < length p"
  using assms
proof (induction "value" n rule: comment_loop.pinduct)
  case (1 "value" n)
  note eq = "1.prems" [unfolded comment_loop.psimps [OF "1.hyps"]]
  obtain c s where s: "drop n value = c # s" using eq by (cases "drop n value") auto
  consider (fws) "c = SP \<or> c = HT" | (comment) "\<not> (c = SP \<or> c = HT)" "c = CHR ''(''"
    | (closing) "\<not> (c = SP \<or> c = HT)" "c \<noteq> CHR ''(''" "c = CHR '')''"
    | (pair) "\<not> (c = SP \<or> c = HT)" "c \<noteq> CHR ''(''" "c \<noteq> CHR '')''" "c = BACKSLASH"
    | (plain) "\<not> (c = SP \<or> c = HT)" "c \<noteq> CHR ''(''" "c \<noteq> CHR '')''" "c \<noteq> BACKSLASH" by blast
  then show ?case
  proof cases
    case fws
    with eq s obtain q q' where "parse_folding_whitespace (drop n value) = Ok (q, q')"
      "comment_loop value (n + length q) = Ok (p, r)" by (auto simp: and_then_Ok)
    then show ?thesis using "1.IH"(1) [OF s fws] by fastforce
  next
    case comment
    with eq s obtain q q' where "comment_loop (drop n value) 1 = Ok (q, q')"
      "comment_loop value (n + length q) = Ok (p, r)" by (auto simp: and_then_Ok)
    then show ?thesis using "1.IH"(3) [OF s comment] by fastforce
  next
    case closing
    with eq s show ?thesis using split_at_Ok [of "n + 1" "value" p r] by simp
  next
    case pair
    with eq s obtain q q' where "parse_quoted_pair (drop n value) = Ok (q, q')"
      "comment_loop value (n + length q) = Ok (p, r)" by (auto simp: and_then_Ok)
    then show ?thesis using "1.IH"(4) [OF s pair] by fastforce
  next
    case plain
    with eq s have "is_comment_text c" "comment_loop value (n + 1) = Ok (p, r)" by (auto split: if_splits)
    then show ?thesis using "1.IH"(5) [OF s plain] by fastforce
  qed
qed

termination comment_loop
proof (relation "measure (\<lambda>(value, n). length value - n)", goal_cases)
  case 1
  then show ?case by simp
next
  case (2 "value" n c s x p r)
  then have "n < length value" by (metis drop_all leI list.distinct(1))
  moreover have "p \<noteq> []" using 2 folding_whitespace_advances by blast
  ultimately show ?case by (cases p) auto
next
  case (3 "value" n c s)
  then have "n < length value" by (metis drop_all leI list.distinct(1))
  then show ?case by auto
next
  case (4 "value" n c s x p r)
  then have "n < length value" by (metis drop_all leI list.distinct(1))
  moreover have "1 < length p" using comment_loop_advances [of "drop n value" 1 p r] 4 by simp
  ultimately show ?case by auto
next
  case (5 "value" n c s x p r)
  then have "n < length value" by (metis drop_all leI list.distinct(1))
  moreover have "p \<noteq> []" using 5 quoted_pair_advances by blast
  ultimately show ?case by (cases p) auto
next
  case (6 "value" n c s)
  then have "n < length value" by (metis drop_all leI list.distinct(1))
  then show ?case by auto
qed

lemma comment_loop_total: "comment_loop_dom (value, n)"
  by (induction "value" n rule: comment_loop.induct) (rule comment_loop.domintros; auto)

declare comment_loop.simps [simp del]

definition parse_comment :: "bytes \<Rightarrow> date_stop + bytes \<times> bytes" where
  "parse_comment value =
     (case value of [] \<Rightarrow> Err DateTimeError | c # _ \<Rightarrow> if c \<noteq> CHR ''('' then Err DateTimeError else comment_loop value 1)"

text \<open>
  Comments and folding white space, in any order; \<open>first_found\<close> tells whether there has been any.
\<close>

lemma comment_advances: "parse_comment value = Ok (p, r) \<Longrightarrow> value = p @ r \<and> p \<noteq> []"
  using comment_loop_advances [OF comment_loop_total, of "value" 1 p r]
  by (auto simp: parse_comment_def split: list.splits if_splits)

function cfws_loop :: "bytes \<Rightarrow> bool \<Rightarrow> nat \<Rightarrow> bool \<Rightarrow> date_stop + bytes \<times> bytes" where
  "cfws_loop value optional bytes_parsed first_found =
     (case drop bytes_parsed value of
        c # _ \<Rightarrow>
          if c = CHR ''('' then
            and_then (parse_comment (drop bytes_parsed value))
              (\<lambda>(p, _). cfws_loop value optional (bytes_parsed + length p) True)
          else if c = SP \<or> c = HT then
            and_then (parse_folding_whitespace (drop bytes_parsed value))
              (\<lambda>(p, _). cfws_loop value optional (bytes_parsed + length p) True)
          else if first_found \<or> optional then split_at bytes_parsed value else Err DateTimeError
      | [] \<Rightarrow> if first_found \<or> optional then split_at bytes_parsed value else Err DateTimeError)"
  by pat_completeness auto
termination
proof (relation "measure (\<lambda>(value, optional, n, first_found). length value - n)", goal_cases)
  case 1
  then show ?case by simp
next
  case (2 "value" optional n first_found c s x p r)
  then have "n < length value" by (metis drop_all leI list.distinct(1))
  moreover have "p \<noteq> []" using 2 comment_advances by blast
  ultimately show ?case by (cases p) auto
next
  case (3 "value" optional n first_found c s x p r)
  then have "n < length value" by (metis drop_all leI list.distinct(1))
  moreover have "p \<noteq> []" using 3 folding_whitespace_advances by blast
  ultimately show ?case by (cases p) auto
qed

declare cfws_loop.simps [simp del]

definition parse_comment_and_folding_whitespace :: "bytes \<Rightarrow> bool \<Rightarrow> date_stop + bytes \<times> bytes" where
  "parse_comment_and_folding_whitespace value optional = cfws_loop value optional 0 False"

subsection \<open>Date and time\<close>

datatype Weekday = Mon | Tue | Wed | Thu | Fri | Sat | Sun

definition i32_max :: int where "i32_max = 2147483647"

definition parse_day :: "bytes \<Rightarrow> date_stop + nat \<times> bytes" where
  "parse_day value =
     (case value of
        [] \<Rightarrow> Err DateTimeError
      | c # cs \<Rightarrow>
          (case to_digit c of
             None \<Rightarrow> Err DateTimeError
           | Some first_digit \<Rightarrow>
               (case (case cs of d # _ \<Rightarrow> to_digit d | [] \<Rightarrow> None) of
                  Some second_digit \<Rightarrow>
                    and_then (split_at 2 value) (\<lambda>(_, rest). Ok (first_digit * 10 + second_digit, rest))
                | None \<Rightarrow> and_then (split_at 1 value) (\<lambda>(_, rest). Ok (first_digit, rest)))))"

text \<open>
  \<open>to_lowercase\<close> on a text of three bytes: only ASCII letters have one of these names as lower case.
\<close>

definition parse_day_of_week :: "bytes \<Rightarrow> date_stop + Weekday \<times> bytes" where
  "parse_day_of_week value =
     (if length value < 3 then Err DateTimeError
      else and_then (split_at 3 value) (\<lambda>(part_1, part_2).
        let day = lower part_1 in
        if day = ''sun'' then Ok (Sun, part_2) else if day = ''mon'' then Ok (Mon, part_2)
        else if day = ''tue'' then Ok (Tue, part_2) else if day = ''wed'' then Ok (Wed, part_2)
        else if day = ''thu'' then Ok (Thu, part_2) else if day = ''fri'' then Ok (Fri, part_2)
        else if day = ''sat'' then Ok (Sat, part_2) else Err DateTimeError))"

definition parse_month :: "bytes \<Rightarrow> date_stop + nat \<times> bytes" where
  "parse_month value =
     (if length value < 3 then Err DateTimeError
      else and_then (split_at 3 value) (\<lambda>(part_1, part_2).
        let month = lower part_1 in
        if month = ''jan'' then Ok (1, part_2) else if month = ''feb'' then Ok (2, part_2)
        else if month = ''mar'' then Ok (3, part_2) else if month = ''apr'' then Ok (4, part_2)
        else if month = ''may'' then Ok (5, part_2) else if month = ''jun'' then Ok (6, part_2)
        else if month = ''jul'' then Ok (7, part_2) else if month = ''aug'' then Ok (8, part_2)
        else if month = ''sep'' then Ok (9, part_2) else if month = ''oct'' then Ok (10, part_2)
        else if month = ''nov'' then Ok (11, part_2) else if month = ''dec'' then Ok (12, part_2)
        else Err DateTimeError))"

text \<open>The digits of the year: the multiplication is checked, the addition is not.\<close>

fun year_loop :: "bytes \<Rightarrow> int \<Rightarrow> nat \<Rightarrow> date_stop + int \<times> nat" where
  "year_loop [] year bytes_parsed = Ok (year, bytes_parsed)"
| "year_loop (c # cs) year bytes_parsed =
     (case to_digit c of
        Some digit \<Rightarrow>
          if year * 10 > i32_max then Err DateTimeError
          else if year * 10 + int digit > i32_max then Err DatePanic
          else year_loop cs (year * 10 + int digit) (bytes_parsed + 1)
      | None \<Rightarrow> Ok (year, bytes_parsed))"

definition parse_year :: "bytes \<Rightarrow> date_stop + int \<times> bytes" where
  "parse_year value =
     and_then (year_loop value 0 0) (\<lambda>(year, bytes_parsed).
       if bytes_parsed = 0 \<or> bytes_parsed = 1 then Err DateTimeError
       else
         (let year = (if bytes_parsed = 2 then (if year \<ge> 0 \<and> year \<le> 49 then year + 2000 else year + 1900)
                      else if bytes_parsed = 3 then year + 1900 else year)
          in and_then (split_at bytes_parsed value) (\<lambda>(_, rest). Ok (year, rest))))"

definition parse_date :: "bytes \<Rightarrow> date_stop + nat \<times> nat \<times> int \<times> bytes" where
  "parse_date value =
     and_then (parse_day value) (\<lambda>(day, value).
     and_then (parse_comment_and_folding_whitespace value False) (\<lambda>(_, value).
     and_then (parse_month value) (\<lambda>(month, value).
     and_then (parse_comment_and_folding_whitespace value False) (\<lambda>(_, value).
     and_then (parse_year value) (\<lambda>(year, value). Ok (day, month, year, value))))))"

definition parse_2_digit_number :: "bytes \<Rightarrow> date_stop + nat \<times> bytes" where
  "parse_2_digit_number value =
     (case value of
        c # d # _ \<Rightarrow>
          (case (to_digit c, to_digit d) of
             (Some first_digit, Some second_digit) \<Rightarrow>
               and_then (split_at 2 value) (\<lambda>(_, rest). Ok (first_digit * 10 + second_digit, rest))
           | _ \<Rightarrow> Err DateTimeError)
      | _ \<Rightarrow> Err DateTimeError)"

definition parse_colon :: "bytes \<Rightarrow> bool \<Rightarrow> date_stop + bytes" where
  "parse_colon original_value optional =
     and_then (parse_comment_and_folding_whitespace original_value True) (\<lambda>(_, value).
       case value of
         c # _ \<Rightarrow>
           if c = CHR '':'' then
             and_then (split_at 1 value) (\<lambda>(_, value).
             and_then (parse_comment_and_folding_whitespace value True) (\<lambda>(_, value). Ok value))
           else if optional then Ok original_value else Err DateTimeError
       | [] \<Rightarrow> if optional then Ok original_value else Err DateTimeError)"

definition parse_time_of_day :: "bytes \<Rightarrow> date_stop + nat \<times> nat \<times> nat option \<times> bytes" where
  "parse_time_of_day value =
     and_then (parse_2_digit_number value) (\<lambda>(hour, value).
     and_then (parse_colon value False) (\<lambda>value.
     and_then (parse_2_digit_number value) (\<lambda>(minute, value).
       let original_value = value in
       and_then (parse_colon value True) (\<lambda>value.
         if length original_value \<noteq> length value then
           and_then (parse_2_digit_number value) (\<lambda>(second, value). Ok (hour, minute, Some second, value))
         else Ok (hour, minute, None, original_value)))))"

text \<open>The first \<open>k\<close> characters of a \<open>str\<close>, and \<open>parse::<i32>\<close>.\<close>

fun take_chars :: "nat \<Rightarrow> bytes \<Rightarrow> bytes" where
  "take_chars 0 s = []"
| "take_chars (Suc k) [] = []"
| "take_chars (Suc k) (c # cs) = c # takeWhile is_cont cs @ take_chars k (dropWhile is_cont cs)"

definition parse_i32 :: "bytes \<Rightarrow> int option" where
  "parse_i32 s =
     (if s = [] \<or> s = ''+'' \<or> s = ''-'' then None
      else if hd s = CHR ''-'' then
        (case parse_digits 2147483648 0 (tl s) of Err _ \<Rightarrow> None | Ok n \<Rightarrow> Some (- int n))
      else
        (case parse_digits 2147483647 0 (if hd s = CHR ''+'' then tl s else s) of
           Err _ \<Rightarrow> None | Ok n \<Rightarrow> Some (int n)))"

definition is_ascii_alphabetic :: "byte \<Rightarrow> bool" where
  "is_ascii_alphabetic c \<longleftrightarrow> (65 \<le> u8 c \<and> u8 c \<le> 90) \<or> (97 \<le> u8 c \<and> u8 c \<le> 122)"

definition zone_offset :: "bytes \<Rightarrow> int option" where
  "zone_offset timezone =
     (if timezone = ''ut'' \<or> timezone = ''gmt'' then Some 0
      else if timezone = ''edt'' then Some (- 400)
      else if timezone = ''est'' then Some (- 500)
      else if timezone = ''cdt'' then Some (- 500)
      else if timezone = ''cst'' then Some (- 600)
      else if timezone = ''mdt'' then Some (- 600)
      else if timezone = ''mst'' then Some (- 700)
      else if timezone = ''pdt'' then Some (- 700)
      else if timezone = ''pst'' then Some (- 800)
      else if length timezone = 1 then
        (let c = u8 (hd timezone)
         in if (97 \<le> c \<and> c \<le> 105) \<or> (107 \<le> c \<and> c \<le> 122) then Some 0 else None)
      else None)"

definition parse_time_zone :: "bytes \<Rightarrow> date_stop + int \<times> bytes" where
  "parse_time_zone value =
     (if starts_with value ''+'' \<or> starts_with value ''-'' then
        (let sign = hd value;
             offset = take_chars 4 (tl value)
         in if length offset \<noteq> 4 then Err DateTimeError
            else
              (case parse_i32 offset of
                 None \<Rightarrow> Err DateTimeError
               | Some offset \<Rightarrow>
                   (let offset = (if sign = CHR ''-'' then offset * - 1 else offset)
                    in and_then (split_at 5 value) (\<lambda>(_, rest). Ok (offset, rest)))))
      else
        (let timezone = lower (takeWhile is_ascii_alphabetic (take_chars 3 value))
         in case zone_offset timezone of
              None \<Rightarrow> Err DateTimeError
            | Some offset \<Rightarrow> and_then (split_at (length timezone) value) (\<lambda>(_, rest). Ok (offset, rest))))"

definition parse_time :: "bytes \<Rightarrow> date_stop + nat \<times> nat \<times> nat option \<times> int \<times> bytes" where
  "parse_time value =
     and_then (parse_time_of_day value) (\<lambda>(hour, minute, second, value).
     and_then (parse_comment_and_folding_whitespace value False) (\<lambda>(_, value).
     and_then (parse_time_zone value) (\<lambda>(offset, value). Ok (hour, minute, second, offset, value))))"

text \<open>
  What is used of \<open>chrono\<close>: \<open>chrono_utc\<close> is \<open>FixedOffset::east_opt\<close>, \<open>ymd_opt\<close>, \<open>and_hms_opt\<close>,
  \<open>single\<close> and \<open>with_timezone(&Utc)\<close>; the error of each of them is the same.
\<close>

record 'dt chrono_ops =
  chrono_utc :: "int \<Rightarrow> int \<Rightarrow> nat \<Rightarrow> nat \<Rightarrow> nat \<Rightarrow> nat \<Rightarrow> nat \<Rightarrow> 'dt option"
  chrono_weekday :: "'dt \<Rightarrow> Weekday"
  chrono_format :: "'dt \<Rightarrow> bytes"

definition parse_weekday_part :: "bytes \<Rightarrow> date_stop + Weekday option \<times> bytes" where
  "parse_weekday_part value =
     (case value of
        [] \<Rightarrow> Err DateTimeError
      | c # _ \<Rightarrow>
          if is_ascii_alphabetic c then
            and_then (parse_day_of_week value) (\<lambda>(weekday, value).
            and_then (parse_comment_and_folding_whitespace value True) (\<lambda>(_, value).
              case value of
                [] \<Rightarrow> Err DateTimeError
              | d # _ \<Rightarrow>
                  if d \<noteq> CHR '','' then Err DateTimeError
                  else
                    and_then (split_at 1 value) (\<lambda>(_, value).
                    and_then (parse_comment_and_folding_whitespace value True) (\<lambda>(_, value).
                      Ok (Some weekday, value)))))
          else Ok (None, value))"

definition parse_date_time :: "'dt chrono_ops \<Rightarrow> bytes \<Rightarrow> date_stop + 'dt" where
  "parse_date_time C value =
     and_then (parse_comment_and_folding_whitespace value True) (\<lambda>(_, value).
     and_then (parse_weekday_part value) (\<lambda>(weekday, value).
     and_then (parse_date value) (\<lambda>(day, month, year, value).
     and_then (parse_comment_and_folding_whitespace value False) (\<lambda>(_, value).
     and_then (parse_time value) (\<lambda>(hour, minute, second, offset, value).
     and_then (parse_comment_and_folding_whitespace value True) (\<lambda>_.
       let offset = (offset sdiv 100) * 3600 + (offset smod 100) * 60 in
       case chrono_utc C offset year month day hour minute (case second of None \<Rightarrow> 0 | Some s \<Rightarrow> s) of
         None \<Rightarrow> Err DateTimeError
       | Some date_time \<Rightarrow>
           (case weekday of
              Some weekday \<Rightarrow> if weekday \<noteq> chrono_weekday C date_time then Err DateTimeError else Ok date_time
            | None \<Rightarrow> Ok date_time)))))))"

end
