(* ===== verification/Boundaries.thy ===== *)
theory Boundaries
  imports RequestDecoder ResponseDecoder Connection CSeq ContentLength DateParse
begin

text \<open>
  What the code does at the edges of its limits: a header value of the greatest length whose line break
  arrives in two pieces, numbers written with a sign, a request buffer that holds nothing, and polls that
  wait for nothing. No further code is modelled here.
\<close>

subsection \<open>A header value of the greatest length\<close>

lemma line_end_after_value:
  assumes "CR \<notin> set v" "\<not> is_blank x"
  shows "line_end (v @ CR # LF # x # y) (length v)" "i < length v \<Longrightarrow> \<not> line_end (v @ z) i"
proof -
  show "line_end (v @ CR # LF # x # y) (length v)"
    using assms(2) by (simp add: line_end_def eol_at_def fold_at_def nth_append is_blank_def)
  assume "i < length v"
  then have "v ! i \<noteq> CR" using assms(1) by (metis nth_mem)
  with \<open>i < length v\<close> have "(v @ z) ! i \<noteq> CR" by (simp add: nth_append)
  then show "\<not> line_end (v @ z) i" by (simp add: line_end_def eol_at_def)
qed

text \<open>
  The limit of a header value is not independent of how its bytes arrive: a value of exactly the greatest
  length is accepted with its line break and the byte after it, and with the line break alone it is not
  yet complete, but with half of the line break it is too long.
\<close>

lemma scan_header_value_at_limit:
  assumes "CR \<notin> set v" "\<not> is_blank x"
  shows "scan_header_value (length v) (v @ CR # LF # x # y) = Complete v"
    and "scan_header_value (length v) (v @ [CR]) = DecodeFailed ()"
proof -
  have "first_index (line_end (v @ CR # LF # x # y)) (length v + 1) = Some (length v)"
    using line_end_after_value [OF assms] by (simp add: first_index_Some)
  then show "scan_header_value (length v) (v @ CR # LF # x # y) = Complete v"
    by (simp add: scan_header_value_def)
  have "\<not> line_end (v @ [CR]) i" if "i < length v + 1" for i
    using line_end_after_value(2) [OF assms, of i "[CR]"] that by (cases "i = length v") (auto simp: line_end_def eol_at_def)
  then have "first_index (line_end (v @ [CR])) (length v + 1) = None" by (simp add: first_index_None)
  then show "scan_header_value (length v) (v @ [CR]) = DecodeFailed ()" by (simp add: scan_header_value_def)
qed

theorem header_value_limit_depends_on_arrival:
  assumes "CR \<notin> set v" "\<not> is_blank x"
  shows "rqc_header_value_max_length c = length v \<Longrightarrow>
      rq_decode_header_value c (v @ CR # LF # x # y) = Complete v
      \<and> rq_decode_header_value c (v @ [CR]) = (DecodeFailed RqHeaderValueTooLong :: (bytes, 'u request_decode_error) DecodeResult)"
    and "rsc_header_value_max_length c' = length v \<Longrightarrow>
      rs_decode_header_value c' (v @ CR # LF # x # y) = Complete v
      \<and> rs_decode_header_value c' (v @ [CR]) = DecodeFailed RsHeaderValueTooLong"
  using scan_header_value_at_limit [OF assms]
  by (simp_all add: rq_header_value_scan rs_header_value_scan decode_result_map_error_def)

subsection \<open>Numbers with a sign\<close>

theorem numbers_with_a_plus_sign:
  "cseq_decode [HeaderValue ''+7''] = Ok (Some (CSeq 7))"
  "content_length_decode [HeaderValue ''+7''] = Ok (Some (ContentLength 7))"
proof -
  have "to_digit (CHR ''7'') = Some 7" by code_simp
  then have "parse_uint u32_max ''+7'' = Ok 7" "parse_uint u64_max ''+7'' = Ok 7" by (simp_all add: parse_uint_def)
  then show "cseq_decode [HeaderValue ''+7''] = Ok (Some (CSeq 7))"
    "content_length_decode [HeaderValue ''+7''] = Ok (Some (ContentLength 7))"
    by (simp_all add: cseq_decode_def content_length_decode_def cseq_try_from_u32_def MAX_CSEQ_def
        content_length_try_from_usize_def MAX_CONTENT_LENGTH_def)
qed

text \<open>The offset of a time zone may have a second sign, and two minus signs cancel.\<close>

theorem offset_with_two_signs:
  "parse_time_zone ''++123'' = Ok (123, [])" "parse_time_zone ''--123'' = Ok (123, [])"
proof -
  have digits: "to_digit (CHR ''1'') = Some 1" "to_digit (CHR ''2'') = Some 2" "to_digit (CHR ''3'') = Some 3"
    by code_simp+
  have "parse_i32 ''+123'' = Some 123" "parse_i32 ''-123'' = Some (- 123)"
    by (simp_all add: parse_i32_def digits)
  moreover have "take_chars 4 ''+123'' = ''+123''" "take_chars 4 ''-123'' = ''-123''" by code_simp+
  moreover have "split_at 5 ''++123'' = Ok (''++123'', [])" "split_at 5 ''--123'' = Ok (''--123'', [])" by code_simp+
  ultimately show "parse_time_zone ''++123'' = Ok (123, [])" "parse_time_zone ''--123'' = Ok (123, [])"
    by (simp_all add: parse_time_zone_def starts_with_def)
qed

text \<open>
  In a comment a backslash may quote every visible ASCII character but the first and the last of them.
\<close>

theorem quoted_pair_accepts:
  "33 \<le> u8 c \<Longrightarrow> u8 c \<le> 126 \<Longrightarrow>
    parse_quoted_pair (BACKSLASH # [c]) = (if c = CHR ''!'' \<or> c = CHR ''~'' then Err DateTimeError else Ok ([BACKSLASH, c], []))"
proof -
  assume c: "33 \<le> u8 c" "u8 c \<le> 126"
  have "c = CHR ''!'' \<longleftrightarrow> u8 c = 33" "c = CHR ''~'' \<longleftrightarrow> u8 c = 126"
    using u8_eq_iff [of c "CHR ''!''"] u8_eq_iff [of c "CHR ''~''"] by simp_all
  with c show ?thesis by (auto simp: parse_quoted_pair_def split_at_def SP_def HT_def)
qed

subsection \<open>A request buffer that holds nothing\<close>

theorem empty_request_buffer_reads_nothing:
  assumes "rc_forwarding_receiver rc = Some fr" "fwd_request_buffer_size fr = 0" "rc_stream rc"
  shows "poll_stream M H items e rc = Some (rc, items, Ok NotReady)"
  using assms by (cases items) (simp_all add: poll_stream_def receiver_is_full_def fwd_is_full_def)

text \<open>A request too far ahead of the expected one is answered with 403, not with 453.\<close>

theorem request_too_far_forbidden:
  assumes "unbounded_laws H" "never_closed H" "rc_sender_handle rc"
  shows "\<exists>rc' response. handle_request_receiver_error M H ReceiverCSeqDifferenceTooLarge rc = Some rc'
    \<and> chan_sent H (rc_channel rc') = chan_sent H (rc_channel rc) @ [MessageResponse response]
    \<and> resp_status_code response = Forbidden"
proof -
  obtain r where r: "FORBIDDEN_RESPONSE M = Some r" "resp_status_code r = Forbidden"
    using canned_total(7) [of M] by blast
  obtain channel b where sent: "chan_send H (rc_channel rc) (MessageResponse r) = (channel, b)" by fastforce
  then have b using assms(2) unfolding never_closed_def by (metis snd_conv)
  then show ?thesis
    using r sent assms(3) unbounded_lawsD [OF assms(1) sent]
    by (simp add: handle_request_receiver_error_def receiver_send_def)
qed

subsection \<open>Polls that wait for nothing\<close>

text \<open>
  A future that answers \<open>NotReady\<close> is polled again when something it polled, and found not ready, has
  changed. When a \<open>Continue\<close> message comes, the future of a request takes over the new channel without
  polling it: only its timers, if it has any, will wake it for the response.
\<close>

theorem continue_leaves_channel_unpolled:
  assumes "\<not> sr_max_timer sr" "sr_timeout_duration sr = None"
  shows "send_request_poll (OneshotMessage (PendingContinue ch)) max_answer timer_answer sr =
    Some (sr\<lparr>sr_rx_response := ch, sr_timer := False\<rparr>, [], Ok NotReady)"
  using assms by (simp add: send_request_poll_def poll_request_def poll_max_timer_def poll_timer_def poll_request_timer_def)

text \<open>
  A receiver whose buffer is full does not poll its stream, also when the same poll then forwards all the
  requests and so makes room for more.
\<close>

theorem full_receiver_leaves_stream_unpolled:
  assumes "rc_forwarding_receiver rc = Some fr" "fwd_is_full fr" "fwd_poll S fr = (fr', Ok (Ready ()))"
    and "rc_stream rc" "rc_requests_allowed rc" "rc_response_receiver rc = Some rr" "\<not> rc_decoding_timer rc"
    and "re_updates env = []" "re_updates_end env = DrainPending" "re_codec_events env = []" "re_codec_end env = DrainPending"
  shows "receiver_poll M H S env rc = Some (rc\<lparr>rc_forwarding_receiver := Some fr'\<rparr>, re_stream env, NotReady)"
proof -
  have rc: "rc\<lparr>rc_stream := True\<rparr> = rc" using assms(4) by simp
  have "poll_response_receiver env rc = rc" using assms(6,8,9) by (simp add: poll_response_receiver_def)
  moreover have "poll_stream M H (re_stream env) (re_stream_end env) rc = Some (rc, re_stream env, Ok NotReady)"
    using assms(1,2,4) rc by (cases "re_stream env") (simp_all add: poll_stream_def receiver_is_full_def)
  ultimately have "poll_receiving M H env rc = Some (rc, re_stream env, NotReady)"
    using assms(7,10,11) by (simp add: poll_receiving_def poll_codec_events_def poll_decoding_timer_def)
  then show ?thesis
    using assms(1,3,5) by (simp add: receiver_poll_def poll_forwarding_def is_request_receiver_shutdown_def)
qed

text \<open>
  A connection that only sends. Its receiver is down, the sender is idle: it goes on, although nothing
  is left to be answered, when it has no request handler, and also in a graceful shutdown, where the
  event that the request handler is done is not looked at.
\<close>

theorem idle_sender_keeps_connection:
  assumes "cn_receiver cn = None" "cn_sender cn = Some s"
    and "sender_poll M T (ce_outgoing env) (ce_outgoing_end env) s = (s', rest, Ok NotReady)"
    and "shutdown_poll (ce_initiate_shutdown env) (ce_shutdown_timer env) (cn_shutdown cn) = Some (sh, r)"
    and "shutdown_state sh = Running \<and> \<not> cn_rx_handler_shutdown_event cn \<or> shutdown_state sh = ShuttingDown"
  shows "connection_poll M H S T env cn =
    Some (cn\<lparr>cn_sender := Some s', cn_shutdown := sh, cn_allow_requests := False\<rparr>, NotReady)"
proof -
  have "cn_poll_receiver M H S env cn = Some cn" using assms(1) by (simp add: cn_poll_receiver_def)
  moreover have "cn_poll_sender M T env cn = cn\<lparr>cn_sender := Some s'\<rparr>"
    using assms(2,3) by (simp add: cn_poll_sender_def)
  ultimately show ?thesis
    using assms(1,4,5)
    by (auto simp: connection_poll_def cn_after_shutdown_poll_def cn_poll_request_handler_shutdown_def
        cn_shutdown_request_receiver_def is_connection_shutdown_def)
qed

end
