(* ===== verification/TokenLists.thy ===== *)
theory TokenLists
  imports Split HeaderMap
begin

text \<open>
  Headers that hold a comma separated list of tokens. The third-party \<open>LinkedHashSet\<close> is a parameter
  \<open>L\<close>: a set that iterates over its elements in the order in which they were inserted.
  \<open>linked_set_laws\<close> states what is documented of it; where an element that is inserted again ends up
  is left open. The loops of \<open>decode\<close> are written once, over the parser of the elements; the headers
  instantiate them. The locale gives the round trip of every such header.
\<close>

record ('s, 'a) linked_set_ops =
  set_new :: 's
  set_insert :: "'s \<Rightarrow> 'a \<Rightarrow> 's"
  set_iter :: "'s \<Rightarrow> 'a list"

definition linked_set_laws :: "('s, 'a) linked_set_ops \<Rightarrow> bool" where
  "linked_set_laws L \<longleftrightarrow>
     set_iter L (set_new L) = []
     \<and> (\<forall>s. distinct (set_iter L s))
     \<and> (\<forall>s x. set (set_iter L (set_insert L s x)) = insert x (set (set_iter L s)))
     \<and> (\<forall>s x. x \<notin> set (set_iter L s) \<longrightarrow> set_iter L (set_insert L s x) = set_iter L s @ [x])"

lemma linked_set_lawsD:
  assumes "linked_set_laws L"
  shows "set_iter L (set_new L) = []" "distinct (set_iter L s)"
    "set (set_iter L (set_insert L s x)) = insert x (set (set_iter L s))"
    "x \<notin> set (set_iter L s) \<Longrightarrow> set_iter L (set_insert L s x) = set_iter L s @ [x]"
  using assms unfolding linked_set_laws_def by blast+

text \<open>Distinct lists, to instantiate the parameter: an element that is inserted again moves to the end.\<close>

definition list_set :: "('a list, 'a) linked_set_ops" where
  "list_set = \<lparr>set_new = [], set_insert = \<lambda>s x. filter ((\<noteq>) x) (remdups s) @ [x], set_iter = remdups\<rparr>"

lemma list_set_laws: "linked_set_laws list_set"
proof -
  have "remdups (filter ((\<noteq>) x) (remdups s) @ [x]) = filter ((\<noteq>) x) (remdups s) @ [x]" for x :: 'a and s
    by (rule distinct_remdups_id) simp
  moreover have "filter ((\<noteq>) x) (remdups s) = remdups s" if "x \<notin> set s" for x :: 'a and s
    using that by (intro filter_True) auto
  ultimately show ?thesis by (auto simp: linked_set_laws_def list_set_def)
qed

text \<open>The inner loop of \<open>decode\<close>, over the parts of one header value, and the outer one.\<close>

fun insert_parts ::
  "('s, 'a) linked_set_ops \<Rightarrow> (bytes \<Rightarrow> 'e + 'a) \<Rightarrow> (bytes \<Rightarrow> bytes) \<Rightarrow> bytes list \<Rightarrow> 's \<Rightarrow> 'e + 's"
where
  "insert_parts L try_from trim [] s = Ok s"
| "insert_parts L try_from trim (part # parts) s =
     (case try_from (trim part) of
        Err e \<Rightarrow> Err e
      | Ok x \<Rightarrow> insert_parts L try_from trim parts (set_insert L s x))"

fun insert_values ::
  "('s, 'a) linked_set_ops \<Rightarrow> (bytes \<Rightarrow> 'e + 'a) \<Rightarrow> HeaderValue list \<Rightarrow> 's \<Rightarrow> 'e + 's"
where
  "insert_values L try_from [] s = Ok s"
| "insert_values L try_from (value # values) s =
     (case insert_parts L try_from trim_whitespace (split_on (CHR '','') (value_as_str value)) s of
        Err e \<Rightarrow> Err e
      | Ok s \<Rightarrow> insert_values L try_from values s)"

definition token_list_decode ::
  "('s, 'a) linked_set_ops \<Rightarrow> (bytes \<Rightarrow> 'e + 'a) \<Rightarrow> HeaderValue list \<Rightarrow> 'e + 's option"
where
  "token_list_decode L try_from values =
     (case insert_values L try_from values (set_new L) of
        Err e \<Rightarrow> Err e
      | Ok s \<Rightarrow> Ok (if values \<noteq> [] then Some s else None))"

definition token_list_encode :: "('s, 'a) linked_set_ops \<Rightarrow> ('a \<Rightarrow> bytes) \<Rightarrow> 's \<Rightarrow> HeaderValue list" where
  "token_list_encode L as_str s = [from_string_unchecked (join '', '' (map as_str (set_iter L s)))]"

subsection \<open>Facts\<close>

lemma insert_parts_elements:
  assumes "linked_set_laws L"
  shows "insert_parts L try_from trim parts s = Ok s' \<Longrightarrow>
    (\<forall>part \<in> set parts. \<exists>x. try_from (trim part) = Ok x)
    \<and> set (set_iter L s') = set (set_iter L s) \<union> {x. \<exists>part \<in> set parts. try_from (trim part) = Ok x}"
proof (induction parts arbitrary: s)
  case (Cons part parts)
  then obtain x where x: "try_from (trim part) = Ok x"
    and rest: "insert_parts L try_from trim parts (set_insert L s x) = Ok s'"
    by (auto split: sum.splits)
  from Cons.IH [OF rest] x linked_set_lawsD(3) [OF assms] show ?case by auto
qed simp

lemma insert_parts_distinct:
  assumes "linked_set_laws L"
  shows "list_all2 (\<lambda>part x. try_from (trim part) = Ok x) parts xs \<Longrightarrow> distinct (set_iter L s @ xs)
    \<Longrightarrow> \<exists>s'. insert_parts L try_from trim parts s = Ok s' \<and> set_iter L s' = set_iter L s @ xs"
proof (induction parts arbitrary: s xs)
  case (Cons part parts)
  then obtain x ys where xs: "xs = x # ys" "try_from (trim part) = Ok x"
    "list_all2 (\<lambda>part x. try_from (trim part) = Ok x) parts ys"
    by (auto simp: list_all2_Cons1)
  then have step: "set_iter L (set_insert L s x) = set_iter L s @ [x]"
    using Cons.prems(2) linked_set_lawsD(4) [OF assms] by simp
  then have "distinct (set_iter L (set_insert L s x) @ ys)" using Cons.prems(2) xs(1) by simp
  from Cons.IH [OF xs(3) this] show ?case using xs step by simp
qed simp

lemma insert_values_elements:
  assumes "linked_set_laws L"
  shows "insert_values L try_from values s = Ok s' \<Longrightarrow>
    set (set_iter L s') = set (set_iter L s)
      \<union> {x. \<exists>v \<in> set values. \<exists>part \<in> set (split_on (CHR '','') (value_as_str v)). try_from (trim_whitespace part) = Ok x}"
proof (induction "values" arbitrary: s)
  case (Cons v "values")
  then obtain t where t: "insert_parts L try_from trim_whitespace (split_on (CHR '','') (value_as_str v)) s = Ok t"
    and rest: "insert_values L try_from values t = Ok s'"
    by (auto split: sum.splits)
  from Cons.IH [OF rest] insert_parts_elements [OF assms t] show ?case by auto
qed simp

lemma text_byte_token: "token_char c \<Longrightarrow> text_byte c \<and> is_ascii c"
  by (auto simp: token_char_ascii) (auto simp: token_char_def token_value_def text_byte_def)

lemma token_not_comma: "is_token s \<Longrightarrow> CHR '','' \<notin> set s"
  by (auto simp: is_token_iff token_char_def token_value_def)

lemma ascii_value_valid:
  "\<forall>c \<in> set s. text_byte c \<and> is_ascii c \<Longrightarrow> value_valid (from_string_unchecked s)"
  by (simp add: value_valid_def from_string_unchecked_def utf8_chars_ascii value_bytes_text)

text \<open>
  What the list needs of its elements: a text without a comma that parses back after trimming, also
  with the blank that follows a comma in front.
\<close>

locale comma_list =
  fixes as_str :: "'a \<Rightarrow> bytes" and try_from :: "bytes \<Rightarrow> 'e + 'a" and valid :: "'a \<Rightarrow> bool"
    and trim :: "bytes \<Rightarrow> bytes"
  assumes parse_part: "valid x \<Longrightarrow> try_from (trim (as_str x)) = Ok x"
    and parse_later_part: "valid x \<Longrightarrow> try_from (trim (SP # as_str x)) = Ok x"
    and no_comma: "valid x \<Longrightarrow> CHR '','' \<notin> set (as_str x)"
begin

lemma parts_of_join:
  assumes "\<forall>y \<in> set (x # xs). valid y"
  shows "split_on (CHR '','') (join '', '' (map as_str (x # xs))) = as_str x # map (\<lambda>y. SP # as_str y) xs"
proof -
  have "split_on (CHR '','') (join (CHR '','' # [SP]) (as_str x # map as_str xs))
      = as_str x # map ((@) [SP]) (map as_str xs)"
    using assms no_comma by (intro split_join) (auto simp: SP_def)
  then show ?thesis by (simp add: comp_def SP_def)
qed

lemma parts_parse:
  assumes "\<forall>y \<in> set xs. valid y" "xs \<noteq> []"
  shows "list_all2 (\<lambda>part x. try_from (trim part) = Ok x) (split_on (CHR '','') (join '', '' (map as_str xs))) xs"
proof -
  obtain y ys where xs: "xs = y # ys" using assms(2) by (cases xs) auto
  have parts: "split_on (CHR '','') (join '', '' (map as_str xs)) = as_str y # map (\<lambda>z. SP # as_str z) ys"
    using parts_of_join [of y ys] assms xs by simp
  show ?thesis
    using assms parse_part parse_later_part unfolding parts by (auto simp: xs list_all2_map1 list.rel_refl_strong)
qed

end

text \<open>A header that is such a list, with the trimming of its decoder.\<close>

locale header_list = comma_list as_str try_from valid trim_whitespace
  for as_str :: "'a \<Rightarrow> bytes" and try_from :: "bytes \<Rightarrow> 'e + 'a" and valid :: "'a \<Rightarrow> bool"
begin

lemma decode_encode:
  assumes "linked_set_laws L" "\<forall>x \<in> set (set_iter L s). valid x" "set_iter L s \<noteq> []"
  shows "\<exists>s'. token_list_decode L try_from (token_list_encode L as_str s) = Ok (Some s')
    \<and> set_iter L s' = set_iter L s"
proof -
  have "\<exists>s'. insert_parts L try_from trim_whitespace
      (split_on (CHR '','') (join '', '' (map as_str (set_iter L s)))) (set_new L) = Ok s'
      \<and> set_iter L s' = set_iter L (set_new L) @ set_iter L s"
    using linked_set_lawsD(1,2) [OF assms(1)]
    by (intro insert_parts_distinct [OF assms(1)] parts_parse [OF assms(2,3)]) simp
  then show ?thesis
    using linked_set_lawsD(1) [OF assms(1)]
    by (auto simp: token_list_decode_def token_list_encode_def from_string_unchecked_def)
qed

end

text \<open>Elements that are tokens.\<close>

locale token_list = tok: wire_token as_str try_from valid
  for as_str :: "'a \<Rightarrow> bytes" and try_from :: "bytes \<Rightarrow> 'e + 'a" and valid :: "'a \<Rightarrow> bool" +
  assumes as_str_token: "valid x \<Longrightarrow> is_token (as_str x)"

sublocale token_list \<subseteq> header_list as_str try_from valid
  by unfold_locales (simp_all add: trim_token [OF as_str_token] tok.parse_print token_not_comma [OF as_str_token])

sublocale token_list \<subseteq> in_bytes: comma_list as_str try_from valid trim_bytes_whitespace
  by unfold_locales (simp_all add: trim_token [OF as_str_token] tok.parse_print token_not_comma [OF as_str_token])

context token_list
begin

lemma decode_valid:
  assumes "linked_set_laws L" "token_list_decode L try_from values = Ok (Some s)"
  shows "\<forall>x \<in> set (set_iter L s). valid x"
proof -
  from assms(2) have "insert_values L try_from values (set_new L) = Ok s"
    by (auto simp: token_list_decode_def split: sum.splits if_splits)
  from insert_values_elements [OF assms(1) this] show ?thesis
    using linked_set_lawsD(1) [OF assms(1)] tok.parse_valid by auto
qed

lemma encode_valid:
  assumes "\<forall>x \<in> set (set_iter L s). valid x" "v \<in> set (token_list_encode L as_str s)"
  shows "value_valid v"
proof -
  have "\<forall>c \<in> set (join '', '' (map as_str (set_iter L s))). text_byte c \<and> is_ascii c"
  proof
    fix c
    assume "c \<in> set (join '', '' (map as_str (set_iter L s)))"
    with set_join have "c \<in> set '', '' \<or> (\<exists>x \<in> set (set_iter L s). c \<in> set (as_str x))" by fastforce
    then show "text_byte c \<and> is_ascii c"
      using assms(1) as_str_token text_byte_token by (auto simp: is_token_iff text_byte_def is_ascii_def)
  qed
  then show ?thesis using assms(2) ascii_value_valid by (auto simp: token_list_encode_def)
qed

end

end
