(* ===== verification/Public.thy ===== *)
theory Public
  imports TokenLists Method
begin

text \<open>The header that lists the supported methods: \<^verbatim>\<open>rtsp-2/src/header/types/public.rs\<close>.\<close>

definition public_new :: "('s, Method) linked_set_ops \<Rightarrow> 's" where
  "public_new L = set_new L"

definition public_decode :: "('s, Method) linked_set_ops \<Rightarrow> HeaderValue list \<Rightarrow> MethodError + 's option" where
  "public_decode L values = token_list_decode L method_try_from values"

definition public_encode :: "('s, Method) linked_set_ops \<Rightarrow> 's \<Rightarrow> HeaderValue list" where
  "public_encode L s = token_list_encode L method_as_str s"

definition public_header_name :: HeaderName where
  "public_header_name = HeaderPublic"

lemma method_valid_is_token: "method_valid m \<Longrightarrow> is_token (method_as_str m)"
proof -
  assume "method_valid m"
  then show ?thesis
    using standard_names_token [of m] by (cases m) (simp_all add: standard_methods_def)
qed

interpretation methods: token_list method_as_str method_try_from method_valid
  by unfold_locales (rule method_valid_is_token)

subsection \<open>Properties\<close>

text \<open>
  The header round trips: what a list of methods encodes to decodes to the same methods in the
  same order. The header of no methods is the exception: its own decoder rejects it.
\<close>

theorem public_roundtrip:
  assumes "linked_set_laws L" "\<forall>m \<in> set (set_iter L s). method_valid m"
  shows "if set_iter L s = [] then public_decode L (public_encode L s) = Err MethodEmpty
    else \<exists>s'. public_decode L (public_encode L s) = Ok (Some s') \<and> set_iter L s' = set_iter L s"
proof (cases "set_iter L s")
  case Nil
  have "method_try_from (trim_whitespace []) = Err MethodEmpty" by code_simp
  with Nil show ?thesis
    by (simp add: public_decode_def public_encode_def token_list_decode_def token_list_encode_def
        from_string_unchecked_def)
next
  case (Cons m ms)
  then show ?thesis
    using methods.decode_encode [OF assms] by (simp add: public_decode_def public_encode_def)
qed

lemma public_roundtrip_witness:
  "\<exists>s'. public_decode list_set [HeaderValue ''PLAY, SETUP, X-NEW''] = Ok (Some s')
    \<and> set_iter list_set s' = [Play, Setup, MethodExtension ''X-NEW'']"
proof -
  let ?s = "[Play, Setup, MethodExtension ''X-NEW'']"
  have iter: "set_iter list_set ?s = ?s" by code_simp
  have "list_all method_valid ?s" by code_simp
  then have "\<forall>m \<in> set (set_iter list_set ?s). method_valid m" unfolding iter list_all_iff .
  moreover have "public_encode list_set ?s = [HeaderValue ''PLAY, SETUP, X-NEW'']" by code_simp
  ultimately show ?thesis using public_roundtrip [OF list_set_laws, of ?s] iter by simp
qed

end
