(* ===== verification/AcceptRanges.thy ===== *)
theory AcceptRanges
  imports TokenLists
begin

text \<open>
  Range formats and the header that lists them: \<^verbatim>\<open>rtsp-2/src/header/types/accept_ranges.rs\<close>.
\<close>

datatype RangeFormat = Clock | RangeExtension bytes | NPT | SMPTE | SMPTE25 | SMPTE30Drop

datatype RangeFormatError = RangeFormatEmpty | RangeFormatInvalidCharacter

fun range_format_as_str :: "RangeFormat \<Rightarrow> bytes" where
  "range_format_as_str Clock = ''clock''"
| "range_format_as_str NPT = ''npt''"
| "range_format_as_str SMPTE = ''smpte''"
| "range_format_as_str SMPTE25 = ''smpte-25''"
| "range_format_as_str SMPTE30Drop = ''smpte-30-drop''"
| "range_format_as_str (RangeExtension extension) = extension"

definition range_format_extension :: "bytes \<Rightarrow> RangeFormatError + RangeFormat" where
  "range_format_extension value =
     (if value = [] then Err RangeFormatEmpty
      else if \<not> is_token value then Err RangeFormatInvalidCharacter
      else Ok (RangeExtension (lower value)))"

definition check_range_format :: "RangeFormat \<Rightarrow> bytes \<Rightarrow> bool" where
  "check_range_format range_format value =
     check_folded to_ascii_lowercase (range_format_as_str range_format) value"

definition range_format_try_from :: "bytes \<Rightarrow> RangeFormatError + RangeFormat" where
  "range_format_try_from value =
     (if length value = 3 then
        (if check_range_format NPT value then Ok NPT else range_format_extension value)
      else if length value = 5 then
        (if check_range_format Clock value then Ok Clock
         else if check_range_format SMPTE value then Ok SMPTE else range_format_extension value)
      else if length value = 8 then
        (if check_range_format SMPTE25 value then Ok SMPTE25 else range_format_extension value)
      else if length value = 13 then
        (if check_range_format SMPTE30Drop value then Ok SMPTE30Drop else range_format_extension value)
      else range_format_extension value)"

text \<open>\<open>PartialEq<[u8]>\<close>: comparison with a byte slice ignores ASCII case.\<close>

definition range_format_eq_bytes :: "RangeFormat \<Rightarrow> bytes \<Rightarrow> bool" where
  "range_format_eq_bytes range_format other = eq_ignore_ascii_case (range_format_as_str range_format) other"

definition accept_ranges_new :: "('s, RangeFormat) linked_set_ops \<Rightarrow> 's" where
  "accept_ranges_new L = set_new L"

definition accept_ranges_decode ::
  "('s, RangeFormat) linked_set_ops \<Rightarrow> HeaderValue list \<Rightarrow> RangeFormatError + 's option" where
  "accept_ranges_decode L values = token_list_decode L range_format_try_from values"

definition accept_ranges_encode :: "('s, RangeFormat) linked_set_ops \<Rightarrow> 's \<Rightarrow> HeaderValue list" where
  "accept_ranges_encode L s = token_list_encode L range_format_as_str s"

definition accept_ranges_header_name :: HeaderName where
  "accept_ranges_header_name = HeaderAcceptRanges"

subsection \<open>Facts\<close>

definition standard_range_formats :: "RangeFormat list" where
  "standard_range_formats = [Clock, NPT, SMPTE, SMPTE25, SMPTE30Drop]"

text \<open>What the private constructor of \<open>ExtensionRangeFormat\<close> guarantees.\<close>

fun range_format_valid :: "RangeFormat \<Rightarrow> bool" where
  "range_format_valid (RangeExtension s) \<longleftrightarrow>
     is_token s \<and> lower s = s \<and> s \<notin> set (map range_format_as_str standard_range_formats)"
| "range_format_valid r \<longleftrightarrow> True"

lemma range_format_standard:
  "r \<in> set standard_range_formats \<Longrightarrow> lower v = range_format_as_str r \<Longrightarrow> range_format_try_from v = Ok r"
  using length_map [of to_ascii_lowercase v]
  by (auto simp: standard_range_formats_def range_format_try_from_def check_range_format_def check_folded_iff
      simp del: length_map)

lemma range_format_other:
  "lower v \<notin> set (map range_format_as_str standard_range_formats) \<Longrightarrow>
   range_format_try_from v = range_format_extension v"
  by (simp add: standard_range_formats_def range_format_try_from_def check_range_format_def check_folded_iff)

lemma range_format_extension_Ok:
  "range_format_extension v = Ok r \<longleftrightarrow> r = RangeExtension (lower v) \<and> is_token v"
  by (auto simp: range_format_extension_def is_token_iff)

lemma range_format_try_from_Ok:
  assumes "range_format_try_from v = Ok r"
  shows "range_format_valid r \<and> range_format_as_str r = lower v"
proof (cases "lower v \<in> set (map range_format_as_str standard_range_formats)")
  case True
  then obtain r' where r': "r' \<in> set standard_range_formats" "lower v = range_format_as_str r'" by auto
  with assms have "r = r'" using range_format_standard by fastforce
  with r' show ?thesis by (auto simp: standard_range_formats_def)
next
  case False
  with assms show ?thesis by (simp add: range_format_other range_format_extension_Ok)
qed

lemma range_format_parse_print:
  assumes "range_format_valid r"
  shows "range_format_try_from (range_format_as_str r) = Ok r"
proof (cases r)
  case (RangeExtension s)
  with assms show ?thesis by (simp add: range_format_other range_format_extension_Ok)
next
qed (rule range_format_standard; simp add: standard_range_formats_def byte_simps)+

lemma range_format_token: "range_format_valid r \<Longrightarrow> is_token (range_format_as_str r)"
proof (cases r)
  case (RangeExtension s)
  then show "range_format_valid r \<Longrightarrow> ?thesis" by simp
qed (simp_all, code_simp+)

interpretation range_formats: token_list range_format_as_str range_format_try_from range_format_valid
proof unfold_locales
  fix r v
  show "range_format_try_from (range_format_as_str r) = Ok r" if "range_format_valid r"
    using that by (rule range_format_parse_print)
  show "range_format_valid r" if "range_format_try_from v = Ok r"
    using range_format_try_from_Ok [OF that] by simp
  show "eq_ignore_ascii_case (range_format_as_str r) v" if "range_format_try_from v = Ok r"
    using range_format_try_from_Ok [OF that] by (simp add: eq_ignore_ascii_case_def)
qed (rule range_format_token)

subsection \<open>Properties\<close>

text \<open>
  What decodes is what is written: a decoded header has exactly the formats that the comma
  separated parts of its values parse to, each with its surrounding blanks trimmed off, and all of
  them are proper formats; encoding it and decoding again gives the same formats in the same order.
\<close>

theorem accept_ranges_decode_exact:
  assumes "linked_set_laws L" "accept_ranges_decode L values = Ok (Some s)"
  shows "set (set_iter L s) = {x. \<exists>v \<in> set values. \<exists>part \<in> set (split_on (CHR '','') (value_as_str v)).
        range_format_try_from (trim_whitespace part) = Ok x}
    \<and> list_all range_format_valid (set_iter L s)
    \<and> (set_iter L s = [] \<or> (\<exists>s'. accept_ranges_decode L (accept_ranges_encode L s) = Ok (Some s')
        \<and> set_iter L s' = set_iter L s))"
proof -
  from assms(2) have "insert_values L range_format_try_from values (set_new L) = Ok s"
    by (auto simp: accept_ranges_decode_def token_list_decode_def split: sum.splits if_splits)
  note elements = insert_values_elements [OF assms(1) this]
  have valid: "\<forall>x \<in> set (set_iter L s). range_format_valid x"
    using range_formats.decode_valid [OF assms(1)] assms(2) by (simp add: accept_ranges_decode_def)
  then show ?thesis
    using elements range_formats.decode_encode [OF assms(1) valid] linked_set_lawsD(1) [OF assms(1)]
    by (auto simp: accept_ranges_decode_def accept_ranges_encode_def list_all_iff)
qed

lemma accept_ranges_decode_exact_witness:
  "\<exists>s. accept_ranges_decode list_set [HeaderValue ''NPT , smpte-25'', HeaderValue ''npt,x''] = Ok (Some s)
    \<and> set (set_iter list_set s) = {NPT, SMPTE25, RangeExtension ''x''}
    \<and> list_all range_format_valid (set_iter list_set s)"
proof -
  have dec: "accept_ranges_decode list_set [HeaderValue ''NPT , smpte-25'', HeaderValue ''npt,x'']
      = Ok (Some [SMPTE25, NPT, RangeExtension ''x''])" by code_simp
  moreover have "set_iter list_set [SMPTE25, NPT, RangeExtension ''x''] = [SMPTE25, NPT, RangeExtension ''x'']"
    by code_simp
  ultimately show ?thesis using accept_ranges_decode_exact [OF list_set_laws dec] by auto
qed

end
