(* ===== verification/SessionHeader.thy ===== *)
theory SessionHeader
  imports Split CSeq
begin

text \<open>
  Session identifiers (\<^verbatim>\<open>rtsp-2/src/session.rs\<close>) and the header that carries one
  (\<^verbatim>\<open>rtsp-2/src/header/types/session.rs\<close>). A \<open>Duration\<close> is its number of nanoseconds, and
  so is an instant of the third-party \<open>chrono\<close>, of which the program only takes differences.
\<close>

subsection \<open>Session identifiers\<close>

datatype SessionID = SessionID (session_id_as_str: bytes)

datatype SessionIDError = SessionIDInvalidCharacter | SessionIDTooLong | SessionIDTooShort

definition DEFAULT_SESSION_TIMEOUT :: nat where "DEFAULT_SESSION_TIMEOUT = 60 * 1000000000"

definition MAX_SESSION_TIMEOUT :: nat where "MAX_SESSION_TIMEOUT = 9999999999999999999"

definition SESSION_ID_ALPHABET :: bytes where
  "SESSION_ID_ALPHABET = ''$-_.+0123456789abcdefghijklmnopqrstuvwxyzABCDEFGHIJKLMNOPQRSTUVWXYZ''"

definition SESSION_ID_GENERATED_LENGTH :: nat where "SESSION_ID_GENERATED_LENGTH = 22"

text \<open>The random choices are an argument: the index that each call of \<open>choose\<close> picks.\<close>

definition session_id_random :: "(nat \<Rightarrow> nat) \<Rightarrow> SessionID" where
  "session_id_random draw =
     SessionID (map (\<lambda>i. SESSION_ID_ALPHABET ! draw i) [0..<SESSION_ID_GENERATED_LENGTH])"

text \<open>On ASCII bytes \<open>char::is_alphanumeric\<close> is the test for letters and digits.\<close>

definition is_ascii_alphanumeric :: "byte \<Rightarrow> bool" where
  "is_ascii_alphanumeric b \<longleftrightarrow>
     (48 \<le> u8 b \<and> u8 b \<le> 57) \<or> (65 \<le> u8 b \<and> u8 b \<le> 90) \<or> (97 \<le> u8 b \<and> u8 b \<le> 122)"

fun session_id_loop :: "bytes \<Rightarrow> SessionIDError + unit" where
  "session_id_loop [] = Ok ()"
| "session_id_loop (b # bs) =
     (if \<not> is_ascii b \<or> (\<not> is_ascii_alphanumeric b \<and> b \<noteq> CHR ''$'' \<and> b \<noteq> CHR ''-''
          \<and> b \<noteq> CHR ''_'' \<and> b \<noteq> CHR ''.'' \<and> b \<noteq> CHR ''+'')
      then Err SessionIDInvalidCharacter else session_id_loop bs)"

definition session_id_try_from :: "bytes \<Rightarrow> SessionIDError + SessionID" where
  "session_id_try_from value =
     (if length value < 8 then Err SessionIDTooShort
      else if length value > 256 then Err SessionIDTooLong
      else case session_id_loop value of Err e \<Rightarrow> Err e | Ok _ \<Rightarrow> Ok (SessionID value))"

text \<open>The default methods of the trait \<open>Session\<close>, at the instant \<open>now\<close>.\<close>

definition session_is_expired :: "int \<Rightarrow> int \<Rightarrow> bool" where
  "session_is_expired now expire_time \<longleftrightarrow> now > expire_time"

definition session_data_timeout :: "int \<Rightarrow> int \<Rightarrow> nat option" where
  "session_data_timeout now expire_time =
     (if expire_time - now \<ge> 0 then Some (nat (expire_time - now)) else None)"

subsection \<open>The header\<close>

record session_header =
  session_id :: SessionID
  session_timeout :: "nat option"

datatype TimeoutError = TimeoutEmpty | TimeoutExceedsMaximumLength | TimeoutInvalidDigit | TimeoutOverflow

datatype SessionError =
    SessionInvalidParameterSyntax | SessionMoreThanOneHeader | SessionErrorID SessionIDError
  | SessionErrorTimeout TimeoutError

definition as_secs :: "nat \<Rightarrow> nat" where "as_secs duration = duration div 1000000000"

definition from_secs :: "nat \<Rightarrow> nat" where "from_secs secs = secs * 1000000000"

definition session_from_data_with_timeout :: "SessionID \<Rightarrow> int \<Rightarrow> int \<Rightarrow> session_header" where
  "session_from_data_with_timeout ident expire_time now =
     \<lparr>session_id = ident, session_timeout = session_data_timeout now expire_time\<rparr>"

definition session_from_data_without_timeout :: "SessionID \<Rightarrow> session_header" where
  "session_from_data_without_timeout ident = \<lparr>session_id = ident, session_timeout = None\<rparr>"

definition session_without_timeout :: "bytes \<Rightarrow> SessionIDError + session_header" where
  "session_without_timeout ident =
     (case session_id_try_from ident of Err e \<Rightarrow> Err e | Ok ident \<Rightarrow> Ok \<lparr>session_id = ident, session_timeout = None\<rparr>)"

definition session_with_timeout :: "bytes \<Rightarrow> nat \<Rightarrow> SessionIDError + session_header" where
  "session_with_timeout ident timeout =
     (case session_id_try_from ident of
        Err e \<Rightarrow> Err e | Ok ident \<Rightarrow> Ok \<lparr>session_id = ident, session_timeout = Some timeout\<rparr>)"

fun timeout_int_error :: "int_error_kind \<Rightarrow> TimeoutError" where
  "timeout_int_error IntEmpty = TimeoutEmpty"
| "timeout_int_error IntInvalidDigit = TimeoutInvalidDigit"
| "timeout_int_error IntPosOverflow = TimeoutOverflow"

text \<open>
  \<open>to_lowercase\<close> folds all of Unicode, but no character outside ASCII has a letter of \<open>timeout\<close> as its
  lower case, so the comparison is the one on ASCII.
\<close>

definition session_decode_parameter :: "bytes \<Rightarrow> SessionError + nat" where
  "session_decode_parameter parameter =
     (case splitn_2 (CHR ''='') parameter of
        (name, None) \<Rightarrow> Err SessionInvalidParameterSyntax
      | (name, Some timeout) \<Rightarrow>
          if lower (trim_whitespace name) \<noteq> ''timeout'' then Err SessionInvalidParameterSyntax
          else case parse_uint u64_max (trim_whitespace timeout) of
            Err error \<Rightarrow> Err (SessionErrorTimeout (timeout_int_error error))
          | Ok delta \<Rightarrow>
              if delta > MAX_SESSION_TIMEOUT then Err (SessionErrorTimeout TimeoutExceedsMaximumLength)
              else Ok (from_secs delta))"

definition session_decode :: "HeaderValue list \<Rightarrow> SessionError + session_header option" where
  "session_decode values =
     (case values of
        [] \<Rightarrow> Ok None
      | value # rest \<Rightarrow>
          if rest \<noteq> [] then Err SessionMoreThanOneHeader
          else (case splitn_2 (CHR '';'') (value_as_str value) of
            (part, parameter) \<Rightarrow>
              (case session_id_try_from (trim_whitespace part) of
                 Err e \<Rightarrow> Err (SessionErrorID e)
               | Ok ident \<Rightarrow>
                   (case parameter of
                      None \<Rightarrow> Ok (Some \<lparr>session_id = ident, session_timeout = None\<rparr>)
                    | Some parameter \<Rightarrow>
                        (case session_decode_parameter parameter of
                           Err e \<Rightarrow> Err e
                         | Ok timeout \<Rightarrow> Ok (Some \<lparr>session_id = ident, session_timeout = Some timeout\<rparr>))))))"

definition session_encode :: "session_header \<Rightarrow> HeaderValue list" where
  "session_encode session =
     (let ident = session_id_as_str (session_id session);
          value = (case session_timeout session of
            Some timeout \<Rightarrow>
              if as_secs timeout = as_secs DEFAULT_SESSION_TIMEOUT then ident
              else ident @ ''; timeout = '' @ decimal (as_secs timeout)
          | None \<Rightarrow> ident)
      in [from_string_unchecked value])"

definition session_header_name :: HeaderName where "session_header_name = HeaderSession"

subsection \<open>Facts\<close>

definition session_id_char :: "byte \<Rightarrow> bool" where
  "session_id_char b \<longleftrightarrow> is_ascii_alphanumeric b \<or> b \<in> set ''$-_.+''"

definition session_id_valid :: "SessionID \<Rightarrow> bool" where
  "session_id_valid s \<longleftrightarrow> 8 \<le> length (session_id_as_str s) \<and> length (session_id_as_str s) \<le> 256
     \<and> list_all session_id_char (session_id_as_str s)"

lemma session_id_char_token: "session_id_char b \<Longrightarrow> token_char b"
  by (auto simp: session_id_char_def is_ascii_alphanumeric_def token_char_def token_value_def)

lemma session_id_check:
  "\<not> is_ascii b \<or> (\<not> is_ascii_alphanumeric b \<and> b \<noteq> CHR ''$'' \<and> b \<noteq> CHR ''-''
     \<and> b \<noteq> CHR ''_'' \<and> b \<noteq> CHR ''.'' \<and> b \<noteq> CHR ''+'') \<longleftrightarrow> \<not> session_id_char b"
proof -
  have "session_id_char b \<longleftrightarrow> is_ascii_alphanumeric b \<or> b = CHR ''$'' \<or> b = CHR ''-'' \<or> b = CHR ''_''
      \<or> b = CHR ''.'' \<or> b = CHR ''+''"
    by (simp add: session_id_char_def)
  then show ?thesis using token_char_ascii [OF session_id_char_token, of b] by blast
qed

lemma session_id_loop_Ok: "session_id_loop s = Ok () \<longleftrightarrow> list_all session_id_char s"
proof (induction s)
  case (Cons b bs)
  then show ?case
    unfolding session_id_loop.simps session_id_check by (cases "session_id_char b") simp_all
qed simp

lemma session_id_try_from_Ok: "session_id_try_from v = Ok s \<longleftrightarrow> s = SessionID v \<and> session_id_valid s"
  using session_id_loop_Ok [of v]
  by (auto simp: session_id_try_from_def session_id_valid_def split: sum.splits)

text \<open>A generated identifier is an identifier.\<close>

lemma session_id_random_valid:
  assumes "\<And>i. draw i < length SESSION_ID_ALPHABET"
  shows "session_id_valid (session_id_random draw)"
proof -
  have "list_all session_id_char SESSION_ID_ALPHABET" by code_simp
  then show ?thesis
    using assms by (simp add: session_id_valid_def session_id_random_def SESSION_ID_GENERATED_LENGTH_def
        list_all_length)
qed

interpretation sid: wire_token session_id_as_str session_id_try_from session_id_valid
  by unfold_locales (auto simp: session_id_try_from_Ok)

lemma session_id_no_delims:
  assumes "session_id_valid s"
  shows "CHR '';'' \<notin> set (session_id_as_str s)" "trim_whitespace (session_id_as_str s) = session_id_as_str s"
proof -
  have chars: "c \<in> set (session_id_as_str s) \<Longrightarrow> session_id_char c" for c
    using assms by (auto simp: session_id_valid_def list_all_iff)
  have "\<not> token_char (CHR '';'')" by code_simp
  then show "CHR '';'' \<notin> set (session_id_as_str s)"
    using chars session_id_char_token by metis
  have "session_id_as_str s \<noteq> []" using assms by (auto simp: session_id_valid_def)
  then have "is_token (session_id_as_str s)"
    using chars session_id_char_token by (simp add: is_token_iff)
  then show "trim_whitespace (session_id_as_str s) = session_id_as_str s" by (rule trim_token)
qed

lemma decimal_token: "is_token (decimal n)"
  using decimal_digits [of _ n] by (auto simp: is_token_iff token_char_def token_value_def)

lemma as_secs_from_secs [simp]: "as_secs (from_secs n) = n"
  by (simp add: as_secs_def from_secs_def)

lemma session_decode_parameter_encoded:
  assumes "secs \<le> u64_max"
  shows "session_decode_parameter ('' timeout = '' @ decimal secs) =
    (if secs > MAX_SESSION_TIMEOUT then Err (SessionErrorTimeout TimeoutExceedsMaximumLength) else Ok (from_secs secs))"
proof -
  have "splitn_2 (CHR ''='') ('' timeout '' @ CHR ''='' # SP # decimal secs) = ('' timeout '', Some (SP # decimal secs))"
    by (rule splitn_2_append) simp
  moreover have "lower (trim_whitespace '' timeout '') = ''timeout''" by code_simp
  ultimately show ?thesis
    using trim_token(2) [OF decimal_token, of secs] parse_uint_decimal [OF assms]
    by (simp add: session_decode_parameter_def SP_def)
qed

text \<open>What is left of a timeout on the wire: whole seconds, and nothing for the default.\<close>

definition wire_timeout :: "nat option \<Rightarrow> nat option" where
  "wire_timeout timeout =
     (case timeout of
        None \<Rightarrow> None
      | Some t \<Rightarrow> if as_secs t = as_secs DEFAULT_SESSION_TIMEOUT then None else Some (from_secs (as_secs t)))"

lemma wire_timeout_idem: "wire_timeout (wire_timeout t) = wire_timeout t"
  by (auto simp: wire_timeout_def split: option.split)

lemma session_decode_plain:
  "session_id_valid i \<Longrightarrow>
   session_decode [HeaderValue (session_id_as_str i)] = Ok (Some \<lparr>session_id = i, session_timeout = None\<rparr>)"
  using session_id_no_delims [of i] sid.parse_print [of i] by (simp add: session_decode_def splitn_2_free)

lemma session_decode_timeout:
  assumes "session_id_valid i" "secs \<le> u64_max"
  shows "session_decode [HeaderValue (session_id_as_str i @ ''; timeout = '' @ decimal secs)] =
    (if secs > MAX_SESSION_TIMEOUT then Err (SessionErrorTimeout TimeoutExceedsMaximumLength)
     else Ok (Some \<lparr>session_id = i, session_timeout = Some (from_secs secs)\<rparr>))"
proof -
  have "splitn_2 (CHR '';'') (session_id_as_str i @ CHR '';'' # ('' timeout = '' @ decimal secs))
      = (session_id_as_str i, Some ('' timeout = '' @ decimal secs))"
    using session_id_no_delims(1) [OF assms(1)] by (rule splitn_2_append)
  then show ?thesis
    using session_id_no_delims(2) [OF assms(1)] sid.parse_print [OF assms(1)]
      session_decode_parameter_encoded [OF assms(2)]
    by (simp add: session_decode_def)
qed

lemma session_decode_cases:
  assumes "session_decode values = Ok (Some s)"
  shows "session_id_valid (session_id s) \<and> (case session_timeout s of None \<Rightarrow> True
    | Some t \<Rightarrow> \<exists>secs \<le> MAX_SESSION_TIMEOUT. t = from_secs secs)"
  using assms
  by (auto simp: session_decode_def session_decode_parameter_def session_id_try_from_Ok not_less
      split: list.splits if_splits prod.splits sum.splits option.splits)

subsection \<open>Properties\<close>

text \<open>
  C34. A session header that is encoded decodes to the same identifier, and to its timeout in whole
  seconds, where the default timeout is not written and comes back as none. A timeout above the limit
  of the format is written but rejected when it is read. What decodes is a proper identifier with a
  timeout within the limit, so encoding it always gives a header that decodes.
\<close>

theorem session_roundtrip:
  assumes "session_id_valid (session_id s)" "\<And>t. session_timeout s = Some t \<Longrightarrow> as_secs t \<le> u64_max"
    and "session_decode values = Ok (Some d)"
  shows "session_decode (session_encode s) =
      (if \<exists>t. wire_timeout (session_timeout s) = Some t \<and> as_secs t > MAX_SESSION_TIMEOUT
       then Err (SessionErrorTimeout TimeoutExceedsMaximumLength)
       else Ok (Some \<lparr>session_id = session_id s, session_timeout = wire_timeout (session_timeout s)\<rparr>))
    \<and> session_decode (session_encode d) =
        Ok (Some \<lparr>session_id = session_id d, session_timeout = wire_timeout (session_timeout d)\<rparr>)"
proof -
  have enc: "session_decode (session_encode s) =
      (if \<exists>t. wire_timeout (session_timeout s) = Some t \<and> as_secs t > MAX_SESSION_TIMEOUT
       then Err (SessionErrorTimeout TimeoutExceedsMaximumLength)
       else Ok (Some \<lparr>session_id = session_id s, session_timeout = wire_timeout (session_timeout s)\<rparr>))"
    if "session_id_valid (session_id s)" "\<And>t. session_timeout s = Some t \<Longrightarrow> as_secs t \<le> u64_max" for s
  proof (cases "session_timeout s")
    case None
    then show ?thesis
      using session_decode_plain [OF that(1)] by (simp add: session_encode_def from_string_unchecked_def wire_timeout_def)
  next
    case (Some t)
    show ?thesis
    proof (cases "as_secs t = as_secs DEFAULT_SESSION_TIMEOUT")
      case True
      then show ?thesis
        using session_decode_plain [OF that(1)] Some
        by (simp add: session_encode_def from_string_unchecked_def wire_timeout_def)
    next
      case False
      then show ?thesis
        using session_decode_timeout [OF that(1) that(2) [OF Some]] Some
        by (simp add: session_encode_def from_string_unchecked_def wire_timeout_def)
    qed
  qed
  have small: "MAX_SESSION_TIMEOUT \<le> u64_max" by (simp add: MAX_SESSION_TIMEOUT_def)
  note d = session_decode_cases [OF assms(3)]
  have t: "as_secs t \<le> MAX_SESSION_TIMEOUT \<and> (\<exists>n. t = from_secs n)" if "session_timeout d = Some t" for t
    using d that by auto
  then have "\<not> (\<exists>t. wire_timeout (session_timeout d) = Some t \<and> as_secs t > MAX_SESSION_TIMEOUT)"
    by (cases "session_timeout d") (auto simp: wire_timeout_def not_less)
  moreover have "as_secs t \<le> u64_max" if "session_timeout d = Some t" for t
    using t [OF that] small by linarith
  ultimately have "session_decode (session_encode d) =
        Ok (Some \<lparr>session_id = session_id d, session_timeout = wire_timeout (session_timeout d)\<rparr>)"
    using enc [OF conjunct1 [OF d]] by (simp only: if_False)
  with enc [OF assms(1,2)] show ?thesis by (rule conjI)
qed

lemma session_roundtrip_witness:
  "session_decode (session_encode \<lparr>session_id = SessionID ''QKyjN8nt2WqbWw4tIYof52'', session_timeout = Some 180500000000\<rparr>)
    = Ok (Some \<lparr>session_id = SessionID ''QKyjN8nt2WqbWw4tIYof52'', session_timeout = Some 180000000000\<rparr>)"
proof -
  let ?s = "\<lparr>session_id = SessionID ''QKyjN8nt2WqbWw4tIYof52'', session_timeout = Some 180500000000\<rparr>"
  have "session_id_valid (SessionID ''QKyjN8nt2WqbWw4tIYof52'')" by code_simp
  moreover have "session_decode [HeaderValue ''a.b_c+d$'']
      = Ok (Some \<lparr>session_id = SessionID ''a.b_c+d$'', session_timeout = None\<rparr>)" by code_simp
  ultimately show ?thesis
    using session_roundtrip [of ?s] by (simp add: wire_timeout_def as_secs_def from_secs_def
        DEFAULT_SESSION_TIMEOUT_def MAX_SESSION_TIMEOUT_def)
qed

end
