(* ===== verification/ConnectionService.thy ===== *)
theory ConnectionService
  imports Handler Public AcceptRanges SessionHeader
begin

text \<open>
  What the server answers: the service of a connection and the sessions of
  \<^verbatim>\<open>rtsp-2/src/server.rs\<close>. The mutexes are never poisoned and held for one call each, so that a shared
  session is an index into the sessions of the state. Every reading of the clock is the next value of
  \<open>cs_clock\<close>; the arithmetic of the third-party \<open>chrono\<close> is the parameter \<open>K\<close>, the sets of
  \<open>linked_hash_set\<close> are \<open>L\<close> and \<open>R\<close>. The option around a result is a panic.
\<close>

definition SUPPORTED_METHODS :: "Method list" where
  "SUPPORTED_METHODS = [Options, Setup]"

record 'dt server_session =
  ss_expire_time :: 'dt
  ss_id :: SessionID

record ('dt, 'd) clock_ops =
  clock_from_std :: "Duration \<Rightarrow> 'd option"
  clock_checked_add :: "'dt \<Rightarrow> 'd \<Rightarrow> 'dt option"

text \<open>The random choices of the identifier are the argument \<open>draw\<close>, as for \<^const>\<open>session_id_random\<close>.\<close>

definition server_session_with_timeout :: "'dt \<Rightarrow> (nat \<Rightarrow> nat) \<Rightarrow> 'dt server_session" where
  "server_session_with_timeout expire_time draw =
     \<lparr>ss_expire_time = expire_time, ss_id = session_id_random draw\<rparr>"

definition server_session_new :: "('dt, 'd) clock_ops \<Rightarrow> 'dt \<Rightarrow> (nat \<Rightarrow> nat) \<Rightarrow> 'dt server_session option" where
  "server_session_new K now draw =
     (case clock_from_std K DEFAULT_SESSION_TIMEOUT of
        None \<Rightarrow> None
      | Some timeout \<Rightarrow>
          (case clock_checked_add K now timeout of
             None \<Rightarrow> None
           | Some expire_time \<Rightarrow> Some (server_session_with_timeout expire_time draw)))"

definition set_expire_time :: "'dt \<Rightarrow> 'dt server_session \<Rightarrow> 'dt server_session" where
  "set_expire_time expire_time session = session\<lparr>ss_expire_time := expire_time\<rparr>"

definition set_timeout ::
  "('dt, 'd) clock_ops \<Rightarrow> 'dt \<Rightarrow> Duration \<Rightarrow> 'dt server_session \<Rightarrow> unit + 'dt server_session" where
  "set_timeout K now timeout session =
     (case clock_from_std K timeout of
        None \<Rightarrow> Err ()
      | Some timeout \<Rightarrow>
          (case clock_checked_add K now timeout of
             None \<Rightarrow> Err ()
           | Some expire_time \<Rightarrow> Ok (session\<lparr>ss_expire_time := expire_time\<rparr>)))"

definition touch :: "('dt, 'd) clock_ops \<Rightarrow> 'dt \<Rightarrow> 'dt server_session \<Rightarrow> 'dt server_session option" where
  "touch K now session =
     (case set_timeout K now DEFAULT_SESSION_TIMEOUT session of Err _ \<Rightarrow> None | Ok session \<Rightarrow> Some session)"

subsection \<open>The service\<close>

record 'dt connection_service =
  cs_session :: "nat option"
  cs_sessions :: "'dt server_session list"
  cs_clock :: "nat \<Rightarrow> 'dt"
  cs_reads :: nat

definition touch_session :: "('dt, 'd) clock_ops \<Rightarrow> 'dt connection_service \<Rightarrow> 'dt connection_service option" where
  "touch_session K s =
     (case cs_session s of
        None \<Rightarrow> Some s
      | Some i \<Rightarrow>
          (case touch K (cs_clock s (cs_reads s)) (cs_sessions s ! i) of
             None \<Rightarrow> None
           | Some session \<Rightarrow> Some (s\<lparr>cs_sessions := (cs_sessions s)[i := session], cs_reads := Suc (cs_reads s)\<rparr>)))"

text \<open>\<open>build().unwrap()\<close> on a builder that has been given an empty body.\<close>

definition built_response :: "(unit, 'm) response_builder \<Rightarrow> (bytes, 'm) Response option" where
  "built_response b =
     (case response_build (response_with_body [] b) of Some (Ok response) \<Rightarrow> Some response | _ \<Rightarrow> None)"

definition supported_methods_set :: "('s, Method) linked_set_ops \<Rightarrow> 's" where
  "supported_methods_set L = foldl (set_insert L) (set_new L) SUPPORTED_METHODS"

definition options_response ::
  "'m header_map_ops \<Rightarrow> ('s, Method) linked_set_ops \<Rightarrow> bool \<Rightarrow> (bytes, 'm) Response option" where
  "options_response M L asterisk =
     (if asterisk then
        built_response (response_typed_header M public_header_name (public_encode L) (supported_methods_set L)
          (response_builder_new M))
      else built_response (response_set_status_code NotFound (response_builder_new M)))"

definition handle_method_options ::
  "'m header_map_ops \<Rightarrow> ('s, Method) linked_set_ops \<Rightarrow> ('dt, 'd) clock_ops \<Rightarrow> (bytes, 'm, 'u) Request
     \<Rightarrow> 'dt connection_service \<Rightarrow> ('dt connection_service \<times> (bytes, 'm) Response) option"
where
  "handle_method_options M L K request s =
     (case touch_session K s of
        None \<Rightarrow> None
      | Some s \<Rightarrow>
          (let request = request\<lparr>req_body := []\<rparr>
           in map_option (\<lambda>response. (s, response)) (options_response M L (uri_is_asterisk (req_uri request)))))"

definition setup_response ::
  "'m header_map_ops \<Rightarrow> ('r, RangeFormat) linked_set_ops \<Rightarrow> 'm \<Rightarrow> (bytes, 'm) Response option" where
  "setup_response M R headers =
     (case typed_try_get M accept_ranges_header_name (accept_ranges_decode R) headers of
        Ok _ \<Rightarrow>
          built_response
            (response_typed_header M accept_ranges_header_name (accept_ranges_encode R) (accept_ranges_new R)
              (response_set_status_code HeaderFieldNotValidForResource (response_builder_new M)))
      | Err _ \<Rightarrow> BAD_REQUEST_RESPONSE M)"

definition handle_method_setup ::
  "'m header_map_ops \<Rightarrow> ('r, RangeFormat) linked_set_ops \<Rightarrow> (bytes, 'm, 'u) Request
     \<Rightarrow> 'dt connection_service \<Rightarrow> ('dt connection_service \<times> (bytes, 'm) Response) option"
where
  "handle_method_setup M R request s =
     (let request = request\<lparr>req_body := []\<rparr>
      in map_option (\<lambda>response. (s, response)) (setup_response M R (req_headers request)))"

definition connection_service_call ::
  "'m header_map_ops \<Rightarrow> ('s, Method) linked_set_ops \<Rightarrow> ('r, RangeFormat) linked_set_ops \<Rightarrow> 'u uriparse_ops
     \<Rightarrow> ('dt, 'd) clock_ops \<Rightarrow> 'dt connection_service \<Rightarrow> (bytes, 'm, 'u) Request
     \<Rightarrow> ('dt connection_service \<times> (bytes, 'm) Response) option"
where
  "connection_service_call M L R U K s request =
     (case uri_normalize U (req_uri request) of
        None \<Rightarrow> None
      | Some uri \<Rightarrow>
          (let request = request\<lparr>req_uri := uri\<rparr>
           in case req_method request of
                Options \<Rightarrow> handle_method_options M L K request s
              | Setup \<Rightarrow> handle_method_setup M R request s
              | _ \<Rightarrow> map_option (\<lambda>response. (s, response)) (NOT_IMPLEMENTED_RESPONSE M)))"

text \<open>
  The service as the request handler uses it: its futures are ready at once. A future \<^const>\<open>None\<close>
  stands for a call that panicked; the properties show that there is none.
\<close>

definition server_service ::
  "'m header_map_ops \<Rightarrow> ('s, Method) linked_set_ops \<Rightarrow> ('r, RangeFormat) linked_set_ops \<Rightarrow> 'u uriparse_ops
     \<Rightarrow> ('dt, 'd) clock_ops \<Rightarrow> ('dt connection_service, (bytes, 'm) Response option, 'm, 'u) service_ops"
where
  "server_service M L R U K =
     \<lparr>service_call = (\<lambda>s request.
        (case connection_service_call M L R U K s request of
           Some (s, response) \<Rightarrow> (s, Some response) | None \<Rightarrow> (s, None))),
      service_future_poll = (\<lambda>future.
        (future, case future of Some response \<Rightarrow> Ok (Ready response) | None \<Rightarrow> Ok NotReady))\<rparr>"

subsection \<open>Facts\<close>

text \<open>The clock never comes within the default timeout of the end of its range.\<close>

definition clock_in_range :: "('dt, 'd) clock_ops \<Rightarrow> (nat \<Rightarrow> 'dt) \<Rightarrow> bool" where
  "clock_in_range K clock \<longleftrightarrow>
     (case clock_from_std K DEFAULT_SESSION_TIMEOUT of
        None \<Rightarrow> False | Some timeout \<Rightarrow> \<forall>n. clock_checked_add K (clock n) timeout \<noteq> None)"

text \<open>What a call does to the sessions: only \<open>OPTIONS\<close> renews the one of the connection.\<close>

definition renewed :: "('dt, 'd) clock_ops \<Rightarrow> 'dt connection_service \<Rightarrow> 'dt connection_service" where
  "renewed K s = (case touch_session K s of None \<Rightarrow> s | Some s' \<Rightarrow> s')"

lemma touch_session_some:
  "clock_in_range K (cs_clock s) \<Longrightarrow> touch_session K s = Some (renewed K s)"
proof -
  assume range: "clock_in_range K (cs_clock s)"
  have "touch K (cs_clock s n) x \<noteq> None" for n x
  proof -
    obtain d where d: "clock_from_std K DEFAULT_SESSION_TIMEOUT = Some d" "\<forall>n. clock_checked_add K (cs_clock s n) d \<noteq> None"
      using range by (auto simp: clock_in_range_def split: option.splits)
    from d(2) obtain t where "clock_checked_add K (cs_clock s n) d = Some t" by blast
    with d(1) show ?thesis by (simp add: touch_def set_timeout_def)
  qed
  then show ?thesis
    by (auto simp: renewed_def touch_session_def split: option.split simp del: not_None_eq)
qed

lemma renewed_clock [simp]: "cs_clock (renewed K s) = cs_clock s"
  by (auto simp: renewed_def touch_session_def split: option.splits)

lemma built_response_some:
  "\<not> is_status_extension (rsb_status_code b) \<Longrightarrow> rsb_version b = Rtsp2_0 \<Longrightarrow>
    \<exists>r. built_response b = Some r \<and> resp_status_code r = rsb_status_code b \<and> resp_headers r = rsb_headers b
      \<and> resp_body r = []"
proof -
  assume standard: "\<not> is_status_extension (rsb_status_code b)" and version: "rsb_version b = Rtsp2_0"
  obtain p where "canonical_reason (rsb_status_code b) = Some p"
    using canonical_phrase_standard [OF standard] by (auto simp: canonical_reason_def)
  with standard version show ?thesis
    by (simp add: built_response_def response_build_eq built_phrase_def response_with_body_def)
qed

lemma options_response_some:
  "\<exists>r. options_response M L asterisk = Some r \<and> resp_body r = []
    \<and> resp_status_code r = (if asterisk then OK else NotFound)
    \<and> resp_headers r = (if asterisk then typed_insert M public_header_name (public_encode L) (supported_methods_set L) (HeaderMap.map_default M)
        else HeaderMap.map_default M)"
  using built_response_some [of "response_typed_header M public_header_name (public_encode L) (supported_methods_set L) (response_builder_new M)"]
    built_response_some [of "response_set_status_code NotFound (response_builder_new M)"]
  by (auto simp: options_response_def response_typed_header_def response_set_status_code_def response_builder_new_def
      status_default_def version_default_def is_status_extension_def)

lemma setup_response_some:
  "\<exists>r. setup_response M R headers = Some r \<and>
    (case typed_try_get M accept_ranges_header_name (accept_ranges_decode R) headers of
       Err _ \<Rightarrow> resp_status_code r = BadRequest
     | Ok _ \<Rightarrow> resp_status_code r = HeaderFieldNotValidForResource
         \<and> resp_headers r = typed_insert M accept_ranges_header_name (accept_ranges_encode R) (accept_ranges_new R) (HeaderMap.map_default M))"
  using built_response_some [of "response_typed_header M accept_ranges_header_name (accept_ranges_encode R) (accept_ranges_new R)
      (response_set_status_code HeaderFieldNotValidForResource (response_builder_new M))"] canned_total(1) [of M]
  by (auto simp: setup_response_def response_typed_header_def response_set_status_code_def response_builder_new_def
      version_default_def is_status_extension_def split: sum.split)

lemma uri_normalize_asterisk: "uri_normalize U u = Some u' \<Longrightarrow> uri_is_asterisk u' \<longleftrightarrow> uri_is_asterisk u"
  by (auto simp: uri_normalize_def uri_is_asterisk_def Let_def split: option.splits if_splits)

text \<open>The answers as a function of the request alone.\<close>

definition service_answer ::
  "'m header_map_ops \<Rightarrow> ('s, Method) linked_set_ops \<Rightarrow> ('r, RangeFormat) linked_set_ops
     \<Rightarrow> (bytes, 'm, 'u) Request \<Rightarrow> (bytes, 'm) Response"
where
  "service_answer M L R request =
     the (case req_method request of
            Options \<Rightarrow> options_response M L (uri_is_asterisk (req_uri request))
          | Setup \<Rightarrow> setup_response M R (req_headers request)
          | _ \<Rightarrow> NOT_IMPLEMENTED_RESPONSE M)"

lemma connection_service_call_some:
  assumes "uri_normalize_laws U" "uri_valid U (req_uri request)" "clock_in_range K (cs_clock s)"
  shows "connection_service_call M L R U K s request =
    Some (if req_method request = Options then renewed K s else s, service_answer M L R request)"
proof -
  obtain uri where uri: "uri_normalize U (req_uri request) = Some uri"
    using uri_normalize_result [OF assms(1,2)] by blast
  have same: "uri_is_asterisk uri = uri_is_asterisk (req_uri request)" using uri by (rule uri_normalize_asterisk)
  obtain r where "options_response M L (uri_is_asterisk (req_uri request)) = Some r"
    using options_response_some by blast
  moreover obtain r' where "setup_response M R (req_headers request) = Some r'"
    using setup_response_some [of M R "req_headers request"] by auto
  moreover obtain r'' where "NOT_IMPLEMENTED_RESPONSE M = Some r''"
    using canned_total(4) by blast
  ultimately show ?thesis
    using touch_session_some [OF assms(3)] uri same
    by (simp add: connection_service_call_def service_answer_def handle_method_options_def handle_method_setup_def
        split: Method.split)
qed

lemma supported_methods_iter:
  "linked_set_laws L \<Longrightarrow> set_iter L (supported_methods_set L) = [Options, Setup]"
  by (simp add: supported_methods_set_def SUPPORTED_METHODS_def linked_set_lawsD)

lemma public_of_options:
  assumes "header_map_laws M" "linked_set_laws L"
  shows "\<exists>p. typed_try_get M public_header_name (public_decode L)
      (typed_insert M public_header_name (public_encode L) (supported_methods_set L) m) = Ok (Some p)
    \<and> set_iter L p = [Options, Setup]"
proof -
  note iter = supported_methods_iter [OF assms(2)]
  have "public_encode L (supported_methods_set L) = [from_string_unchecked ''OPTIONS, SETUP'']"
    unfolding public_encode_def token_list_encode_def iter by code_simp
  moreover have "\<exists>p. public_decode L (public_encode L (supported_methods_set L)) = Ok (Some p) \<and> set_iter L p = [Options, Setup]"
    using methods.decode_encode [OF assms(2), of "supported_methods_set L"] iter
    by (simp add: public_decode_def public_encode_def)
  ultimately show ?thesis by (simp add: typed_try_get_def typed_insert_get_all [OF assms(1)])
qed

lemma empty_accept_ranges_rejected:
  assumes "header_map_laws M" "linked_set_laws R"
  shows "typed_try_get M accept_ranges_header_name (accept_ranges_decode R)
      (typed_insert M accept_ranges_header_name (accept_ranges_encode R) (accept_ranges_new R) m) = Err RangeFormatEmpty"
proof -
  have "accept_ranges_encode R (accept_ranges_new R) = [from_string_unchecked []]"
    using linked_set_lawsD(1) [OF assms(2)]
    by (simp add: accept_ranges_encode_def token_list_encode_def accept_ranges_new_def)
  moreover have "range_format_try_from (trim_whitespace []) = Err RangeFormatEmpty" by code_simp
  ultimately show ?thesis
    by (simp add: typed_try_get_def typed_insert_get_all [OF assms(1)] accept_ranges_decode_def
        token_list_decode_def from_string_unchecked_def)
qed

subsection \<open>The service under the request handler\<close>

text \<open>The answer to a request that reaches the handler: its own checks come first.\<close>

definition server_answer ::
  "'m header_map_ops \<Rightarrow> ('s, Method) linked_set_ops \<Rightarrow> ('r, RangeFormat) linked_set_ops
     \<Rightarrow> (bytes, 'm, 'u) Request \<Rightarrow> (bytes, 'm) Response"
where
  "server_answer M L R request =
     (if uri_scheme (req_uri request) = Some RTSPU then the (NOT_IMPLEMENTED_RESPONSE M)
      else if (case typed_get M content_length_header_name content_length_decode (req_headers request) of
                 Some content_length \<Rightarrow> content_length_value content_length > 0
                   \<and> \<not> map_contains_key M (req_headers request) HeaderContentType
               | None \<Rightarrow> False)
      then the (BAD_REQUEST_RESPONSE M)
      else service_answer M L R request)"

text \<open>A handler in use: its sender is open, and what it services has its answer ready.\<close>

definition prompt ::
  "('dt, 'd) clock_ops \<Rightarrow> ('dt connection_service, (bytes, 'm) Response option, 'h) request_handler \<Rightarrow> bool" where
  "prompt K h \<longleftrightarrow> hd_sender_handle h \<and> clock_in_range K (cs_clock (hd_service h))
     \<and> (case hd_serviced_request h of Some (_, None) \<Rightarrow> False | _ \<Rightarrow> True)"

definition prompt_answer ::
  "'m header_map_ops \<Rightarrow> ('dt connection_service, (bytes, 'm) Response option, 'h) request_handler \<Rightarrow> ('m, 'u) Message list" where
  "prompt_answer M h =
     (case hd_serviced_request h of
        Some (cseq, Some response) \<Rightarrow> [MessageResponse (number_response M cseq response)] | _ \<Rightarrow> [])"

lemma send_response_open:
  assumes "unbounded_laws H" "never_closed H" "hd_sender_handle h"
  obtains channel where "send_response M H cseq response h = h\<lparr>hd_channel := channel\<rparr>"
    "chan_sent H channel = chan_sent H (hd_channel h) @ [MessageResponse (number_response M cseq response)]"
proof -
  obtain channel where channel: "chan_send H (hd_channel h) (MessageResponse (number_response M cseq response)) = (channel, True)"
    using assms(2) by (metis (full_types) never_closed_def prod.collapse)
  then show thesis
    using that [of channel] assms(3) unbounded_lawsD [OF assms(1) channel] by (simp add: send_response_def)
qed

lemma poll_serviced_prompt:
  assumes "unbounded_laws H" "never_closed H" "prompt K h"
  shows "\<exists>h'. poll_serviced_request M H (server_service M L R U K) answers h = Some (h', Ready ())
    \<and> hd_serviced_request h' = None \<and> prompt K h'
    \<and> chan_sent H (hd_channel h') = chan_sent H (hd_channel h) @ prompt_answer M h"
proof (cases "hd_serviced_request h")
  case None
  then show ?thesis using assms(3) by (simp add: poll_serviced_request_def prompt_answer_def)
next
  case (Some serviced)
  then obtain cseq response where h: "hd_serviced_request h = Some (cseq, Some response)"
    using assms(3) by (auto simp: prompt_def split: option.splits)
  have "hd_sender_handle h" using assms(3) by (simp add: prompt_def)
  from send_response_open [OF assms(1,2) this, of M cseq response]
  obtain channel where channel: "send_response M H cseq response h = h\<lparr>hd_channel := channel\<rparr>"
    "chan_sent H channel = chan_sent H (hd_channel h) @ [MessageResponse (number_response M cseq response)]" .
  then show ?thesis
    using h assms(3) by (simp add: poll_serviced_request_def server_service_def prompt_answer_def prompt_def)
qed

lemma process_request_prompt:
  assumes "unbounded_laws H" "never_closed H" "prompt K h" "hd_serviced_request h = None"
    and "uri_normalize_laws U" "uri_valid U (req_uri request)"
  shows "\<exists>h'. process_request M H (server_service M L R U K) cseq request h = Some h' \<and> prompt K h'
    \<and> chan_sent H (hd_channel h') @ prompt_answer M h' =
        chan_sent H (hd_channel h) @ [MessageResponse (number_response M cseq (server_answer M L R request))]"
proof -
  have open_h: "hd_sender_handle h" and clock: "clock_in_range K (cs_clock (hd_service h))"
    using assms(3) by (simp_all add: prompt_def)
  let ?V = "server_service M L R U K"
  let ?bad = "case typed_get M content_length_header_name content_length_decode (req_headers request) of
      Some content_length \<Rightarrow> content_length_value content_length > 0
        \<and> \<not> map_contains_key M (req_headers request) HeaderContentType
    | None \<Rightarrow> False"
  have refused: ?thesis if "process_request M H ?V cseq request h = Some (send_response M H cseq (server_answer M L R request) h)"
  proof -
    obtain channel where "send_response M H cseq (server_answer M L R request) h = h\<lparr>hd_channel := channel\<rparr>"
      "chan_sent H channel = chan_sent H (hd_channel h)
         @ [MessageResponse (number_response M cseq (server_answer M L R request))]"
      using send_response_open [OF assms(1,2) open_h] by blast
    with that assms(3,4) show ?thesis by (simp add: prompt_def prompt_answer_def)
  qed
  consider (rtspu) "uri_scheme (req_uri request) = Some RTSPU" | (bad) "uri_scheme (req_uri request) \<noteq> Some RTSPU" ?bad
    | (good) "uri_scheme (req_uri request) \<noteq> Some RTSPU" "\<not> ?bad" by blast
  then show ?thesis
  proof cases
    case rtspu
    then show ?thesis using canned_total(4) [of M] by (intro refused) (auto simp: process_request_def server_answer_def)
  next
    case bad
    then show ?thesis using canned_total(1) [of M] by (intro refused) (auto simp: process_request_def server_answer_def)
  next
    case good
    have "hd_service (reset_continue_timer h) = hd_service h" "hd_channel (reset_continue_timer h) = hd_channel h"
      "hd_sender_handle (reset_continue_timer h) = hd_sender_handle h"
      by (simp_all add: reset_continue_timer_def split: option.split)
    then show ?thesis
      using good open_h clock connection_service_call_some [OF assms(5,6) clock, of M L R]
      by (simp add: process_request_def server_answer_def server_service_def prompt_def prompt_answer_def Let_def)
  qed
qed

lemma handler_poll_prompt:
  fixes U :: "'u uriparse_ops" and M :: "'m header_map_ops"
  assumes "unbounded_laws H" "never_closed H" "uri_normalize_laws U"
  shows "prompt K h \<Longrightarrow> \<forall>(cseq, request) \<in> set incoming. uri_valid U (req_uri request) \<Longrightarrow>
    \<exists>h'. handler_poll M H (server_service M L R U K) answers incoming e h =
        Some (h', [], case e of DrainPending \<Rightarrow> NotReady | DrainClosed \<Rightarrow> Ready ())
      \<and> chan_sent H (hd_channel h') = chan_sent H (hd_channel h) @ prompt_answer M h
          @ map (\<lambda>(cseq, request). MessageResponse (number_response M cseq (server_answer M L R request))) incoming
      \<and> (e = DrainPending \<longrightarrow> prompt K h' \<and> prompt_answer M h' = ([] :: ('m, 'u) Message list))"
proof (induction incoming arbitrary: h)
  case Nil
  obtain t where "poll_serviced_request M H (server_service M L R U K) answers h = Some (t, Ready ())"
    "chan_sent H (hd_channel t) = chan_sent H (hd_channel h) @ prompt_answer M h"
    "prompt K t" "hd_serviced_request t = None"
    using poll_serviced_prompt [OF assms(1,2) Nil.prems(1)] by blast
  then show ?case by (cases e) (simp_all add: handler_shutdown_def Let_def prompt_answer_def)
next
  case (Cons cq incoming)
  obtain cseq request where cq: "cq = (cseq, request)" by (cases cq)
  obtain t where t: "poll_serviced_request M H (server_service M L R U K) answers h = Some (t, Ready ())"
    "hd_serviced_request t = None" "prompt K t"
    "chan_sent H (hd_channel t) = chan_sent H (hd_channel h) @ prompt_answer M h"
    using poll_serviced_prompt [OF assms(1,2) Cons.prems(1)] by blast
  have valid: "uri_valid U (req_uri request)" using Cons.prems(2) cq by simp
  obtain t' where t': "process_request M H (server_service M L R U K) cseq request t = Some t'" "prompt K t'"
    "chan_sent H (hd_channel t') @ prompt_answer M t' =
       chan_sent H (hd_channel t) @ [MessageResponse (number_response M cseq (server_answer M L R request))]"
    using process_request_prompt [OF assms(1,2) t(3,2) assms(3) valid] by blast
  from Cons.IH [OF t'(2)] Cons.prems(2) obtain h' where
    "handler_poll M H (server_service M L R U K) answers incoming e t' =
       Some (h', [], case e of DrainPending \<Rightarrow> NotReady | DrainClosed \<Rightarrow> Ready ())"
    "chan_sent H (hd_channel h') = chan_sent H (hd_channel t') @ prompt_answer M t'
       @ map (\<lambda>(cseq, request). MessageResponse (number_response M cseq (server_answer M L R request))) incoming"
    "e = DrainPending \<longrightarrow> prompt K h' \<and> prompt_answer M h' = ([] :: ('m, 'u) Message list)"
    by auto
  with t t' show ?case by (simp add: cq)
qed

text \<open>
  Polls that follow each other, with what every one of them finds: the continue timer's answers and the
  requests that have come. All but the last find the channel of requests open.
\<close>

fun handler_polls ::
  "'m header_map_ops \<Rightarrow> ('h, ('m, 'u) Message) unbounded_ops \<Rightarrow> ('s, 'f, 'm, 'u) service_ops
     \<Rightarrow> (TimerPoll list \<times> ('m, 'u) incoming list) list \<Rightarrow> ('s, 'f, 'h) request_handler
     \<Rightarrow> ('s, 'f, 'h) request_handler option"
where
  "handler_polls M H V [] h = Some h"
| "handler_polls M H V ((answers, incoming) # polls) h =
     (case handler_poll M H V answers incoming DrainPending h of
        Some (h, [], NotReady) \<Rightarrow> handler_polls M H V polls h
      | _ \<Rightarrow> None)"

lemma handler_polls_prompt:
  fixes U :: "'u uriparse_ops" and M :: "'m header_map_ops"
  assumes "unbounded_laws H" "never_closed H" "uri_normalize_laws U"
  shows "prompt K h \<Longrightarrow>
    \<forall>(cseq, request) \<in> set (concat (map snd polls) @ incoming). uri_valid U (req_uri request) \<Longrightarrow>
    \<exists>h' h''. handler_polls M H (server_service M L R U K) polls h = Some h'
      \<and> handler_poll M H (server_service M L R U K) answers incoming e h' =
        Some (h'', [], case e of DrainPending \<Rightarrow> NotReady | DrainClosed \<Rightarrow> Ready ())
      \<and> chan_sent H (hd_channel h'') = chan_sent H (hd_channel h) @ prompt_answer M h
          @ map (\<lambda>(cseq, request). MessageResponse (number_response M cseq (server_answer M L R request)))
              (concat (map snd polls) @ incoming)"
proof (induction polls arbitrary: h)
  case Nil
  then show ?case using handler_poll_prompt [OF assms Nil.prems(1), of incoming M L R answers e] by auto
next
  case (Cons p polls)
  obtain as qs where p: "p = (as, qs)" by (cases p)
  have "\<forall>(cseq, request) \<in> set qs. uri_valid U (req_uri request)" using Cons.prems(2) p by auto
  from handler_poll_prompt [OF assms Cons.prems(1) this, of M L R as DrainPending]
  obtain t where t: "handler_poll M H (server_service M L R U K) as qs DrainPending h = Some (t, [], NotReady)"
    "chan_sent H (hd_channel t) = chan_sent H (hd_channel h) @ prompt_answer M h
       @ map (\<lambda>(cseq, request). MessageResponse (number_response M cseq (server_answer M L R request))) qs"
    "prompt K t" "prompt_answer M t = ([] :: ('m, 'u) Message list)"
    by auto
  have "\<forall>(cseq, request) \<in> set (concat (map snd polls) @ incoming). uri_valid U (req_uri request)"
    using Cons.prems(2) by auto
  from Cons.IH [OF t(3) this] show ?case by (auto simp: p t(1,2,4))
qed

subsection \<open>Properties\<close>


text \<open>
  A calendar that counts seconds, for the examples.
\<close>

definition demo_clock :: "(nat, nat) clock_ops" where
  "demo_clock = \<lparr>clock_from_std = (\<lambda>d. Some (as_secs d)), clock_checked_add = (\<lambda>t d. Some (t + d))\<rparr>"

definition demo_connection_service :: "nat connection_service" where
  "demo_connection_service = \<lparr>cs_session = Some 0,
     cs_sessions = [\<lparr>ss_expire_time = 0, ss_id = SessionID ''abcdefgh''\<rparr>], cs_clock = (\<lambda>n. 100 + n), cs_reads = 0\<rparr>"

lemma demo_clock_in_range: "clock_in_range demo_clock clock"
  by (simp add: clock_in_range_def demo_clock_def)

definition options_request :: "(bytes, headers, bytes) Request" where
  "options_request = \<lparr>req_body = [], req_headers = [], req_method = Options, req_uri = None, req_version = Rtsp2_0\<rparr>"


text \<open>
  C10. The server as a whole answers requests as a function of each request: while the channel to the
  sender is open, every poll of the handler that runs the service takes all the requests that have come
  since the poll before, and over any number of polls it sends for each, in order and after what it still
  owed, the one answer of \<open>server_answer\<close> under the sequence number of the request. No request keeps the
  handler waiting, panics it, or gets a \<open>Continue\<close>; how the requests are spread over the polls does not
  matter, and the handler is done exactly when a poll finds the channel of requests closed.
\<close>

theorem server_answers_requests:
  fixes U :: "'u uriparse_ops" and M :: "'m header_map_ops"
  assumes "unbounded_laws H" "never_closed H" "uri_normalize_laws U" "prompt K h"
    and "\<forall>(cseq, request) \<in> set (concat (map snd polls) @ incoming). uri_valid U (req_uri request)"
  shows "\<exists>h' h''. handler_polls M H (server_service M L R U K) polls h = Some h'
      \<and> handler_poll M H (server_service M L R U K) answers incoming e h' =
        Some (h'', [], case e of DrainPending \<Rightarrow> NotReady | DrainClosed \<Rightarrow> Ready ())
      \<and> chan_sent H (hd_channel h'') = chan_sent H (hd_channel h) @ prompt_answer M h
          @ map (\<lambda>(cseq, request). MessageResponse (number_response M cseq (server_answer M L R request)))
              (concat (map snd polls) @ incoming)"
  by (rule handler_polls_prompt [OF assms])

theorem server_answers_requests_witness:
  "\<exists>h' h'' response. handler_polls list_headers \<lparr>chan_send = \<lambda>l x. (l @ [x], True), chan_sent = \<lambda>l. l\<rparr>
      (server_service list_headers list_set list_set plain_uris demo_clock) [([], [(CSeq 1, options_request)]), ([], [])]
      (request_handler_new demo_connection_service [] None) = Some h'
    \<and> handler_poll list_headers \<lparr>chan_send = \<lambda>l x. (l @ [x], True), chan_sent = \<lambda>l. l\<rparr>
      (server_service list_headers list_set list_set plain_uris demo_clock) []
      [(CSeq 2, options_request\<lparr>req_method := Play\<rparr>)] DrainClosed h' = Some (h'', [], Ready ())
    \<and> hd_channel h'' = [MessageResponse (number_response list_headers (CSeq 1) (server_answer list_headers list_set list_set options_request)),
        MessageResponse (number_response list_headers (CSeq 2) response)]
    \<and> resp_status_code response = NotImplemented"
proof -
  let ?H = "\<lparr>chan_send = \<lambda>l x. (l @ [x], True), chan_sent = \<lambda>l. l\<rparr> :: ((headers, bytes) Message list, (headers, bytes) Message) unbounded_ops"
  have H: "unbounded_laws ?H" "never_closed ?H" by (simp_all add: unbounded_laws_def never_closed_def)
  let ?h = "request_handler_new demo_connection_service [] None
    :: (nat connection_service, (bytes, headers) Response option, (headers, bytes) Message list) request_handler"
  have "prompt demo_clock ?h" by (simp add: prompt_def request_handler_new_def demo_clock_in_range)
  note answers = server_answers_requests [OF H plain_uris_laws this,
      of "[([], [(CSeq 1, options_request)]), ([], [])]" "[(CSeq 2, options_request\<lparr>req_method := Play\<rparr>)]"
        list_headers list_set list_set "[]" DrainClosed]
  have "resp_status_code (server_answer list_headers list_set list_set (options_request\<lparr>req_method := Play\<rparr>)) = NotImplemented"
    using canned_total(4) [of list_headers]
    by (auto simp: server_answer_def service_answer_def options_request_def uri_scheme_def typed_get_def typed_try_get_def
        content_length_decode_def list_headers_def)
  with answers show ?thesis
    by (fastforce simp: options_request_def prompt_answer_def request_handler_new_def)
qed

end
