(* ===== verification/Server.thy ===== *)
theory Server
  imports ConnectionService Connection
begin

text \<open>
  The two ends that the crate offers: \<^verbatim>\<open>rtsp-2/src/server.rs\<close> and \<^verbatim>\<open>rtsp-2/src/client.rs\<close>, and the service
  of \<^verbatim>\<open>rtsp-2/src/protocol/service.rs\<close> that never answers. The channels and the transport of a new
  connection are arguments, as for \<^const>\<open>connection_new\<close>; spawning a task is returning it.
\<close>

subsection \<open>The service without answers\<close>

definition empty_service :: "(unit, unit, 'm, 'u) service_ops" where
  "empty_service = \<lparr>service_call = (\<lambda>s _. (s, ())), service_future_poll = (\<lambda>future. (future, Ok NotReady))\<rparr>"

subsection \<open>The client\<close>

record ('h, 'p, 'a) client =
  cl_handle :: "('h, 'p) connection_handle"
  cl_server_address :: 'a

text \<open>Once the stream is connected: the client and the tasks that are spawned.\<close>

definition client_connect ::
  "'a \<Rightarrow> 'c \<Rightarrow> 'h \<Rightarrow> 't \<Rightarrow> 'p \<Rightarrow> CSeq
     \<Rightarrow> ('h, 'p, 'a) client \<times> ('m, 'u, 'c, 'ch, 'h, 't) connection \<times> (unit, unit, 'h) request_handler option"
where
  "client_connect server_address tx_incoming_request sender_handle tcp_stream tx_pending_request sequence_number =
     (case connection_new tx_incoming_request sender_handle tcp_stream (None :: unit option) of
        (connection, handler) \<Rightarrow>
          (\<lparr>cl_handle = connection_handle_new sender_handle tx_pending_request sequence_number config_default,
            cl_server_address = server_address\<rparr>, connection, handler))"

definition client_send_request ::
  "'m header_map_ops \<Rightarrow> ('h, ('m, 'u) Message) unbounded_ops \<Rightarrow> ('p, 'ch PendingRequestUpdate) unbounded_ops
     \<Rightarrow> bool \<Rightarrow> 'ch \<Rightarrow> (bytes, 'm, 'u) Request \<Rightarrow> ('h, 'p, 'a) client
     \<Rightarrow> ('h, 'p, 'a) client \<times> (OperationError + 'ch send_request)"
where
  "client_send_request M H P allow_requests channel request cl =
     (case handle_send_request M H P allow_requests channel request (cl_handle cl) of
        (h, r) \<Rightarrow> (cl\<lparr>cl_handle := h\<rparr>, r))"

subsection \<open>The server\<close>

record ('h, 'p, 'dt) server =
  sv_connections :: "('h, 'p) connection_handle list"
  sv_sessions :: "(SessionID \<times> 'dt server_session) list"

definition server_new :: "('h, 'p, 'dt) server" where
  "server_new = \<lparr>sv_connections = [], sv_sessions = []\<rparr>"

text \<open>One turn of \<open>for_each\<close> in \<open>run\<close>: the tasks of the new connection; \<open>unwrap\<close> is the option.\<close>

definition server_accept ::
  "'c \<Rightarrow> 'h \<Rightarrow> 't \<Rightarrow> 'p \<Rightarrow> CSeq \<Rightarrow> (nat \<Rightarrow> 'dt) \<Rightarrow> ('h, 'p, 'dt) server
     \<Rightarrow> (('h, 'p, 'dt) server \<times> ('m, 'u, 'c, 'ch, 'h, 't) connection
        \<times> ('dt connection_service, (bytes, 'm) Response option, 'h) request_handler) option"
where
  "server_accept tx_incoming_request sender_handle socket tx_pending_request sequence_number clock server =
     (let service = \<lparr>cs_session = None, cs_sessions = map snd (sv_sessions server), cs_clock = clock, cs_reads = 0\<rparr>
      in case connection_new tx_incoming_request sender_handle socket (Some service) of
           (connection, handler) \<Rightarrow>
             (let handle = connection_handle_new sender_handle tx_pending_request sequence_number config_default;
                  server = server\<lparr>sv_connections := sv_connections server @ [handle]\<rparr>
              in map_option (\<lambda>handler. (server, connection, handler)) handler))"

subsection \<open>An accepted connection answers\<close>

lemma server_accept_answers:
  fixes U :: "'u uriparse_ops" and M :: "'m header_map_ops"
    and connection :: "('m, 'u, 'c, 'ch, 'h, 't) connection"
  assumes "server_accept tx_incoming sender_handle socket tx_pending cseq clock server = Some (server', connection, h)"
    and "unbounded_laws H" "never_closed H" "uri_normalize_laws U" "clock_in_range K clock"
    and "\<forall>(cseq, request) \<in> set incoming. uri_valid U (req_uri request)"
  shows "\<not> is_connection_shutdown connection \<and> length (sv_connections server') = Suc (length (sv_connections server))
    \<and> (\<exists>h'. handler_poll M H (server_service M L R U K) answers incoming DrainPending h = Some (h', [], NotReady)
      \<and> chan_sent H (hd_channel h') = chan_sent H sender_handle
          @ map (\<lambda>(cseq, request). MessageResponse (number_response M cseq (server_answer M L R request))) incoming)"
proof -
  have h: "hd_channel h = sender_handle" "prompt K h" "prompt_answer M h = ([] :: ('m, 'u) Message list)"
    and rest: "\<not> is_connection_shutdown connection" "length (sv_connections server') = Suc (length (sv_connections server))"
    using assms(1,5)
    by (auto simp: server_accept_def connection_new_def connection_with_config_def Let_def request_handler_new_def
        prompt_def prompt_answer_def is_connection_shutdown_def)
  show ?thesis
    using handler_poll_prompt [OF assms(2-4) h(2) assms(6), of M L R answers DrainPending] h rest by auto
qed

end
