(* ===== verification/DateText.thy ===== *)
theory DateText
  imports DateParse
begin

text \<open>
  What the date parser makes of the texts that \<open>chrono\<close> prints and RFC 5322 asks for: the canonical
  text of a date in any zone, and the lemmas on how each parser runs on its part of it.
\<close>

subsection \<open>Digits\<close>

definition dig :: "nat \<Rightarrow> byte" where "dig n = char_of (48 + n)"

definition two :: "nat \<Rightarrow> bytes" where "two n = [dig (n div 10), dig (n mod 10)]"

definition plain :: "byte \<Rightarrow> bool" where
  "plain c \<longleftrightarrow> u8 c < 128 \<and> c \<noteq> SP \<and> c \<noteq> HT \<and> c \<noteq> CR \<and> c \<noteq> CHR ''(''"

lemma u8_dig [simp]: "n < 10 \<Longrightarrow> u8 (dig n) = 48 + n"
  by (simp add: dig_def of_char_of)

lemma to_digit_dig [simp]: "n < 10 \<Longrightarrow> to_digit (dig n) = Some n"
  by (simp add: to_digit_def)

lemma dig_noteq: "n < 10 \<Longrightarrow> u8 c < 48 \<or> 57 < u8 c \<Longrightarrow> dig n \<noteq> c"
  using u8_dig by fastforce

lemma plain_dig [simp]: "n < 10 \<Longrightarrow> plain (dig n)"
  by (simp add: plain_def dig_noteq SP_def HT_def CR_def)

lemma plain_not_cont [simp]: "plain c \<Longrightarrow> \<not> is_cont c"
  by (auto simp: plain_def is_cont_def)

lemma dig_not_cont [simp]: "n < 10 \<Longrightarrow> \<not> is_cont (dig n)"
  by simp

lemma decimal_2: "n < 100 \<Longrightarrow> decimal n = (if n < 10 then [dig n] else two n)"
proof -
  assume "n < 100"
  then have "n div 10 < 10" by simp
  then show ?thesis by (simp add: decimal.simps [of n] decimal.simps [of "n div 10"] two_def dig_def)
qed

lemma split_at_length: "r = [] \<or> \<not> is_cont (hd r) \<Longrightarrow> split_at (length p) (p @ r) = Ok (p, r)"
  by (cases r) (auto simp: split_at_def nth_append)

lemma split_at_1: "r = [] \<or> \<not> is_cont (hd r) \<Longrightarrow> split_at (Suc 0) (a # r) = Ok ([a], r)"
  using split_at_length [of r "[a]"] by simp

lemma split_at_2: "r = [] \<or> \<not> is_cont (hd r) \<Longrightarrow> split_at 2 (a # b # r) = Ok ([a, b], r)"
  using split_at_length [of r "[a, b]"] by (simp add: eval_nat_numeral)

lemma split_at_3: "r = [] \<or> \<not> is_cont (hd r) \<Longrightarrow> split_at 3 (a # b # c # r) = Ok ([a, b, c], r)"
  using split_at_length [of r "[a, b, c]"] by (simp add: eval_nat_numeral)

subsection \<open>Blanks\<close>

lemma SP_paren [simp]: "SP \<noteq> CHR ''(''" "HT \<noteq> CHR ''(''"
  by (simp_all add: SP_def HT_def)

lemma cfws_none:
  "v = [] \<or> plain (hd v) \<Longrightarrow> parse_comment_and_folding_whitespace v True = Ok ([], v)"
  by (cases v) (auto simp: parse_comment_and_folding_whitespace_def cfws_loop.simps plain_def split_at_def is_cont_def)

lemma folding_loop_spaces:
  assumes "plain c"
  shows "0 < k \<or> \<not> b \<Longrightarrow> folding_loop (PsWhitespace b) n (replicate k SP @ c # s) = Ok (n + k)"
proof (induction k arbitrary: b n)
  case 0
  with assms show ?case by (simp add: folding_loop.simps plain_def)
next
  case (Suc k)
  then show ?case by (simp add: folding_loop.simps(2) [of _ _ "SP # _"])
qed

lemma cfws_spaces:
  assumes "plain c"
  shows "parse_comment_and_folding_whitespace (SP # replicate k SP @ c # s) b = Ok (replicate (Suc k) SP, c # s)"
proof -
  let ?v = "SP # replicate k SP @ c # s"
  have v: "?v = replicate (Suc k) SP @ c # s" by simp
  have split: "split_at (Suc k) ?v = Ok (replicate (Suc k) SP, c # s)"
    using split_at_length [of "c # s" "replicate (Suc k) SP"] assms by (simp add: v del: replicate_Suc)
  have "folding_loop PsInitialWhitespace 0 ?v = Ok (Suc k)"
    using folding_loop_spaces [OF assms, of k False 1] by (simp add: folding_loop.simps(3))
  then have "parse_folding_whitespace ?v = Ok (replicate (Suc k) SP, c # s)"
    using split by (simp add: parse_folding_whitespace_def)
  moreover have "cfws_loop ?v b (Suc k) True = Ok (replicate (Suc k) SP, c # s)"
  proof -
    have "drop (Suc k) ?v = c # s" by simp
    moreover have "c \<noteq> SP" "c \<noteq> HT" "c \<noteq> CHR ''(''" using assms by (auto simp: plain_def)
    ultimately show ?thesis using split by (simp add: cfws_loop.simps [of ?v b "Suc k"])
  qed
  ultimately show ?thesis
    by (simp add: parse_comment_and_folding_whitespace_def cfws_loop.simps [of ?v b 0] SP_paren)
qed

lemma cfws_space:
  "v \<noteq> [] \<Longrightarrow> plain (hd v) \<Longrightarrow> parse_comment_and_folding_whitespace (SP # v) b = Ok ([SP], v)"
  using cfws_spaces [of "hd v" 0 "tl v"] by (cases v) auto

lemma cfws_optional:
  "v \<noteq> [] \<Longrightarrow> plain (hd v) \<Longrightarrow>
    parse_comment_and_folding_whitespace (replicate k SP @ v) True = Ok (replicate k SP, v)"
  using cfws_spaces [of "hd v" "k - 1" "tl v" True] cfws_none [of v] by (cases k; cases v) auto

subsection \<open>Each part of the date\<close>

fun day_name :: "Weekday \<Rightarrow> bytes" where
  "day_name Mon = ''Mon''" | "day_name Tue = ''Tue''" | "day_name Wed = ''Wed''"
| "day_name Thu = ''Thu''" | "day_name Fri = ''Fri''" | "day_name Sat = ''Sat''" | "day_name Sun = ''Sun''"

definition month_names :: "bytes list" where
  "month_names = [''Jan'', ''Feb'', ''Mar'', ''Apr'', ''May'', ''Jun'', ''Jul'', ''Aug'', ''Sep'', ''Oct'', ''Nov'', ''Dec'']"

lemma split_at_name:
  "length p = 3 \<Longrightarrow> r = [] \<or> \<not> is_cont (hd r) \<Longrightarrow> split_at 3 (p @ r) = Ok (p, r)"
  using split_at_length [of r p] by simp

text \<open>Names are parsed from the first three bytes alone, so the names by themselves are all the cases.\<close>

lemma parse_name_append:
  assumes "length p = 3" "r = [] \<or> \<not> is_cont (hd r)"
  shows "parse_day_of_week p = Ok (wd, []) \<Longrightarrow> parse_day_of_week (p @ r) = Ok (wd, r)"
    and "parse_month p = Ok (m, []) \<Longrightarrow> parse_month (p @ r) = Ok (m, r)"
proof -
  have "length (p @ r) \<ge> 3" "split_at 3 p = Ok (p, [])" "split_at 3 (p @ r) = Ok (p, r)"
    using split_at_name [of p "[]"] split_at_name [OF assms] assms(1) by simp_all
  note facts = this assms(1)
  show "parse_day_of_week p = Ok (wd, []) \<Longrightarrow> parse_day_of_week (p @ r) = Ok (wd, r)"
    unfolding parse_day_of_week_def Let_def using facts by (simp split: if_splits)
  show "parse_month p = Ok (m, []) \<Longrightarrow> parse_month (p @ r) = Ok (m, r)"
    unfolding parse_month_def Let_def using facts by (simp split: if_splits)
qed

lemma parse_day_name: "r = [] \<or> \<not> is_cont (hd r) \<Longrightarrow> parse_day_of_week (day_name wd @ r) = Ok (wd, r)"
proof (rule parse_name_append(1))
  show "parse_day_of_week (day_name wd) = Ok (wd, [])" by (cases wd; hypsubst; code_simp)
qed (cases wd; simp)

lemma parse_month_names:
  "\<forall>i \<in> set [0..<12]. length (month_names ! i) = 3 \<and> parse_month (month_names ! i) = Ok (Suc i, [])"
  by code_simp

lemma parse_month_name:
  assumes "r = [] \<or> \<not> is_cont (hd r)" "1 \<le> m" "m \<le> 12"
  shows "parse_month (month_names ! (m - 1) @ r) = Ok (m, r)"
proof -
  have "m - 1 \<in> set [0..<12]" using assms(2,3) by simp
  then have "length (month_names ! (m - 1)) = 3" "parse_month (month_names ! (m - 1)) = Ok (m, [])"
    using parse_month_names assms(2) by auto
  then show ?thesis using assms(1) by (intro parse_name_append(2))
qed

lemma parse_two:
  "n < 100 \<Longrightarrow> r = [] \<or> \<not> is_cont (hd r) \<Longrightarrow> parse_2_digit_number (two n @ r) = Ok (n, r)"
  by (simp add: two_def parse_2_digit_number_def split_at_2)

lemma parse_day_decimal:
  assumes "d < 100" "r \<noteq> []" "\<not> is_cont (hd r)" "to_digit (hd r) = None"
  shows "parse_day (decimal d @ r) = Ok (d, r)"
  using assms by (cases r) (auto simp: decimal_2 two_def parse_day_def split_at_1 split_at_2)

lemma parse_year_four:
  assumes "y < 10000" "r \<noteq> []" "\<not> is_cont (hd r)" "to_digit (hd r) = None"
  shows "parse_year (two (y div 100) @ two (y mod 100) @ r) = Ok (int y, r)"
proof -
  obtain c s where r: "r = c # s" using assms(2) by (cases r) auto
  define a b c' d where abcd: "a = y div 100 div 10" "b = y div 100 mod 10" "c' = y mod 100 div 10" "d = y mod 100 mod 10"
  have bounds: "a < 10" "b < 10" "c' < 10" "d < 10" using assms(1) by (auto simp: abcd)
  have y: "y = ((a * 10 + b) * 10 + c') * 10 + d" by (simp add: abcd)
  have "year_loop ([dig a, dig b, dig c', dig d] @ r) 0 0 = Ok (int y, 4)"
    using bounds assms(4) by (simp add: r i32_max_def y)
  moreover have "split_at 4 ([dig a, dig b, dig c', dig d] @ r) = Ok ([dig a, dig b, dig c', dig d], r)"
    using split_at_length [of r "[dig a, dig b, dig c', dig d]"] assms(3) by (simp add: eval_nat_numeral)
  ultimately show ?thesis by (simp add: parse_year_def two_def abcd)
qed

definition zone_text :: "bool \<Rightarrow> nat \<Rightarrow> nat \<Rightarrow> bytes" where
  "zone_text west zh zm = (if west then CHR ''-'' else CHR ''+'') # two zh @ two zm"

lemma parse_zone_text:
  assumes "zh < 100" "zm < 100" "x = [] \<or> \<not> is_cont (hd x)"
  shows "parse_time_zone (zone_text west zh zm @ x) =
    Ok ((if west then - 1 else 1) * (int zh * 100 + int zm), x)"
proof -
  define a b c d where abcd: "a = zh div 10" "b = zh mod 10" "c = zm div 10" "d = zm mod 10"
  have bounds: "a < 10" "b < 10" "c < 10" "d < 10" using assms by (auto simp: abcd)
  have z: "zh = a * 10 + b" "zm = c * 10 + d" by (simp_all add: abcd)
  let ?ds = "[dig a, dig b, dig c, dig d]"
  have ds: "two zh @ two zm = ?ds" by (simp add: two_def abcd)
  have take: "take_chars 4 (?ds @ x) = ?ds" using bounds assms(3) by (cases x) (auto simp: eval_nat_numeral)
  have parse: "parse_i32 ?ds = Some (int (((a * 10 + b) * 10 + c) * 10 + d))"
    using bounds by (simp add: parse_i32_def dig_noteq)
  have split: "split_at 5 (c # ?ds @ x) = Ok (c # ?ds, x)" for c
    using split_at_length [OF assms(3), of "c # ?ds"] by (simp add: eval_nat_numeral)
  show ?thesis unfolding zone_text_def ds append_Cons if_distrib [of "\<lambda>c. c # _"] using take parse split z
    by (cases west) (simp_all add: parse_time_zone_def starts_with_def)
qed

lemma parse_colon_first:
  "v \<noteq> [] \<Longrightarrow> plain (hd v) \<Longrightarrow> parse_colon (CHR '':'' # v) b = Ok v"
  by (simp add: parse_colon_def cfws_none split_at_1 plain_def SP_def HT_def CR_def)

subsection \<open>The whole text\<close>

definition date_text ::
  "nat \<Rightarrow> Weekday \<Rightarrow> nat \<Rightarrow> nat \<Rightarrow> nat \<Rightarrow> nat \<Rightarrow> nat \<Rightarrow> nat \<Rightarrow> bytes \<Rightarrow> bytes" where
  "date_text k wd d m y h mi s zone =
     day_name wd @ CHR '','' # replicate k SP @ decimal d @ SP # month_names ! (m - 1) @ SP #
     (two (y div 100) @ two (y mod 100) @ SP # two h @ CHR '':'' # two mi @ CHR '':'' # two s @ SP # zone)"

lemma parse_time_of_day_text:
  assumes "h < 100" "mi < 100" "s < 100" "r \<noteq> []" "\<not> is_cont (hd r)"
  shows "parse_time_of_day (two h @ CHR '':'' # two mi @ CHR '':'' # two s @ r) = Ok (h, mi, Some s, r)"
proof -
  have two: "parse_2_digit_number (two n @ CHR '':'' # x) = Ok (n, CHR '':'' # x)" if "n < 100" for n x
    using that by (intro parse_two) (simp_all add: is_cont_def)
  have colon: "parse_colon (CHR '':'' # two n @ x) b = Ok (two n @ x)" if "n < 100" for n x b
    using that by (intro parse_colon_first) (simp_all add: two_def)
  have last: "parse_2_digit_number (two s @ r) = Ok (s, r)"
    using assms by (intro parse_two) simp_all
  show ?thesis
    unfolding parse_time_of_day_def Let_def
    by (simp only: two [OF assms(1)] two [OF assms(2)] colon [OF assms(2)] colon [OF assms(3)] last
        and_then_simps prod.case list.size) simp
qed

lemma parse_date_text:
  assumes "d < 100" "1 \<le> m" "m \<le> 12" "y < 10000"
  shows "parse_date (decimal d @ SP # month_names ! (m - 1) @ SP # (two (y div 100) @ two (y mod 100) @ SP # r))
    = Ok (d, m, int y, SP # r)"
proof -
  have SP: "\<not> is_cont SP" "to_digit SP = None" by (simp_all add: is_cont_def SP_def to_digit_def)
  let ?m = "month_names ! (m - 1)" and ?y = "two (y div 100) @ two (y mod 100) @ SP # r"
  have "?m \<in> set month_names" using assms(2,3) by (intro nth_mem) (simp add: month_names_def)
  then have "?m @ x \<noteq> []" "plain (hd (?m @ x))" for x
    by (auto simp: month_names_def plain_def SP_def HT_def CR_def)
  note month = cfws_space [OF this, of "SP # ?y"]
  have "?y \<noteq> []" "plain (hd ?y)" using assms(4) by (simp_all add: two_def)
  note year = cfws_space [OF this]
  have "parse_day (decimal d @ SP # ?m @ SP # ?y) = Ok (d, SP # ?m @ SP # ?y)"
    using assms(1) SP by (intro parse_day_decimal) simp_all
  moreover have "parse_month (?m @ SP # ?y) = Ok (m, SP # ?y)"
    using assms(2,3) SP by (intro parse_month_name) simp_all
  moreover have "parse_year ?y = Ok (int y, SP # r)"
    using assms(4) SP by (intro parse_year_four) simp_all
  ultimately show ?thesis
    unfolding parse_date_def by (simp only: month year and_then_simps prod.case)
qed

lemma parse_time_text:
  assumes "h < 100" "mi < 100" "s < 100" "zh < 100" "zm < 100" "x = [] \<or> \<not> is_cont (hd x)"
  shows "parse_time (two h @ CHR '':'' # two mi @ CHR '':'' # two s @ SP # zone_text west zh zm @ x) =
    Ok (h, mi, Some s, (if west then - 1 else 1) * (int zh * 100 + int zm), x)"
proof -
  have SP: "\<not> is_cont SP" by (simp add: is_cont_def SP_def)
  have zone: "zone_text west zh zm @ x \<noteq> []" "plain (hd (zone_text west zh zm @ x))"
    by (auto simp: zone_text_def plain_def SP_def HT_def CR_def)
  show ?thesis
    using parse_time_of_day_text [OF assms(1-3), of "SP # zone_text west zh zm @ x"] SP
    by (simp add: parse_time_def cfws_space [OF zone] parse_zone_text [OF assms(4-6)])
qed

lemma parse_weekday_text:
  assumes "v \<noteq> []" "plain (hd v)"
  shows "parse_weekday_part (day_name wd @ CHR '','' # replicate k SP @ v) = Ok (Some wd, v)"
proof -
  let ?v = "replicate k SP @ v"
  have v: "\<not> is_cont (hd ?v)" using assms plain_not_cont by (cases k) (simp_all add: is_cont_def SP_def plain_def)
  have comma: "\<not> is_cont (CHR '','')" "plain (CHR '','')"
    by (simp_all add: is_cont_def plain_def SP_def HT_def CR_def)
  obtain c r where day: "day_name wd = c # r" "is_ascii_alphabetic c"
    by (cases wd) (simp_all add: is_ascii_alphabetic_def)
  have "parse_day_of_week (day_name wd @ CHR '','' # ?v) = Ok (wd, CHR '','' # ?v)"
    using comma by (intro parse_day_name) simp
  moreover have "split_at 1 (CHR '','' # ?v) = Ok ([CHR '',''], ?v)"
    using split_at_1 [of ?v] v by simp
  ultimately show ?thesis
    using day comma by (simp add: parse_weekday_part_def cfws_none cfws_optional [OF assms])
qed

lemma zone_seconds:
  assumes "zm < 100" "g = 1 \<or> g = - 1"
  shows "(g * (int zh * 100 + int zm)) sdiv 100 * 3600 + (g * (int zh * 100 + int zm)) smod 100 * 60
    = g * (int zh * 3600 + int zm * 60)"
proof -
  have q: "(int zh * 100 + int zm) div 100 = int zh" "(int zh * 100 + int zm) mod 100 = int zm"
    using assms by auto
  have sg: "sgn (int zh * 100 + int zm) = (if zh = 0 \<and> zm = 0 then 0 else 1)" by auto
  show ?thesis using assms(2) q sg
    by (auto simp: signed_divide_int_def signed_modulo_int_def abs_mult sgn_mult)
qed

text \<open>The text may be followed by anything: what comes after the zone is not looked at.\<close>

lemma date_text_parse:
  assumes "d < 100" "1 \<le> m" "m \<le> 12" "y < 10000" "h < 100" "mi < 100" "s < 100" "zh < 100" "zm < 100"
    and "x = [] \<or> plain (hd x)"
  shows "parse_date_time C (date_text k wd d m y h mi s (zone_text west zh zm @ x)) =
    (case chrono_utc C ((if west then - 1 else 1) * (int zh * 3600 + int zm * 60)) (int y) m d h mi s of
       None \<Rightarrow> Err DateTimeError
     | Some date_time \<Rightarrow> if chrono_weekday C date_time = wd then Ok date_time else Err DateTimeError)"
proof -
  let ?g = "if west then - 1 else 1 :: int"
  let ?t = "two h @ CHR '':'' # two mi @ CHR '':'' # two s @ SP # zone_text west zh zm @ x"
  let ?d = "decimal d @ SP # month_names ! (m - 1) @ SP # (two (y div 100) @ two (y mod 100) @ SP # ?t)"
  have whole: "date_text k wd d m y h mi s (zone_text west zh zm @ x) = day_name wd @ CHR '','' # replicate k SP @ ?d"
    by (simp add: date_text_def)
  have day: "?d \<noteq> []" "plain (hd ?d)" using assms(1) by (simp_all add: decimal_2 two_def)
  have "plain (hd (day_name wd @ x))" for x by (cases wd) (simp_all add: plain_def SP_def HT_def CR_def)
  note first = cfws_none [OF disjI2, OF this]
  have "?t \<noteq> []" "plain (hd ?t)" using assms(5) by (simp_all add: two_def)
  note blank = cfws_space [OF this]
  have g: "?g = 1 \<or> ?g = - 1" by simp
  have none: "parse_comment_and_folding_whitespace x True = Ok ([], x)" using assms(10) by (rule cfws_none)
  have rest: "x = [] \<or> \<not> is_cont (hd x)" using assms(10) by auto
  show ?thesis
    unfolding whole parse_date_time_def
    by (simp only: first parse_weekday_text [OF day] parse_date_text [OF assms(1-4)] blank
        parse_time_text [OF assms(5-9) rest] none and_then_simps prod.case Let_def zone_seconds [OF assms(9) g]
        option.case)
      (auto split: option.splits)
qed

end
