(* ===== verification/DateSafe.thy ===== *)
theory DateSafe
  imports DateParse "HOL-Library.Sublist"
begin

text \<open>
  On which texts the date parser can panic: only on texts with a character that is not ASCII or with
  ten digits in a row. The lemmas follow the parser; \<open>fine P r\<close> says that \<open>r\<close> is not a panic and that
  what it returns, if anything, satisfies \<open>P\<close>.
\<close>

definition fine :: "('a \<Rightarrow> bool) \<Rightarrow> date_stop + 'a \<Rightarrow> bool" where
  "fine P r \<longleftrightarrow> (case r of Err e \<Rightarrow> e \<noteq> DatePanic | Ok a \<Rightarrow> P a)"

lemma fine_simps [simp]: "fine P (Err DateTimeError)" "fine P (Ok a) \<longleftrightarrow> P a"
  by (simp_all add: fine_def)

lemma fine_and_then: "fine P r \<Longrightarrow> (\<And>a. r = Ok a \<Longrightarrow> P a \<Longrightarrow> fine Q (f a)) \<Longrightarrow> fine Q (and_then r f)"
  by (cases r) (auto simp: fine_def)

lemma fine_mono: "fine P r \<Longrightarrow> (\<And>a. r = Ok a \<Longrightarrow> P a \<Longrightarrow> Q a) \<Longrightarrow> fine Q r"
  by (cases r) (auto simp: fine_def)

lemma fine_if: "(b \<Longrightarrow> fine P x) \<Longrightarrow> (\<not> b \<Longrightarrow> fine P y) \<Longrightarrow> fine P (if b then x else y)"
  by simp

text \<open>Texts without a character that is not ASCII and with at most nine digits in a row.\<close>

abbreviation digit :: "byte \<Rightarrow> bool" where "digit c \<equiv> to_digit c \<noteq> None"

definition tame :: "bytes \<Rightarrow> bool" where
  "tame v \<longleftrightarrow> (\<forall>c \<in> set v. u8 c < 128) \<and> (\<forall>w. suffix w v \<longrightarrow> length (takeWhile digit w) \<le> 9)"

lemma tame_suffix: "tame v \<Longrightarrow> suffix w v \<Longrightarrow> tame w"
  unfolding tame_def by (meson set_mono_suffix subsetD suffix_order.trans)

lemma tame_append: "tame (p @ r) \<Longrightarrow> tame r"
  by (erule tame_suffix) (simp add: suffix_def)

lemma tame_drop: "tame v \<Longrightarrow> tame (drop n v)"
  by (erule tame_suffix) (simp add: suffix_drop)

lemma tame_split_at:
  assumes "tame v" "n \<le> length v"
  shows "fine (\<lambda>(p, r). v = p @ r \<and> tame r) (split_at n v)"
proof -
  have "n = length v \<or> \<not> is_cont (v ! n)"
    using assms nth_mem [of n v] cont_not_ascii unfolding tame_def by (meson le_neq_implies_less)
  then show ?thesis using assms tame_drop [of v n] by (simp add: split_at_def)
qed

subsection \<open>Comments and folding white space\<close>

lemma folding_loop_within: "fine (\<lambda>m. m \<le> n + length s) (folding_loop st n s)"
proof (induction st n s rule: folding_loop.induct)
  case (1 n s)
  then show ?case
    by (subst folding_loop.simps) (fastforce split: list.splits elim: fine_mono)
next
  case (2 required n s)
  then show ?case
    by (subst folding_loop.simps) (fastforce split: list.splits elim: fine_mono)
next
  case (3 n s)
  then show ?case
    by (subst folding_loop.simps) (fastforce split: list.splits elim: fine_mono)
qed

lemma folding_whitespace_fine: "tame v \<Longrightarrow> fine (\<lambda>(p, r). v = p @ r \<and> tame r) (parse_folding_whitespace v)"
  unfolding parse_folding_whitespace_def
  by (rule fine_and_then [OF folding_loop_within]) (simp add: tame_split_at)

lemma quoted_pair_fine: "tame v \<Longrightarrow> fine (\<lambda>(p, r). v = p @ r \<and> tame r) (parse_quoted_pair v)"
  unfolding parse_quoted_pair_def by (auto split: list.splits intro: tame_split_at)

lemma length_drop_append: "drop n v = p @ q \<Longrightarrow> n \<le> length v \<Longrightarrow> n + length p \<le> length v"
  by (drule arg_cong [of _ _ length]) simp

lemma comment_loop_fine:
  "tame v \<Longrightarrow> n \<le> length v \<Longrightarrow> fine (\<lambda>(p, r). v = p @ r \<and> tame r) (comment_loop v n)"
proof (induction v n rule: comment_loop.induct)
  case (1 v n)
  have t: "tame (drop n v)" using "1.prems"(1) by (rule tame_drop)
  have step: "fine (\<lambda>(p, r). v = p @ r \<and> tame r) (and_then r (\<lambda>(p, _). comment_loop v (n + length p)))"
    if "fine (\<lambda>(p, r). drop n v = p @ r \<and> tame r) r"
      and "\<And>p q. r = Ok (p, q) \<Longrightarrow> n + length p \<le> length v \<Longrightarrow>
        fine (\<lambda>(p, r). v = p @ r \<and> tame r) (comment_loop v (n + length p))" for r
    using that "1.prems"(2) by (auto intro!: fine_and_then [OF that(1)] dest: length_drop_append)
  show ?case
  proof (cases "drop n v")
    case Nil
    then show ?thesis by (simp add: comment_loop.simps [of v n])
  next
    case (Cons c s)
    then have n: "n + 1 \<le> length v" using length_drop_append [of n v "[c]" s] "1.prems"(2) by simp
    have inner: "fine (\<lambda>(p, r). drop n v = p @ r \<and> tame r) (comment_loop (drop n v) 1)"
      if "\<not> (c = SP \<or> c = HT)" "c = CHR ''(''"
      using "1.IH"(2) [OF Cons that t] Cons by simp
    let ?Q = "\<lambda>(p, r). v = p @ r \<and> tame r" and ?next = "\<lambda>(p, _). comment_loop v (n + length p)"
    have blank: "fine ?Q (and_then (parse_folding_whitespace (drop n v)) ?next)" if "c = SP \<or> c = HT"
      using "1.IH"(1) [OF Cons that] "1.prems"(1) by (intro step folding_whitespace_fine t) simp
    have nested: "fine ?Q (and_then (comment_loop (drop n v) 1) ?next)" if "\<not> (c = SP \<or> c = HT)" "c = CHR ''(''"
      using "1.IH"(3) [OF Cons that] "1.prems"(1) by (intro step inner [OF that]) simp
    have pair: "fine ?Q (and_then (parse_quoted_pair (drop n v)) ?next)"
      if "\<not> (c = SP \<or> c = HT)" "c \<noteq> CHR ''(''" "c \<noteq> CHR '')''" "c = BACKSLASH"
      using "1.IH"(4) [OF Cons that] "1.prems"(1) by (intro step quoted_pair_fine t) simp
    have plain: "fine ?Q (comment_loop v (n + 1))"
      if "\<not> (c = SP \<or> c = HT)" "c \<noteq> CHR ''(''" "c \<noteq> CHR '')''" "c \<noteq> BACKSLASH" "is_comment_text c"
      using "1.IH"(5) [OF Cons that "1.prems"(1) n] .
    show ?thesis
      by (subst comment_loop.simps) (simp only: Cons list.case, intro fine_if blank [unfolded Cons]
          nested [unfolded Cons] pair [unfolded Cons] plain tame_split_at "1.prems"(1) n fine_simps(1))
  qed
qed

lemma comment_fine: "tame v \<Longrightarrow> fine (\<lambda>(p, r). v = p @ r \<and> tame r) (parse_comment v)"
  using comment_loop_fine [of v 1] unfolding parse_comment_def by (fastforce split: list.split)

lemma cfws_loop_fine:
  "tame v \<Longrightarrow> n \<le> length v \<Longrightarrow> fine (\<lambda>(p, r). v = p @ r \<and> tame r) (cfws_loop v b n f)"
proof (induction v b n f rule: cfws_loop.induct)
  case (1 v b n f)
  have t: "tame (drop n v)" using "1.prems"(1) by (rule tame_drop)
  have step: "fine (\<lambda>(p, r). v = p @ r \<and> tame r) (and_then r (\<lambda>(p, _). cfws_loop v b (n + length p) True))"
    if "fine (\<lambda>(p, r). drop n v = p @ r \<and> tame r) r"
      and "\<And>p q. r = Ok (p, q) \<Longrightarrow> n + length p \<le> length v \<Longrightarrow>
        fine (\<lambda>(p, r). v = p @ r \<and> tame r) (cfws_loop v b (n + length p) True)" for r
    using that "1.prems"(2) by (auto intro!: fine_and_then [OF that(1)] dest: length_drop_append)
  have here: "fine (\<lambda>(p, r). v = p @ r \<and> tame r) (split_at n v)" using "1.prems" by (rule tame_split_at)
  show ?case
  proof (cases "drop n v")
    case Nil
    then show ?thesis using here by (simp add: cfws_loop.simps [of v b n])
  next
    case (Cons c s)
    with t have "tame (c # s)" by simp
    then have fines: "fine (\<lambda>(p, r). drop n v = p @ r \<and> tame r) (parse_comment (drop n v))"
      "fine (\<lambda>(p, r). drop n v = p @ r \<and> tame r) (parse_folding_whitespace (drop n v))"
      using Cons comment_fine folding_whitespace_fine by simp_all
    have comment: "fine (\<lambda>(p, r). v = p @ r \<and> tame r)
        (and_then (parse_comment (drop n v)) (\<lambda>(p, _). cfws_loop v b (n + length p) True))" if "c = CHR ''(''"
      using "1.IH"(1) [OF Cons that] "1.prems"(1) by (intro step [OF fines(1)]) simp
    have blank: "fine (\<lambda>(p, r). v = p @ r \<and> tame r)
        (and_then (parse_folding_whitespace (drop n v)) (\<lambda>(p, _). cfws_loop v b (n + length p) True))"
      if "c \<noteq> CHR ''(''" "c = SP \<or> c = HT"
      using "1.IH"(2) [OF Cons that] "1.prems"(1) by (intro step [OF fines(2)]) simp
    show ?thesis
      by (subst cfws_loop.simps) (simp only: Cons list.case, intro fine_if comment [unfolded Cons] blank [unfolded Cons] here [unfolded Cons] fine_simps(1))
  qed
qed

lemma cfws_fine:
  "tame v \<Longrightarrow> fine (\<lambda>(_, r). tame r) (parse_comment_and_folding_whitespace v b)"
  unfolding parse_comment_and_folding_whitespace_def
  by (rule fine_mono [OF cfws_loop_fine]) auto

subsection \<open>The parts of a date\<close>

lemmas parse_fine = fine_and_then [OF tame_split_at] fine_and_then [OF cfws_fine]

lemma parse_day_fine: "tame v \<Longrightarrow> fine (\<lambda>(_, r). tame r) (parse_day v)"
  unfolding parse_day_def
  by (auto split: list.splits option.splits intro!: fine_and_then [OF tame_split_at])

lemma day_of_week_fine: "tame v \<Longrightarrow> fine (\<lambda>(_, r). tame r) (parse_day_of_week v)"
  unfolding parse_day_of_week_def Let_def by (auto intro!: fine_and_then [OF tame_split_at])

lemma parse_month_fine: "tame v \<Longrightarrow> fine (\<lambda>(_, r). tame r) (parse_month v)"
  unfolding parse_month_def Let_def by (auto intro!: fine_and_then [OF tame_split_at])

text \<open>With \<open>k\<close> digits read and at most nine in all, the year is below \<open>10 ^ k\<close>.\<close>

lemma year_loop_fine:
  "k + length (takeWhile digit v) \<le> 9 \<Longrightarrow> 0 \<le> y \<Longrightarrow> y < 10 ^ k \<Longrightarrow>
    fine (\<lambda>(_, n). n \<le> k + length v) (year_loop v y k)"
proof (induction v y k rule: year_loop.induct)
  case (2 c cs y k)
  show ?case
  proof (cases "to_digit c")
    case (Some d)
    then have d: "d \<le> 9" by (auto simp: to_digit_def split: if_splits)
    have k: "Suc k \<le> 9" using "2.prems"(1) Some by simp
    have y: "y * 10 + int d < 10 ^ Suc k" using "2.prems"(3) d by simp
    also have "\<dots> \<le> 10 ^ 9" using k by (rule power_increasing) simp
    finally have "y * 10 + int d \<le> i32_max" "y * 10 \<le> i32_max" using d by (auto simp: i32_max_def)
    then show ?thesis using "2.IH" [OF Some] "2.prems" Some y by (simp add: fine_mono)
  qed simp
qed simp

lemma parse_year_fine: "tame v \<Longrightarrow> fine (\<lambda>(_, r). tame r) (parse_year v)"
proof -
  assume v: "tame v"
  then have "length (takeWhile digit v) \<le> 9" by (simp add: tame_def)
  then have "fine (\<lambda>(_, n). n \<le> length v) (year_loop v 0 0)" using year_loop_fine [of 0 v 0] by simp
  then show ?thesis unfolding parse_year_def Let_def
    by (rule fine_and_then) (auto intro!: fine_and_then [OF tame_split_at [OF v]])
qed

lemma parse_date_fine: "tame v \<Longrightarrow> fine (\<lambda>(_, _, _, r). tame r) (parse_date v)"
  unfolding parse_date_def
  by (auto intro!: fine_and_then [OF parse_day_fine] fine_and_then [OF cfws_fine]
      fine_and_then [OF parse_month_fine] fine_and_then [OF parse_year_fine])

lemma two_digit_fine: "tame v \<Longrightarrow> fine (\<lambda>(_, r). tame r) (parse_2_digit_number v)"
  unfolding parse_2_digit_number_def
  by (auto split: list.splits option.splits intro!: fine_and_then [OF tame_split_at])

lemma colon_fine: "tame v \<Longrightarrow> fine tame (parse_colon v b)"
  unfolding parse_colon_def
  by (auto split: list.splits intro!: fine_and_then [OF cfws_fine] fine_and_then [OF tame_split_at])

lemma time_of_day_fine: "tame v \<Longrightarrow> fine (\<lambda>(_, _, _, r). tame r) (parse_time_of_day v)"
  unfolding parse_time_of_day_def Let_def
  by (auto intro!: fine_and_then [OF two_digit_fine] fine_and_then [OF colon_fine])

lemma take_chars_ascii: "\<forall>c \<in> set v. u8 c < 128 \<Longrightarrow> take_chars k v = take k v"
proof (induction k v rule: take_chars.induct)
  case (3 k c cs)
  then have "takeWhile is_cont cs = []" "dropWhile is_cont cs = cs"
    using cont_not_ascii by (cases cs; auto)+
  with 3 show ?case by simp
qed simp_all

lemma time_zone_fine: "tame v \<Longrightarrow> fine (\<lambda>(_, r). tame r) (parse_time_zone v)"
proof -
  assume v: "tame v"
  then have chars: "take_chars k v = take k v" "take_chars k (tl v) = take k (tl v)" for k
    by (intro take_chars_ascii; cases v; auto simp: tame_def)+
  have five: "5 \<le> length v" if "length (take 4 (tl v)) = 4" using that by (cases v) auto
  have "length (takeWhile is_ascii_alphabetic (take 3 v)) \<le> length v"
    by (metis length_takeWhile_le length_take min.bounded_iff order.trans nle_le)
  with five show ?thesis
    unfolding parse_time_zone_def Let_def chars
    by (auto split: option.splits intro!: fine_and_then [OF tame_split_at [OF v]])
qed

lemma parse_time_fine: "tame v \<Longrightarrow> fine (\<lambda>(_, _, _, _, r). tame r) (parse_time v)"
  unfolding parse_time_def
  by (auto intro!: fine_and_then [OF time_of_day_fine] fine_and_then [OF cfws_fine] fine_and_then [OF time_zone_fine])

lemma weekday_part_fine: "tame v \<Longrightarrow> fine (\<lambda>(_, r). tame r) (parse_weekday_part v)"
  unfolding parse_weekday_part_def
  by (auto split: list.splits intro!: fine_and_then [OF day_of_week_fine] fine_and_then [OF cfws_fine]
      fine_and_then [OF tame_split_at])

lemma date_time_fine: "tame v \<Longrightarrow> fine (\<lambda>_. True) (parse_date_time C v)"
  unfolding parse_date_time_def Let_def
  by (auto split: option.splits intro!: fine_and_then [OF weekday_part_fine] fine_and_then [OF cfws_fine]
      fine_and_then [OF parse_date_fine] fine_and_then [OF parse_time_fine])

lemma tame_intro:
  assumes "\<forall>c \<in> set v. u8 c < 128" "\<forall>a ds b. v = a @ ds @ b \<and> length ds = 10 \<longrightarrow> (\<exists>d \<in> set ds. to_digit d = None)"
  shows "tame v"
proof -
  have "length (takeWhile digit w) \<le> 9" if w: "suffix w v" for w
  proof (rule ccontr)
    assume "\<not> length (takeWhile digit w) \<le> 9"
    then have len: "length (take 10 (takeWhile digit w)) = 10" by simp
    let ?ds = "take 10 (takeWhile digit w)"
    obtain a where a: "v = a @ w" using w by (auto simp: suffix_def)
    have "w = ?ds @ drop 10 (takeWhile digit w) @ dropWhile digit w"
      by (metis append.assoc append_take_drop_id takeWhile_dropWhile_id)
    then have "v = a @ ?ds @ (drop 10 (takeWhile digit w) @ dropWhile digit w)" using a by simp
    with assms(2) len obtain d where "d \<in> set ?ds" "to_digit d = None" by blast
    then show False by (auto dest!: in_set_takeD set_takeWhileD)
  qed
  with assms(1) show ?thesis by (simp add: tame_def)
qed

end
