(* ===== verification/DateHeader.thy ===== *)
theory DateHeader
  imports DateText DateSafe TokenLists
begin

text \<open>
  The \<^verbatim>\<open>Date\<close> and \<^verbatim>\<open>Expires\<close> headers: \<^verbatim>\<open>rtsp-2/src/header/types/date.rs\<close> and
  \<^verbatim>\<open>rtsp-2/src/header/types/expires.rs\<close>. A decoder that panics gives \<^const>\<open>None\<close>. The calendar is the
  parameter \<open>C\<close>; \<^verbatim>\<open>format("%a, %e %b %Y %H:%M:%S %z")\<close> is \<open>chrono_format\<close>.
\<close>

datatype DateError = DateInvalidDateTime | DateMoreThanOneHeader

definition date_decode :: "'dt chrono_ops \<Rightarrow> HeaderValue list \<Rightarrow> (DateError + 'dt option) option" where
  "date_decode C values =
     (case values of
        [] \<Rightarrow> Some (Ok None)
      | value # rest \<Rightarrow>
          if rest \<noteq> [] then Some (Err DateMoreThanOneHeader)
          else
            (case parse_date_time C (value_as_str value) of
               Err DatePanic \<Rightarrow> None
             | Err DateTimeError \<Rightarrow> Some (Err DateInvalidDateTime)
             | Ok date_time \<Rightarrow> Some (Ok (Some date_time))))"

definition date_encode :: "'dt chrono_ops \<Rightarrow> 'dt \<Rightarrow> HeaderValue list" where
  "date_encode C date = [from_string_unchecked (chrono_format C date)]"

datatype ExpiresError = ExpiresInvalidDateTime | ExpiresMoreThanOneHeader

definition expires_decode :: "'dt chrono_ops \<Rightarrow> HeaderValue list \<Rightarrow> (ExpiresError + 'dt option) option" where
  "expires_decode C values =
     (case values of
        [] \<Rightarrow> Some (Ok None)
      | value # rest \<Rightarrow>
          if rest \<noteq> [] then Some (Err ExpiresMoreThanOneHeader)
          else
            (case parse_date_time C (value_as_str value) of
               Err DatePanic \<Rightarrow> None
             | Err DateTimeError \<Rightarrow> Some (Err ExpiresInvalidDateTime)
             | Ok date_time \<Rightarrow> Some (Ok (Some date_time))))"

definition expires_encode :: "'dt chrono_ops \<Rightarrow> 'dt \<Rightarrow> HeaderValue list" where
  "expires_encode C date = [from_string_unchecked (chrono_format C date)]"

definition expires_header_name :: HeaderName where "expires_header_name = HeaderExpires"

subsection \<open>What is used of the calendar\<close>

text \<open>
  A date and time that \<open>chrono\<close> prints and builds from its components: one in whole seconds, not a
  leap second, of a year of at most four digits. \<open>%e\<close> pads the day with a blank.
\<close>

definition chrono_prints :: "'dt chrono_ops \<Rightarrow> 'dt \<Rightarrow> nat \<Rightarrow> nat \<Rightarrow> nat \<Rightarrow> nat \<Rightarrow> nat \<Rightarrow> nat \<Rightarrow> bool" where
  "chrono_prints C date y m d h mi s \<longleftrightarrow>
     y < 10000 \<and> 1 \<le> m \<and> m \<le> 12 \<and> d < 100 \<and> h < 100 \<and> mi < 100 \<and> s < 100
     \<and> chrono_utc C 0 (int y) m d h mi s = Some date
     \<and> chrono_format C date =
         date_text (if d < 10 then 2 else 1) (chrono_weekday C date) d m y h mi s (zone_text False 0 0)"

text \<open>
  A calendar to run the parser with: the proleptic Gregorian one, over the seconds since 1970.
\<close>

definition leap_year :: "int \<Rightarrow> bool" where
  "leap_year y \<longleftrightarrow> y mod 4 = 0 \<and> (y mod 100 \<noteq> 0 \<or> y mod 400 = 0)"

definition month_days :: "int \<Rightarrow> nat \<Rightarrow> nat" where
  "month_days y m = (if m = 2 then (if leap_year y then 29 else 28) else if m \<in> {4, 6, 9, 11} then 30 else 31)"

definition days_from_civil :: "int \<Rightarrow> nat \<Rightarrow> nat \<Rightarrow> int" where
  "days_from_civil year m d =
     (let y = (if m \<le> 2 then year - 1 else year); yoe = y mod 400;
          doy = (153 * (if m > 2 then int m - 3 else int m + 9) + 2) div 5 + int d - 1
      in (y div 400) * 146097 + yoe * 365 + yoe div 4 - yoe div 100 + doy - 719468)"

definition civil_from_days :: "int \<Rightarrow> int \<times> nat \<times> nat" where
  "civil_from_days z =
     (let z = z + 719468; doe = z mod 146097;
          yoe = (doe - doe div 1460 + doe div 36524 - doe div 146096) div 365;
          doy = doe - (365 * yoe + yoe div 4 - yoe div 100);
          mp = (5 * doy + 2) div 153;
          m = (if mp < 10 then mp + 3 else mp - 9)
      in (yoe + z div 146097 * 400 + (if m \<le> 2 then 1 else 0), nat m, nat (doy - (153 * mp + 2) div 5 + 1)))"

definition gregorian_utc :: "int \<Rightarrow> int \<Rightarrow> nat \<Rightarrow> nat \<Rightarrow> nat \<Rightarrow> nat \<Rightarrow> nat \<Rightarrow> int option" where
  "gregorian_utc offset y m d h mi s =
     (if \<bar>offset\<bar> < 86400 \<and> \<bar>y\<bar> < 262144 \<and> 1 \<le> m \<and> m \<le> 12 \<and> 1 \<le> d \<and> d \<le> month_days y m \<and> h < 24 \<and> mi < 60 \<and> s < 60
      then Some (days_from_civil y m d * 86400 + int (h * 3600 + mi * 60 + s) - offset) else None)"

definition gregorian_weekday :: "int \<Rightarrow> Weekday" where
  "gregorian_weekday t = [Thu, Fri, Sat, Sun, Mon, Tue, Wed] ! nat ((t div 86400) mod 7)"

definition gregorian_format :: "int \<Rightarrow> bytes" where
  "gregorian_format t =
     (case civil_from_days (t div 86400) of (y, m, d) \<Rightarrow>
        (let r = nat (t mod 86400)
         in date_text (if d < 10 then 2 else 1) (gregorian_weekday t) d m (nat y)
              (r div 3600) (r div 60 mod 60) (r mod 60) (zone_text False 0 0)))"

definition gregorian :: "int chrono_ops" where
  "gregorian =
     \<lparr>chrono_utc = gregorian_utc, chrono_weekday = gregorian_weekday, chrono_format = gregorian_format\<rparr>"

lemma gregorian_ops [simp]:
  "chrono_utc gregorian = gregorian_utc" "chrono_weekday gregorian = gregorian_weekday"
  "chrono_format gregorian = gregorian_format"
  by (simp_all add: gregorian_def)

subsection \<open>Facts\<close>

lemma date_decode_single:
  "date_decode C [v] = map_option (map_err (\<lambda>_. DateInvalidDateTime))
     (case parse_date_time C (value_as_str v) of
        Err DatePanic \<Rightarrow> None | Err DateTimeError \<Rightarrow> Some (Err DateTimeError) | Ok t \<Rightarrow> Some (Ok (Some t)))"
  "expires_decode C [v] = map_option (map_err (\<lambda>_. ExpiresInvalidDateTime))
     (case parse_date_time C (value_as_str v) of
        Err DatePanic \<Rightarrow> None | Err DateTimeError \<Rightarrow> Some (Err DateTimeError) | Ok t \<Rightarrow> Some (Ok (Some t)))"
  by (simp_all add: date_decode_def expires_decode_def split: sum.split date_stop.split)

lemma text_byte_dig [simp]: "n < 10 \<Longrightarrow> text_byte (dig n) \<and> is_ascii (dig n)"
  by (simp add: text_byte_def is_ascii_def)

lemma day_name_text: "\<forall>c \<in> set (day_name wd). text_byte c \<and> is_ascii c"
  by (cases wd; hypsubst; code_simp)

lemma month_names_text: "\<forall>n \<in> set month_names. \<forall>c \<in> set n. text_byte c \<and> is_ascii c"
  by code_simp

abbreviation texts :: "bytes \<Rightarrow> bool" where
  "texts \<equiv> list_all (\<lambda>c. text_byte c \<and> is_ascii c)"

lemma texts_parts:
  "texts (day_name wd)" "1 \<le> m \<Longrightarrow> m \<le> 12 \<Longrightarrow> texts (month_names ! (m - 1))"
  "n < 100 \<Longrightarrow> texts (two n)" "n < 100 \<Longrightarrow> texts (decimal n)" "texts (replicate k SP)"
proof -
  show "texts (day_name wd)" using day_name_text by (simp add: list_all_iff)
  show "texts (month_names ! (m - 1))" if "1 \<le> m" "m \<le> 12"
  proof -
    have "length month_names = 12" by code_simp
    then have "month_names ! (m - 1) \<in> set month_names" using that by (intro nth_mem) simp
    with month_names_text show ?thesis unfolding list_all_iff by blast
  qed
  show two: "texts (two n)" if "n < 100" for n using that by (simp add: two_def)
  then show "texts (decimal n)" if "n < 100" using that by (simp add: decimal_2)
  have "text_byte SP \<and> is_ascii SP" by code_simp
  then show "texts (replicate k SP)" by (simp add: list_all_iff)
qed

lemma texts_seps: "texts [SP]" "texts [CHR '','']" "texts [CHR '':'']" "texts [CHR ''+'']"
  by code_simp+

lemma texts_append: "texts (a @ b) \<longleftrightarrow> texts a \<and> texts b"
  by simp

lemma date_text_text:
  assumes "y < 10000" "1 \<le> m" "m \<le> 12" "d < 100" "h < 100" "mi < 100" "s < 100"
  shows "texts (date_text k wd d m y h mi s (zone_text False 0 0))"
proof -
  have zone: "texts (zone_text False 0 0)" by code_simp
  have "date_text k wd d m y h mi s (zone_text False 0 0) =
      day_name wd @ [CHR '',''] @ replicate k SP @ decimal d @ [SP] @ month_names ! (m - 1) @ [SP]
      @ two (y div 100) @ two (y mod 100) @ [SP] @ two h @ [CHR '':''] @ two mi @ [CHR '':''] @ two s @ [SP]
      @ zone_text False 0 0"
    by (simp add: date_text_def)
  moreover have "y div 100 < 100" "y mod 100 < 100" using assms(1) by auto
  ultimately show ?thesis
    by (simp only: texts_append texts_parts texts_seps zone assms simp_thms)
qed

lemma civil_dates: "civil_from_days 17533 = (2018, 1, 2)" "civil_from_days 16261 = (2014, 7, 10)"
  "civil_from_days 11016 = (2000, 2, 29)"
  by code_simp+

lemmas gregorian_eval = gregorian_utc_def gregorian_weekday_def days_from_civil_def month_days_def leap_year_def

lemma dig_chars: "dig 0 = CHR ''0''" "dig 1 = CHR ''1''" "dig (Suc 0) = CHR ''1''" "dig 2 = CHR ''2''"
  "dig 3 = CHR ''3''" "dig 4 = CHR ''4''" "dig 5 = CHR ''5''" "dig 6 = CHR ''6''" "dig 7 = CHR ''7''"
  "dig 8 = CHR ''8''" "dig 9 = CHR ''9''"
  by code_simp+

subsection \<open>Properties\<close>

text \<open>
  C37. A date written the way RFC 5322 asks for, with any offset, any day below a hundred and any number
  of blanks after the comma, decodes to the instant that the calendar gives for its components; but only
  if the day of the week is the one that instant has in UTC, not the one of the date that is written.
  Whatever text follows the offset makes no difference, unless it begins with a blank, a line break, a
  comment or a character outside ASCII.
\<close>

theorem date_zone_exact:
  assumes "d < 100" "1 \<le> m" "m \<le> 12" "y < 10000" "h < 100" "mi < 100" "s < 100" "zh < 100" "zm < 100"
    and "x = [] \<or> plain (hd x)"
  shows "date_decode C [HeaderValue (date_text k wd d m y h mi s (zone_text west zh zm @ x))] =
      Some (case chrono_utc C ((if west then - 1 else 1) * (int zh * 3600 + int zm * 60)) (int y) m d h mi s of
         None \<Rightarrow> Err DateInvalidDateTime
       | Some date \<Rightarrow> if chrono_weekday C date = wd then Ok (Some date) else Err DateInvalidDateTime)
    \<and> expires_decode C [HeaderValue (date_text k wd d m y h mi s (zone_text west zh zm @ x))] =
      Some (case chrono_utc C ((if west then - 1 else 1) * (int zh * 3600 + int zm * 60)) (int y) m d h mi s of
         None \<Rightarrow> Err ExpiresInvalidDateTime
       | Some date \<Rightarrow> if chrono_weekday C date = wd then Ok (Some date) else Err ExpiresInvalidDateTime)"
  unfolding date_decode_single HeaderValue.sel date_text_parse [OF assms]
  by (simp split: option.split)

theorem date_zone_exact_witness:
  "date_decode gregorian [HeaderValue (date_text 1 Mon 1 1 2018 23 0 0 (zone_text True 5 0))] =
     Some (Err DateInvalidDateTime)
   \<and> expires_decode gregorian [HeaderValue (date_text 1 Tue 2 1 2018 4 0 0 (zone_text False 0 0 @ ''9x''))] =
     Some (Ok (Some 1514865600))"
proof -
  have "chrono_utc gregorian (- 1 * (int 5 * 3600 + int 0 * 60)) (int 2018) 1 1 23 0 0 = Some 1514865600"
    "chrono_utc gregorian (1 * (int 0 * 3600 + int 0 * 60)) (int 2018) 1 2 4 0 0 = Some 1514865600"
    "chrono_weekday gregorian 1514865600 = Tue"
    by (simp_all add: gregorian_eval)
  then show ?thesis
    using date_zone_exact [of 1 1 2018 23 0 0 5 0 "[]" gregorian 1 Mon True]
      date_zone_exact [of 2 1 2018 4 0 0 0 0 "''9x''" gregorian 1 Tue False]
    by (simp add: plain_def is_cont_def SP_def HT_def CR_def)
qed

text \<open>What is written for a date can be sent, and is read back.\<close>

lemma date_written:
  assumes "chrono_prints C date y m d h mi s"
  shows "value_valid (from_string_unchecked (chrono_format C date))"
    "date_decode C (date_encode C date) = Some (Ok (Some date))"
    "expires_decode C (expires_encode C date) = Some (Ok (Some date))"
proof -
  note prints = assms [unfolded chrono_prints_def]
  have "texts (chrono_format C date)" using date_text_text prints by simp
  then show "value_valid (from_string_unchecked (chrono_format C date))"
    by (intro ascii_value_valid) (simp add: list_all_iff)
  have "parse_date_time C (chrono_format C date) = Ok date"
    using prints date_text_parse [of d m y h mi s 0 0 "[]" C] by simp
  then show "date_decode C (date_encode C date) = Some (Ok (Some date))"
    "expires_decode C (expires_encode C date) = Some (Ok (Some date))"
    by (simp_all add: date_encode_def expires_encode_def date_decode_single from_string_unchecked_def)
qed

lemma gregorian_dates:
  "gregorian_weekday 1404983411 = Thu" "gregorian_weekday 951782400 = Tue"
  "gregorian_format 1404983411 = date_text 1 Thu 10 7 2014 9 10 11 (zone_text False 0 0)"
  "gregorian_format 951782400 = date_text 1 Tue 29 2 2000 0 0 0 (zone_text False 0 0)"
proof -
  show "gregorian_weekday 1404983411 = Thu" "gregorian_weekday 951782400 = Tue"
    by (simp_all add: gregorian_weekday_def)
  then show "gregorian_format 1404983411 = date_text 1 Thu 10 7 2014 9 10 11 (zone_text False 0 0)"
    "gregorian_format 951782400 = date_text 1 Tue 29 2 2000 0 0 0 (zone_text False 0 0)"
    by (simp_all add: gregorian_format_def civil_dates)
qed

lemma gregorian_prints:
  "chrono_prints gregorian 1404983411 2014 7 10 9 10 11" "chrono_prints gregorian 951782400 2000 2 29 0 0 0"
  by (simp_all add: chrono_prints_def gregorian_eval gregorian_dates)

lemma gregorian_texts:
  "gregorian_format 1404983411 = ''Thu, 10 Jul 2014 09:10:11 +0000''"
  "gregorian_format 951782400 = ''Tue, 29 Feb 2000 00:00:00 +0000''"
  by (simp_all add: gregorian_dates date_text_def zone_text_def decimal_2 two_def month_names_def dig_chars SP_def)

text \<open>
  C39. The headers round trip: a date in whole seconds of a year of four digits is written as a valid
  header value, and what is written decodes to the same date.
\<close>

theorem date_headers_roundtrip:
  assumes "chrono_prints C date y m d h mi s"
  shows "date_decode C (date_encode C date) = Some (Ok (Some date))
    \<and> expires_decode C (expires_encode C date) = Some (Ok (Some date))
    \<and> (\<forall>v \<in> set (date_encode C date) \<union> set (expires_encode C date). value_valid v)"
  using date_written [OF assms] by (simp add: date_encode_def expires_encode_def)

theorem date_headers_roundtrip_witness:
  "date_decode gregorian (date_encode gregorian 1404983411) = Some (Ok (Some 1404983411))
   \<and> chrono_format gregorian 1404983411 = ''Thu, 10 Jul 2014 09:10:11 +0000''
   \<and> expires_decode gregorian (expires_encode gregorian 951782400) = Some (Ok (Some 951782400))
   \<and> chrono_format gregorian 951782400 = ''Tue, 29 Feb 2000 00:00:00 +0000''"
  using date_headers_roundtrip [OF gregorian_prints(1)] date_headers_roundtrip [OF gregorian_prints(2)] gregorian_texts
  by (simp add: gregorian_ops)

text \<open>
  C38. Decoding a date of ASCII characters without ten digits in a row never panics, whatever the calendar
  is. Both conditions are needed: an accepted header value with two letters and an accented one panics
  in \<open>split_at\<close>, and a year just above the 32-bit range in the addition.
\<close>

theorem date_decoding_panics:
  assumes "\<forall>c \<in> set v. u8 c < 128"
    and "\<forall>a ds b. v = a @ ds @ b \<and> length ds = 10 \<longrightarrow> (\<exists>c \<in> set ds. to_digit c = None)"
  shows "date_decode C (HeaderValue v # vs) \<noteq> None \<and> expires_decode C (HeaderValue v # vs) \<noteq> None
    \<and> (let u = ''ab'' @ [CHR 0xC3, CHR 0xA9] in
        value_try_from u = Ok (HeaderValue u) \<and> date_decode C [HeaderValue u] = None)
    \<and> date_decode C [HeaderValue ''1 Jan 2147483648 00:00:00 GMT''] = None"
proof -
  have "parse_date_time C v \<noteq> Err DatePanic"
    using date_time_fine [OF tame_intro [OF assms], of C] by (auto simp: fine_def)
  then have "date_decode C (HeaderValue v # vs) \<noteq> None" "expires_decode C (HeaderValue v # vs) \<noteq> None"
    by (simp_all add: date_decode_def expires_decode_def split: sum.split date_stop.split)
  moreover have "value_try_from (''ab'' @ [CHR 0xC3, CHR 0xA9]) = Ok (HeaderValue (''ab'' @ [CHR 0xC3, CHR 0xA9]))"
    by code_simp
  moreover have "parse_weekday_part (''ab'' @ [CHR 0xC3, CHR 0xA9]) = Err DatePanic"
    "parse_comment_and_folding_whitespace (''ab'' @ [CHR 0xC3, CHR 0xA9]) True = Ok ([], ''ab'' @ [CHR 0xC3, CHR 0xA9])"
    by code_simp+
  then have "parse_date_time C (''ab'' @ [CHR 0xC3, CHR 0xA9]) = Err DatePanic"
    by (simp only: parse_date_time_def and_then_simps prod.case)
  moreover have "parse_comment_and_folding_whitespace ''1 Jan 2147483648 00:00:00 GMT'' True =
      Ok ([], ''1 Jan 2147483648 00:00:00 GMT'')"
    "parse_weekday_part ''1 Jan 2147483648 00:00:00 GMT'' = Ok (None, ''1 Jan 2147483648 00:00:00 GMT'')"
    "parse_date ''1 Jan 2147483648 00:00:00 GMT'' = Err DatePanic"
    by code_simp+
  then have "parse_date_time C ''1 Jan 2147483648 00:00:00 GMT'' = Err DatePanic"
    by (simp only: parse_date_time_def and_then_simps prod.case)
  ultimately show ?thesis by (simp add: date_decode_single Let_def)
qed

theorem date_decoding_panics_witness:
  "date_decode gregorian [HeaderValue ''1 Jan 70''] \<noteq> None"
proof -
  have "\<forall>a ds b. ''1 Jan 70'' = a @ ds @ b \<and> length ds = 10 \<longrightarrow> (\<exists>c \<in> set ds. to_digit c = None)"
  proof (intro allI impI)
    fix a ds b :: bytes
    assume "''1 Jan 70'' = a @ ds @ b \<and> length ds = 10"
    then have "length (''1 Jan 70'' :: bytes) = length a + 10 + length b" by (metis add.assoc length_append)
    then show "\<exists>c \<in> set ds. to_digit c = None" by simp
  qed
  moreover have "\<forall>c \<in> set ''1 Jan 70''. u8 c < 128" by simp
  ultimately show ?thesis using date_decoding_panics [of "''1 Jan 70''" gregorian "[]"] by blast
qed

end
