(* ===== verification/EndToEnd.thy ===== *)
theory EndToEnd
  imports Server DateHeader
begin

text \<open>
  From end to end: the requests of a client, encoded, decoded by the server, put in order by its
  receiver, handled, answered by its service, and the answers dated, encoded and decoded by the
  client. No further code is modelled here: the theory composes the operations of the others.
\<close>

subsection \<open>The form of the answers\<close>

definition answer_form :: "'m header_map_ops \<Rightarrow> StatusCode \<Rightarrow> headers \<Rightarrow> (bytes, 'm) Response \<Rightarrow> bool" where
  "answer_form M s l r \<longleftrightarrow>
     resp_status_code r = s \<and> canonical_reason s = Some (resp_reason_phrase r) \<and> resp_version r = Rtsp2_0
     \<and> resp_body r = [] \<and> map_iter M (resp_headers r) = l"

lemma built_response_form:
  assumes "\<not> is_status_extension (rsb_status_code b)" "rsb_version b = Rtsp2_0"
  shows "\<exists>r. built_response b = Some r \<and> answer_form M (rsb_status_code b) (map_iter M (rsb_headers b)) r"
proof -
  obtain p where "canonical_reason (rsb_status_code b) = Some p"
    using canonical_phrase_standard [OF assms(1)] by (auto simp: canonical_reason_def)
  with assms show ?thesis
    by (simp add: built_response_def response_build_eq built_phrase_def response_with_body_def answer_form_def)
qed

lemma canned_response_built:
  "canned_response M s = built_response (response_set_status_code s (response_builder_new M))"
  by (simp add: canned_response_def built_response_def split: option.split sum.split)

lemma canned_form:
  assumes "header_map_laws M" "\<not> is_status_extension s"
  shows "\<exists>r. canned_response M s = Some r \<and> answer_form M s [] r"
  using built_response_form [of "response_set_status_code s (response_builder_new M)" M] assms
  by (simp add: canned_response_built response_set_status_code_def response_builder_new_def version_default_def
      header_map_lawsD(1))

lemma typed_answer_form:
  assumes "header_map_laws M" "\<not> is_status_extension s" "enc x = [v]"
  shows "\<exists>r. built_response (response_typed_header M k enc x (response_set_status_code s (response_builder_new M))) = Some r
    \<and> answer_form M s [(k, v)] r"
proof -
  have "map_iter M (typed_insert M k enc x (HeaderMap.map_default M)) = [(k, v)]"
    using typed_insert_absent [OF assms(1), of "HeaderMap.map_default M" k enc x v] assms(3) header_map_lawsD(1) [OF assms(1)]
    by simp
  then show ?thesis
    using assms(2) built_response_form [of
        "response_typed_header M k enc x (response_set_status_code s (response_builder_new M))" M]
    by (simp add: response_typed_header_def response_set_status_code_def response_builder_new_def version_default_def)
qed

text \<open>The status of the answer, as a function of the request that arrives.\<close>

definition setup_status :: "'m header_map_ops \<Rightarrow> ('r, RangeFormat) linked_set_ops \<Rightarrow> 'm \<Rightarrow> StatusCode" where
  "setup_status M R headers =
     (case typed_try_get M accept_ranges_header_name (accept_ranges_decode R) headers of
        Err _ \<Rightarrow> BadRequest | Ok _ \<Rightarrow> HeaderFieldNotValidForResource)"

definition answer_status ::
  "'m header_map_ops \<Rightarrow> ('r, RangeFormat) linked_set_ops \<Rightarrow> (bytes, 'm, 'u) Request \<Rightarrow> StatusCode" where
  "answer_status M R request =
     (if uri_scheme (req_uri request) = Some RTSPU then NotImplemented
      else if req_body request \<noteq> [] \<and> \<not> map_contains_key M (req_headers request) HeaderContentType then BadRequest
      else case req_method request of
        Options \<Rightarrow> if uri_is_asterisk (req_uri request) then OK else NotFound
      | Setup \<Rightarrow> setup_status M R (req_headers request)
      | _ \<Rightarrow> NotImplemented)"

definition answer_headers :: "StatusCode \<Rightarrow> headers" where
  "answer_headers s =
     (if s = OK then [(HeaderPublic, HeaderValue ''OPTIONS, SETUP'')]
      else if s = HeaderFieldNotValidForResource then [(HeaderAcceptRanges, HeaderValue [])] else [])"

lemma options_form:
  fixes M :: "'m header_map_ops"
  assumes "header_map_laws M" "linked_set_laws L"
  shows "\<exists>s r. options_response M L asterisk = Some r \<and> answer_form M s (answer_headers s) r
    \<and> s = (if asterisk then OK else NotFound)"
proof (cases asterisk)
  case True
  have "public_encode L (supported_methods_set L) = [from_string_unchecked ''OPTIONS, SETUP'']"
    unfolding public_encode_def token_list_encode_def supported_methods_iter [OF assms(2)] by code_simp
  then have "public_encode L (supported_methods_set L) = [HeaderValue ''OPTIONS, SETUP'']"
    by (simp add: from_string_unchecked_def)
  moreover have "response_set_status_code OK (response_builder_new M) = (response_builder_new M :: (unit, 'm) response_builder)"
    by (simp add: response_set_status_code_def response_builder_new_def status_default_def)
  ultimately show ?thesis
    using typed_answer_form [OF assms(1), of OK "public_encode L" "supported_methods_set L" _ public_header_name] True
    by (simp add: options_response_def is_status_extension_def answer_headers_def public_header_name_def)
next
  case False
  then show ?thesis
    using canned_form [OF assms(1), of NotFound]
    by (simp add: options_response_def canned_response_built is_status_extension_def answer_headers_def)
qed

lemma setup_form:
  assumes "header_map_laws M" "linked_set_laws R"
  shows "\<exists>r. setup_response M R headers = Some r
    \<and> answer_form M (setup_status M R headers) (answer_headers (setup_status M R headers)) r"
proof (cases "typed_try_get M accept_ranges_header_name (accept_ranges_decode R) headers")
  case (Inl e)
  then show ?thesis
    using canned_form [OF assms(1), of BadRequest]
    by (simp add: setup_response_def setup_status_def BAD_REQUEST_RESPONSE_def is_status_extension_def answer_headers_def)
next
  case (Inr a)
  have "accept_ranges_encode R (accept_ranges_new R) = [HeaderValue []]"
    using linked_set_lawsD(1) [OF assms(2)]
    by (simp add: accept_ranges_encode_def token_list_encode_def accept_ranges_new_def from_string_unchecked_def)
  then show ?thesis
    using Inr typed_answer_form [OF assms(1), of HeaderFieldNotValidForResource "accept_ranges_encode R" "accept_ranges_new R" _
        accept_ranges_header_name]
    by (simp add: setup_response_def setup_status_def is_status_extension_def answer_headers_def accept_ranges_header_name_def)
qed

lemma service_form:
  assumes "header_map_laws M" "linked_set_laws L" "linked_set_laws R"
  shows "\<exists>s. answer_form M s (answer_headers s) (service_answer M L R request)
    \<and> s = (case req_method request of
        Options \<Rightarrow> if uri_is_asterisk (req_uri request) then OK else NotFound
      | Setup \<Rightarrow> setup_status M R (req_headers request)
      | _ \<Rightarrow> NotImplemented)"
proof -
  obtain r where "options_response M L (uri_is_asterisk (req_uri request)) = Some r"
    "answer_form M (if uri_is_asterisk (req_uri request) then OK else NotFound)
       (answer_headers (if uri_is_asterisk (req_uri request) then OK else NotFound)) r"
    using options_form [OF assms(1,2)] by blast
  moreover obtain r' where "setup_response M R (req_headers request) = Some r'"
    "answer_form M (setup_status M R (req_headers request)) (answer_headers (setup_status M R (req_headers request))) r'"
    using setup_form [OF assms(1,3)] by blast
  moreover obtain r'' where "NOT_IMPLEMENTED_RESPONSE M = Some r''" "answer_form M NotImplemented [] r''"
    using canned_form [OF assms(1), of NotImplemented] by (auto simp: NOT_IMPLEMENTED_RESPONSE_def is_status_extension_def)
  moreover have "answer_headers NotImplemented = []" by (simp add: answer_headers_def)
  ultimately show ?thesis by (cases "req_method request") (simp_all add: service_answer_def)
qed

text \<open>What the server sends for a request: numbered by the handler, dated by the sender.\<close>

definition sent_headers :: "StatusCode \<Rightarrow> CSeq \<Rightarrow> HeaderValue \<Rightarrow> headers" where
  "sent_headers s cseq now =
     answer_headers s @ [(HeaderCSeq, from_string_unchecked (decimal (unat (cseq_value cseq)))), (HeaderDate, now)]"

lemma answer_names:
  "values_of (answer_headers s) HeaderCSeq = []" "values_of (answer_headers s) HeaderDate = []"
  "\<not> hname_eq HeaderCSeq HeaderDate" "\<not> hname_eq HeaderDate HeaderCSeq"
  "hname_eq HeaderCSeq HeaderCSeq" "\<not> hname_eq HeaderContentLength HeaderCSeq"
  "filter (\<lambda>(h, _). \<not> hname_eq h HeaderContentLength) (answer_headers s) = answer_headers s"
  "\<not> hname_eq HeaderCSeq HeaderContentLength" "\<not> hname_eq HeaderDate HeaderContentLength"
  "\<not> hname_eq HeaderContentLength HeaderContentType" "\<not> hname_eq HeaderContentLength HeaderAcceptRanges"
  "\<not> hname_eq HeaderContentLength HeaderDate" "hname_eq HeaderDate HeaderDate"
proof -
  have names: "\<not> hname_eq HeaderPublic HeaderCSeq" "\<not> hname_eq HeaderAcceptRanges HeaderCSeq"
    "\<not> hname_eq HeaderPublic HeaderDate" "\<not> hname_eq HeaderAcceptRanges HeaderDate"
    "\<not> hname_eq HeaderPublic HeaderContentLength" "\<not> hname_eq HeaderAcceptRanges HeaderContentLength"
    by code_simp+
  show "\<not> hname_eq HeaderCSeq HeaderDate" "\<not> hname_eq HeaderDate HeaderCSeq"
    "hname_eq HeaderCSeq HeaderCSeq" "\<not> hname_eq HeaderContentLength HeaderCSeq"
    "\<not> hname_eq HeaderCSeq HeaderContentLength" "\<not> hname_eq HeaderDate HeaderContentLength"
    "\<not> hname_eq HeaderContentLength HeaderContentType" "\<not> hname_eq HeaderContentLength HeaderAcceptRanges"
    "\<not> hname_eq HeaderContentLength HeaderDate" "hname_eq HeaderDate HeaderDate"
    by code_simp+
  show "values_of (answer_headers s) HeaderCSeq = []" "values_of (answer_headers s) HeaderDate = []"
    "filter (\<lambda>(h, _). \<not> hname_eq h HeaderContentLength) (answer_headers s) = answer_headers s"
    using names by (simp_all add: answer_headers_def)
qed

lemma sent_iter:
  assumes "header_map_laws M" "answer_form M s (answer_headers s) r"
  shows "map_iter M (typed_insert M date_header_name id [now] (resp_headers (number_response M cseq r))) = sent_headers s cseq now"
proof -
  have "map_iter M (resp_headers (number_response M cseq r)) =
      answer_headers s @ [(HeaderCSeq, from_string_unchecked (decimal (unat (cseq_value cseq))))]"
    using typed_insert_absent [OF assms(1), of "resp_headers r" cseq_header_name cseq_encode cseq] assms(2)
    by (simp add: number_response_def answer_form_def cseq_encode_def cseq_header_name_def answer_names)
  then show ?thesis
    using typed_insert_absent [OF assms(1), of "resp_headers (number_response M cseq r)" date_header_name id "[now]" now]
    by (simp add: sent_headers_def date_header_name_def values_of_append answer_names)
qed

text \<open>The lines of a date that can be written.\<close>

definition date_line_ok :: "HeaderValue \<Rightarrow> bool" where
  "date_line_ok now \<longleftrightarrow>
     header_line_ok HEADER_NAME_DEFAULT_MAX_LENGTH HEADER_VALUE_DEFAULT_MAX_LENGTH (HeaderDate, now)"

lemma date_text_length:
  assumes "1 \<le> m" "m \<le> 12" "d < 100"
  shows "length (date_text k wd d m y h mi s (zone_text False 0 0)) \<le> k + 40"
proof -
  have "list_all (\<lambda>n. length n = 3) month_names" "length month_names = 12" "length (zone_text False 0 0) = 5" by code_simp+
  then have "length (month_names ! (m - 1)) = 3" "length (zone_text False 0 0) = 5"
    using assms(1,2) by (auto simp: list_all_length)
  moreover have "length (day_name wd) = 3" by (cases wd) simp_all
  moreover have "length (decimal d) \<le> 2" using assms(3) by (simp add: decimal_2 two_def)
  ultimately show ?thesis by (simp add: date_text_def two_def)
qed

lemma date_text_line:
  assumes "chrono_prints C date y m d h mi s"
  shows "date_line_ok (from_string_unchecked (chrono_format C date))"
proof -
  note prints = assms [unfolded chrono_prints_def]
  let ?t = "chrono_format C date"
  have t: "?t = date_text (if d < 10 then 2 else 1) (chrono_weekday C date) d m y h mi s (zone_text False 0 0)"
    using prints by simp
  have "length ?t \<le> 42" using date_text_length [of m d "if d < 10 then 2 else 1" "chrono_weekday C date" y h mi s] prints
    unfolding t by (auto split: if_splits)
  moreover have "value_valid (from_string_unchecked ?t)" using date_written [OF assms] by simp
  moreover have "\<not> is_blank (hd ?t)"
    unfolding t date_text_def by (cases "chrono_weekday C date") (simp_all add: is_blank_def byte_consts)
  moreover have "header_valid HeaderDate" "length (canonical_name HeaderDate) \<le> 100" by code_simp+
  ultimately show ?thesis
    by (simp add: date_line_ok_def header_line_ok_def decoder_limits from_string_unchecked_def Let_def)
qed

lemma decimal_length: "n < 10 ^ Suc k \<Longrightarrow> length (decimal n) \<le> Suc k"
proof (induction k arbitrary: n)
  case (Suc k)
  then have "n div 10 < 10 ^ Suc k" by (simp add: less_mult_imp_div_less)
  from Suc.IH [OF this] show ?case by (simp add: decimal.simps [of n])
qed (simp add: decimal.simps)

lemma cseq_line_ok:
  assumes "cseq_valid cseq"
  shows "header_line_ok HEADER_NAME_DEFAULT_MAX_LENGTH HEADER_VALUE_DEFAULT_MAX_LENGTH
    (HeaderCSeq, from_string_unchecked (decimal (unat (cseq_value cseq))))"
proof -
  let ?d = "decimal (unat (cseq_value cseq))"
  have "length ?d \<le> Suc 8" using assms decimal_length [of "cseq_nat cseq" 8] by (simp add: cseq_valid_iff)
  moreover have "header_valid HeaderCSeq" "length (canonical_name HeaderCSeq) \<le> 100" by code_simp+
  moreover have "\<not> is_blank (hd ?d)"
    using decimal_digits [OF hd_in_set [OF decimal_nonempty [of "unat (cseq_value cseq)"]]]
    by (auto simp: is_blank_def byte_consts)
  ultimately show ?thesis
    using decimal_value_valid by (simp add: header_line_ok_def decoder_limits from_string_unchecked_def Let_def)
qed

lemma answer_lines:
  "list_all (header_line_ok HEADER_NAME_DEFAULT_MAX_LENGTH HEADER_VALUE_DEFAULT_MAX_LENGTH) (answer_headers s)"
proof -
  have "header_line_ok 100 2000 (HeaderPublic, HeaderValue ''OPTIONS, SETUP'')"
    "header_line_ok 100 2000 (HeaderAcceptRanges, HeaderValue [])" by code_simp+
  then show ?thesis by (simp add: answer_headers_def decoder_limits)
qed

lemma sent_keys: "keys_consistent (sent_headers s cseq now)"
proof -
  have "hname_eq a b = (a = b)" if "a \<in> {HeaderPublic, HeaderAcceptRanges, HeaderCSeq, HeaderDate}"
      "b \<in> {HeaderPublic, HeaderAcceptRanges, HeaderCSeq, HeaderDate}" for a b
    using that by (auto simp: hname_eq_def)
  then show ?thesis by (auto simp: keys_consistent_def sent_headers_def answer_headers_def)
qed

lemma canonical_answers:
  assumes "s \<in> {OK, NotFound, BadRequest, NotImplemented, HeaderFieldNotValidForResource}"
    "canonical_reason s = Some p"
  shows "status_valid s" "reason_valid p" "length (reason_as_str p) \<le> 50" "\<not> is_status_extension s"
proof -
  have "list_all (\<lambda>s. status_valid s \<and> \<not> is_status_extension s \<and> (case canonical_reason s of None \<Rightarrow> False
      | Some p \<Rightarrow> reason_valid p \<and> length (reason_as_str p) \<le> 50))
    [OK, NotFound, BadRequest, NotImplemented, HeaderFieldNotValidForResource]" by code_simp
  then show "status_valid s" "reason_valid p" "length (reason_as_str p) \<le> 50" "\<not> is_status_extension s"
    using assms by auto
qed

lemma sent_encodable:
  assumes "s \<in> {OK, NotFound, BadRequest, NotImplemented, HeaderFieldNotValidForResource}"
    and "cseq_valid cseq" "date_line_ok now"
    and r: "resp_status_code r = s" "canonical_reason s = Some (resp_reason_phrase r)" "resp_version r = Rtsp2_0"
      "resp_body r = []" "map_iter M (resp_headers r) = sent_headers s cseq now"
  shows "response_encodable M response_config_default r"
proof -
  have l: "encoded_headers (map_iter M (resp_headers r)) [] = sent_headers s cseq now"
    by (simp add: r encoded_headers_def sent_headers_def answer_names)
  have "length (sent_headers s cseq now) \<le> 3" by (simp add: sent_headers_def answer_headers_def)
  moreover have "list_all (header_line_ok HEADER_NAME_DEFAULT_MAX_LENGTH HEADER_VALUE_DEFAULT_MAX_LENGTH) (sent_headers s cseq now)"
    using answer_lines cseq_line_ok [OF assms(2)] assms(3) by (simp add: sent_headers_def date_line_ok_def)
  ultimately show ?thesis
    using canonical_answers [OF assms(1) r(2)] sent_keys l
    by (simp add: response_encodable_def response_config_default_def r(1,3,4) built_phrase_def r(2) decoder_limits)
qed

subsection \<open>Requests that arrive in order\<close>

lemma cseq_powers:
  assumes "cseq_valid c"
  shows "cseq_valid ((wrapping_increment ^^ n) c)"
    "cseq_nat ((wrapping_increment ^^ n) c) = (cseq_nat c + n) mod 1000000000"
  by (induction n) (use assms in \<open>auto simp: cseq_ops_valid cseq_nat_increment cseq_valid_iff mod_simps\<close>)

lemma cseq_powers_distinct:
  assumes "cseq_valid c" "i < k" "k < 1000000000"
  shows "(wrapping_increment ^^ i) c \<noteq> (wrapping_increment ^^ k) c"
proof -
  have "cseq_nat c < 1000000000" using assms(1) by (simp add: cseq_valid_iff)
  then have "(cseq_nat c + i) mod 1000000000 \<noteq> (cseq_nat c + k) mod 1000000000"
    using assms(2,3) by (auto simp: mod_if split: if_splits)
  then show ?thesis using cseq_powers(2) [OF assms(1)] by metis
qed

lemma cseq_distance:
  assumes "cseq_valid c" "k < 1000000000"
  shows "cseq_nat (cseq_sub ((wrapping_increment ^^ k) c) c) \<le> k"
  using cseq_powers [OF assms(1), of k] assms by (auto simp: cseq_nat_sub cseq_valid_iff mod_if)

lemma fwd_handle_next:
  assumes "request_cseq M q = Some ((wrapping_increment ^^ k) c)" "cseq_valid c"
    and "k \<le> fwd_request_buffer_size fr" "fwd_request_buffer_size fr < 1000000000"
    and "fwd_incoming_sequence_number fr = Some c" "map fst (fwd_buffered_requests fr) = rev (cseqs_from c k)"
  shows "fwd_handle_request M q fr =
    (fr\<lparr>fwd_buffered_requests := ((wrapping_increment ^^ k) c, q) # fwd_buffered_requests fr\<rparr>, Ok ())"
proof -
  have k: "k < 1000000000" using assms(3,4) by simp
  have "unat (word_of_nat (fwd_request_buffer_size fr) :: 32 word) = fwd_request_buffer_size fr"
    using assms(4) by (simp add: unat_of_nat)
  then have near: "\<not> word_of_nat (fwd_request_buffer_size fr) < cseq_value (cseq_sub ((wrapping_increment ^^ k) c) c)"
    using cseq_distance [OF assms(2) k] assms(3) by (simp add: word_less_nat_alt)
  have "(wrapping_increment ^^ k) c \<notin> set (cseqs_from c k)"
    using cseq_powers_distinct [OF assms(2) _ k] by (fastforce simp: cseqs_from_def)
  then have "(wrapping_increment ^^ k) c \<notin> fst ` set (fwd_buffered_requests fr)"
    by (metis assms(6) set_rev set_map)
  then have "map_of (fwd_buffered_requests fr) ((wrapping_increment ^^ k) c) = None"
    by (simp add: map_of_eq_None_iff)
  with near assms(1,5) show ?thesis by (simp add: fwd_handle_request_def fwd_incoming_or_default_def)
qed

lemma fwd_handle_first:
  assumes "request_cseq M q = Some c" "fwd_incoming_sequence_number fr = None"
  shows "fwd_handle_request M q fr = fwd_handle_request M q (fr\<lparr>fwd_incoming_sequence_number := Some c\<rparr>)"
  using assms by (simp add: fwd_handle_request_def fwd_incoming_or_default_def)

text \<open>The stream of a receiver that reads numbered requests while they fit.\<close>

definition arrived_items :: "(bytes, 'm, 'u) Request list \<Rightarrow> 'ch \<Rightarrow> ('m, 'u, 'ch) stream_item list" where
  "arrived_items qs ch = map (\<lambda>q. (MessageRequest q, ch, True)) qs"

lemma poll_stream_loop_numbered:
  assumes "cseq_valid c"
  shows "map (request_cseq M) qs = map (\<lambda>i. Some ((wrapping_increment ^^ i) c)) [k..<k + length qs] \<Longrightarrow>
    rc_requests_allowed rc \<Longrightarrow> rc_forwarding_receiver rc = Some fr \<Longrightarrow>
    fwd_incoming_sequence_number fr = Some c \<Longrightarrow> map fst (fwd_buffered_requests fr) = rev (cseqs_from c k) \<Longrightarrow>
    k + length qs \<le> fwd_request_buffer_size fr \<Longrightarrow> fwd_request_buffer_size fr < 1000000000 \<Longrightarrow>
    poll_stream_loop M H (arrived_items qs ch) StreamPending rc =
      Some (rc\<lparr>rc_forwarding_receiver := Some (fr\<lparr>fwd_buffered_requests :=
          rev (zip (map (\<lambda>i. (wrapping_increment ^^ i) c) [k..<k + length qs]) qs) @ fwd_buffered_requests fr\<rparr>),
        rc_stream := True\<rparr>, [], Ok NotReady)"
proof (induction qs arbitrary: k rc fr)
  case Nil
  then show ?case by (auto simp: arrived_items_def)
next
  case (Cons q qs)
  let ?fr = "fr\<lparr>fwd_buffered_requests := ((wrapping_increment ^^ k) c, q) # fwd_buffered_requests fr\<rparr>"
  let ?rc = "rc\<lparr>rc_forwarding_receiver := Some ?fr\<rparr>"
  have upt: "[k..<k + length (q # qs)] = k # [Suc k..<Suc k + length qs]" by (simp add: upt_rec)
  have q: "request_cseq M q = Some ((wrapping_increment ^^ k) c)"
    and qs: "map (request_cseq M) qs = map (\<lambda>i. Some ((wrapping_increment ^^ i) c)) [Suc k..<Suc k + length qs]"
    using Cons.prems(1) unfolding upt by auto
  have "fwd_handle_request M q fr = (?fr, Ok ())"
    using Cons.prems(4-7) q assms by (intro fwd_handle_next) auto
  then have one: "handle_message M (MessageRequest q, ch, True) rc = Some (?rc, Ok ())"
    using Cons.prems(2,3) by (simp add: handle_message_def)
  have "length (fwd_buffered_requests fr) = k" by (metis Cons.prems(5) length_map length_rev cseqs_from_def length_upt minus_nat.diff_0)
  then have room: "\<not> receiver_is_full rc" using Cons.prems(3,6) by (simp add: receiver_is_full_def fwd_is_full_def)
  have two: "poll_stream_loop M H (arrived_items qs ch) StreamPending ?rc =
      Some (?rc\<lparr>rc_forwarding_receiver := Some (?fr\<lparr>fwd_buffered_requests :=
          rev (zip (map (\<lambda>i. (wrapping_increment ^^ i) c) [Suc k..<Suc k + length qs]) qs) @ fwd_buffered_requests ?fr\<rparr>),
        rc_stream := True\<rparr>, [], Ok NotReady)"
    using Cons.prems(2,4-7) qs by (intro Cons.IH) auto
  show ?case using one room two unfolding upt by (simp add: arrived_items_def)
qed

lemma cseqs_from_Cons: "cseqs_from c (Suc n) = c # cseqs_from (wrapping_increment c) n"
  unfolding cseqs_from_def by (simp add: map_upt_Suc funpow_Suc_right del: upt_Suc funpow.simps(2))

lemma fwd_loop_numbered:
  assumes "sink_laws S" "sink_takes_all S"
  shows "distinct (map fst l) \<Longrightarrow> mset l = mset (zip (cseqs_from c (length qs)) qs) \<Longrightarrow>
    \<exists>tx'. fwd_loop S c l tx = (Some ((wrapping_increment ^^ length qs) c), [], tx', Ok (Ready ()))
      \<and> sink_accepted S tx' = sink_accepted S tx @ zip (cseqs_from c (length qs)) qs"
proof (induction qs arbitrary: c l tx)
  case Nil
  then show ?case by (simp add: fwd_loop_cases(1))
next
  case (Cons q qs)
  have zip: "zip (cseqs_from c (length (q # qs))) (q # qs) = (c, q) # zip (cseqs_from (wrapping_increment c) (length qs)) qs"
    by (simp add: cseqs_from_Cons del: cseqs_from_simps)
  then have "(c, q) \<in> set l" using Cons.prems(2) by (metis list.set_intros(1) mset_eq_setD)
  then have find: "map_of l c = Some q" using Cons.prems(1) by simp
  obtain tx1 where send: "sink_start_send S tx (c, q) = (tx1, Ok SinkReady)"
    using assms(2) by (metis prod.collapse sink_takes_all_def)
  have "mset (AList.delete c l) = mset (zip (cseqs_from (wrapping_increment c) (length qs)) qs)"
    using mset_delete [OF Cons.prems(1) find] Cons.prems(2) unfolding zip by simp
  from Cons.IH [OF distinct_delete [OF Cons.prems(1)] this] obtain tx' where
    "fwd_loop S (wrapping_increment c) (AList.delete c l) tx1 =
       (Some ((wrapping_increment ^^ length qs) (wrapping_increment c)), [], tx', Ok (Ready ()))"
    "sink_accepted S tx' = sink_accepted S tx1 @ zip (cseqs_from (wrapping_increment c) (length qs)) qs" by blast
  then show ?case
    unfolding zip
    using fwd_loop_cases(2) [of l c q S tx tx1, OF find send] sink_lawsD(1) [OF assms(1) send]
    by (simp add: funpow_Suc_right del: funpow.simps(2))
qed

lemma cseqs_from_distinct: "cseq_valid c \<Longrightarrow> n < 1000000000 \<Longrightarrow> distinct (cseqs_from c n)"
proof -
  assume c: "cseq_valid c" and n: "n < 1000000000"
  have "inj_on (\<lambda>i. (wrapping_increment ^^ i) c) {0..<n}"
  proof (rule linorder_inj_onI)
    fix i k assume "i < k" "i \<in> {0..<n}" "k \<in> {0..<n}"
    with c n show "(wrapping_increment ^^ i) c \<noteq> (wrapping_increment ^^ k) c" by (intro cseq_powers_distinct) auto
  qed auto
  then show ?thesis by (simp add: cseqs_from_def distinct_map)
qed

text \<open>A poll in which the given requests arrive and nothing else happens.\<close>

definition requests_arrive :: "(bytes, 'm, 'u) Request list \<Rightarrow> 'ch \<Rightarrow> CodecEvent list \<Rightarrow> ('m, 'u, 'ch) receiver_env" where
  "requests_arrive qs ch events =
     \<lparr>re_updates = [], re_updates_end = DrainPending, re_late_updates = [], re_late_end = DrainPending,
      re_stream = arrived_items qs ch, re_stream_end = StreamPending,
      re_codec_events = events, re_codec_end = DrainPending, re_decoding_timer = TimerPending\<rparr>"

lemma codec_events_keep:
  "\<exists>b. fold handle_codec_event events rc = rc\<lparr>rc_decoding_timer := b\<rparr>"
proof (induction events arbitrary: rc)
  case (Cons e events)
  obtain b where b: "handle_codec_event e rc = rc\<lparr>rc_decoding_timer := b\<rparr>"
    by (cases e) (force simp: handle_codec_event_def intro: that [of "rc_decoding_timer rc"])+
  obtain b' where "fold handle_codec_event events (rc\<lparr>rc_decoding_timer := b\<rparr>) = rc\<lparr>rc_decoding_timer := b, rc_decoding_timer := b'\<rparr>"
    using Cons.IH by blast
  with b show ?case by auto
next
  case Nil
  show ?case by (intro exI [of _ "rc_decoding_timer rc"]) simp
qed

lemma poll_stream_numbered:
  assumes "cseq_valid c" "map (request_cseq M) qs = map Some (cseqs_from c (length qs))"
    and "length qs \<le> size_limit" "size_limit < 1000000000"
  shows "\<exists>fr. poll_stream M H (arrived_items qs ch) StreamPending (receiver_new tx handle size_limit) =
      Some ((receiver_new tx handle size_limit)\<lparr>rc_forwarding_receiver := Some fr\<rparr>, [], Ok NotReady)
    \<and> fwd_buffered_requests fr = rev (zip (cseqs_from c (length qs)) qs) \<and> fwd_tx_incoming_request fr = tx
    \<and> fwd_incoming_sequence_number fr = (if qs = [] then None else Some c)"
proof (cases qs)
  case Nil
  then show ?thesis by (auto simp: poll_stream_def arrived_items_def receiver_new_def fwd_new_def)
next
  case (Cons q qs')
  let ?rc = "(receiver_new tx handle size_limit)\<lparr>rc_stream := False\<rparr>"
  let ?fr = "(fwd_new tx size_limit)\<lparr>fwd_incoming_sequence_number := Some c\<rparr>"
  have q: "request_cseq M q = Some c" using assms(2) Cons by (simp add: cseqs_from_Cons del: cseqs_from_simps)
  have first: "poll_stream_loop M H (arrived_items qs ch) StreamPending ?rc =
      poll_stream_loop M H (arrived_items qs ch) StreamPending (?rc\<lparr>rc_forwarding_receiver := Some ?fr\<rparr>)"
    using fwd_handle_first [OF q, of "fwd_new tx size_limit"] Cons assms(3)
    by (simp add: arrived_items_def receiver_new_def fwd_new_def handle_message_def receiver_is_full_def fwd_is_full_def)
  have "poll_stream_loop M H (arrived_items qs ch) StreamPending (?rc\<lparr>rc_forwarding_receiver := Some ?fr\<rparr>) =
      Some (?rc\<lparr>rc_forwarding_receiver := Some ?fr\<rparr>\<lparr>rc_forwarding_receiver := Some (?fr\<lparr>fwd_buffered_requests :=
          rev (zip (map (\<lambda>i. (wrapping_increment ^^ i) c) [0..<0 + length qs]) qs) @ fwd_buffered_requests ?fr\<rparr>),
        rc_stream := True\<rparr>, [], Ok NotReady)"
    by (rule poll_stream_loop_numbered [OF assms(1)])
       (use assms(2-4) in \<open>simp_all add: receiver_new_def fwd_new_def cseqs_from_def comp_def\<close>)
  with first show ?thesis
    by (simp add: poll_stream_def receiver_new_def fwd_new_def cseqs_from_def Cons)
qed

lemma receiver_new_numbered:
  fixes M :: "'m header_map_ops" and qs :: "(bytes, 'm, 'u) Request list" and tx :: 'c and ch :: 'ch and handle :: 'h
  assumes "sink_laws S" "sink_takes_all S" "cseq_valid c"
    and "map (request_cseq M) qs = map Some (cseqs_from c (length qs))"
    and "length qs \<le> size_limit" "size_limit < 1000000000"
  shows "\<exists>rc fr. receiver_poll M H S (requests_arrive qs ch events) (receiver_new tx handle size_limit) = Some (rc, [], NotReady)
    \<and> rc_forwarding_receiver rc = Some fr
    \<and> sink_accepted S (fwd_tx_incoming_request fr) = sink_accepted S tx @ zip (cseqs_from c (length qs)) qs"
proof -
  let ?rc = "receiver_new tx handle size_limit :: ('m, 'u, 'c, 'ch, 'h) receiver"
  let ?env = "requests_arrive qs ch events"
  have idle: "poll_response_receiver ?env ?rc = ?rc"
    by (simp add: poll_response_receiver_def requests_arrive_def receiver_new_def response_receiver_new_def)
  obtain fr where fr: "poll_stream M H (arrived_items qs ch) StreamPending ?rc =
      Some (?rc\<lparr>rc_forwarding_receiver := Some fr\<rparr>, [], Ok NotReady)"
    "fwd_buffered_requests fr = rev (zip (cseqs_from c (length qs)) qs)" "fwd_tx_incoming_request fr = tx"
    "fwd_incoming_sequence_number fr = (if qs = [] then None else Some c)"
    using poll_stream_numbered [OF assms(3-6), of H ch tx handle] by blast
  obtain b where b: "fold handle_codec_event events (?rc\<lparr>rc_forwarding_receiver := Some fr\<rparr>) =
      ?rc\<lparr>rc_forwarding_receiver := Some fr, rc_decoding_timer := b\<rparr>"
    using codec_events_keep by blast
  have receiving: "poll_receiving M H ?env ?rc =
      Some (?rc\<lparr>rc_forwarding_receiver := Some fr, rc_decoding_timer := b\<rparr>, [], NotReady)"
    using fr(1) b unfolding poll_receiving_def idle
    by (simp add: requests_arrive_def poll_codec_events_def poll_decoding_timer_def)
  have "map fst (zip (cseqs_from c (length qs)) qs) = cseqs_from c (length qs)" by (simp add: cseqs_from_def)
  then have "distinct (map fst (fwd_buffered_requests fr))"
    using cseqs_from_distinct [OF assms(3), of "length qs"] assms(5,6) by (simp only: fr(2) rev_map [symmetric]) simp
  then obtain tx' where loop: "fwd_loop S c (fwd_buffered_requests fr) tx =
      (Some ((wrapping_increment ^^ length qs) c), [], tx', Ok (Ready ()))"
    "sink_accepted S tx' = sink_accepted S tx @ zip (cseqs_from c (length qs)) qs"
    using fwd_loop_numbered [OF assms(1,2), of "fwd_buffered_requests fr" c qs tx] fr(2) by auto
  have "\<exists>fr'. fwd_poll S fr = (fr', Ok (Ready ()))
    \<and> sink_accepted S (fwd_tx_incoming_request fr') = sink_accepted S tx @ zip (cseqs_from c (length qs)) qs"
  proof (cases "qs = []")
    case True
    then show ?thesis using fr(3,4) by (simp add: fwd_poll_def)
  next
    case False
    then show ?thesis using loop fr(3,4) by (simp add: fwd_poll_def)
  qed
  then obtain fr' where "fwd_poll S fr = (fr', Ok (Ready ()))"
    "sink_accepted S (fwd_tx_incoming_request fr') = sink_accepted S tx @ zip (cseqs_from c (length qs)) qs" by blast
  then show ?thesis
    using receiving by (simp add: receiver_poll_def poll_forwarding_def receiver_new_def is_request_receiver_shutdown_def)
qed

subsection \<open>Responses that arrive for pending requests\<close>

text \<open>
  A poll in which requests are announced, each with its sequence number and its channel, and then
  responses arrive.
\<close>

definition responses_arrive ::
  "(CSeq \<times> 'ch) list \<Rightarrow> (bytes, 'm) Response list \<Rightarrow> 'ch \<Rightarrow> CodecEvent list \<Rightarrow> ('m, 'u, 'ch) receiver_env" where
  "responses_arrive pending rs ch events =
     \<lparr>re_updates = map (\<lambda>(cseq, tx). AddPendingRequest cseq tx) pending, re_updates_end = DrainPending,
      re_late_updates = [], re_late_end = DrainPending,
      re_stream = map (\<lambda>r. (MessageResponse r, ch, True)) rs, re_stream_end = StreamPending,
      re_codec_events = events, re_codec_end = DrainPending, re_decoding_timer = TimerPending\<rparr>"

lemma announced:
  fixes rr :: "'ch response_receiver"
  shows
  "distinct (map fst (rev pending @ rr_pending_requests rr)) \<Longrightarrow>
    response_receiver_poll (map (\<lambda>(cseq, tx). AddPendingRequest cseq tx) pending) DrainPending rr =
      (rr\<lparr>rr_pending_requests := rev pending @ rr_pending_requests rr\<rparr>, [] :: ('m, 'ch) channel_use list, NotReady)"
proof (induction pending arbitrary: rr)
  case (Cons p pending)
  obtain cseq tx where p: "p = (cseq, tx)" by (cases p)
  have fresh: "cseq \<notin> fst ` set (rr_pending_requests rr)" using Cons.prems p by auto
  then have "map_of (rr_pending_requests rr) cseq = None" by (simp add: map_of_eq_None_iff)
  moreover have "AList.delete cseq (rr_pending_requests rr) = rr_pending_requests rr" using fresh by simp
  ultimately have "handle_pending_request_update (AddPendingRequest cseq tx) rr =
      (rr\<lparr>rr_pending_requests := (cseq, tx) # rr_pending_requests rr\<rparr>, [] :: ('m, 'ch) channel_use list)"
    by (simp add: handle_pending_request_update_def dropped_for_def)
  with Cons.IH [of "rr\<lparr>rr_pending_requests := (cseq, tx) # rr_pending_requests rr\<rparr>"] Cons.prems p show ?case by simp
qed simp

lemma poll_stream_loop_responses:
  assumes "\<not> receiver_is_full rc"
  shows "distinct (map fst l) \<Longrightarrow> mset l = mset (zip cseqs channels) \<Longrightarrow> length cseqs = length rs \<Longrightarrow> length channels = length rs \<Longrightarrow>
    \<forall>(cseq, r) \<in> set (zip cseqs rs). response_cseq M r = Some cseq \<and> resp_status_code r \<noteq> Continue \<Longrightarrow>
    poll_stream_loop M H (map (\<lambda>r. (MessageResponse r, ch, True)) rs) StreamPending
        (rc\<lparr>rc_response_receiver := Some \<lparr>rr_pending_requests = l, rr_updates_done = b\<rparr>, rc_uses := uses\<rparr>) =
      Some (rc\<lparr>rc_response_receiver := Some \<lparr>rr_pending_requests = [], rr_updates_done = b\<rparr>,
          rc_uses := uses @ map (\<lambda>(tx, r). SentTo tx (PendingResponse r)) (zip channels rs), rc_stream := True\<rparr>, [], Ok NotReady)"
proof (induction rs arbitrary: l cseqs channels uses)
  case Nil
  then show ?case by simp
next
  case (Cons r rs)
  obtain cseq cseqs' tx channels' where lists: "cseqs = cseq # cseqs'" "channels = tx # channels'"
    using Cons.prems(3,4) by (metis length_Suc_conv)
  then have "(cseq, tx) \<in> set l" using Cons.prems(2) by (metis list.set_intros(1) mset_eq_setD zip_Cons_Cons)
  then have find: "map_of l cseq = Some tx" using Cons.prems(1) by simp
  have rest: "mset (AList.delete cseq l) = mset (zip cseqs' channels')"
    using mset_delete [OF Cons.prems(1) find] Cons.prems(2) unfolding lists by simp
  have r: "response_cseq M r = Some cseq" "resp_status_code r \<noteq> Continue" using Cons.prems(5) lists by auto
  let ?rc = "\<lambda>l uses. rc\<lparr>rc_response_receiver := Some \<lparr>rr_pending_requests = l, rr_updates_done = b\<rparr>, rc_uses := uses\<rparr>"
  have room: "\<not> receiver_is_full (?rc l uses)" using assms by (simp add: receiver_is_full_def)
  have one: "handle_message M (MessageResponse r, ch, True) (?rc l uses) =
      Some (?rc (AList.delete cseq l) (uses @ [SentTo tx (PendingResponse r)]), Ok ())"
    using r find by (simp add: handle_message_def handle_response_def)
  have "poll_stream_loop M H (map (\<lambda>r. (MessageResponse r, ch, True)) rs) StreamPending
      (?rc (AList.delete cseq l) (uses @ [SentTo tx (PendingResponse r)])) =
    Some (rc\<lparr>rc_response_receiver := Some \<lparr>rr_pending_requests = [], rr_updates_done = b\<rparr>,
        rc_uses := (uses @ [SentTo tx (PendingResponse r)]) @ map (\<lambda>(tx, r). SentTo tx (PendingResponse r)) (zip channels' rs),
        rc_stream := True\<rparr>, [], Ok NotReady)"
    using Cons.prems lists rest by (intro Cons.IH) (auto simp: distinct_delete)
  then show ?case using one room lists by simp
qed

lemma responses_delivered:
  fixes M :: "'m header_map_ops" and tx :: 'c and ch :: 'ch and handle :: 'h and H :: "('h, ('m, 'u) Message) unbounded_ops"
  assumes "distinct cseqs" "length cseqs = length got" "length channels = length got" "length got \<le> size_limit"
    and "\<And>i. i < length got \<Longrightarrow> response_cseq M (got ! i) = Some (cseqs ! i) \<and> resp_status_code (got ! i) \<noteq> Continue"
  obtains rc where
    "receiver_poll M H S (responses_arrive (zip cseqs channels) got ch events) (receiver_new tx handle size_limit) = Some (rc, [], NotReady)"
    "rc_uses rc = map (\<lambda>(tx, r). SentTo tx (PendingResponse r)) (zip channels got)"
    "rc_response_receiver rc = Some response_receiver_new"
proof -
  let ?new = "receiver_new tx handle size_limit :: ('m, 'u, 'c, 'ch, 'h) receiver"
  let ?env = "responses_arrive (zip cseqs channels) got ch events :: ('m, 'u, 'ch) receiver_env"
  let ?uses = "map (\<lambda>(tx, r). SentTo tx (PendingResponse r)) (zip channels got)"
  let ?pending = "\<lparr>rr_pending_requests = rev (zip cseqs channels), rr_updates_done = False\<rparr>"
  have distinct: "distinct (map fst (rev (zip cseqs channels)))" using assms(1-3) by (simp add: rev_map [symmetric])
  have responding: "poll_response_receiver ?env ?new = ?new\<lparr>rc_response_receiver := Some ?pending\<rparr>"
    using announced [where 'm = 'm, of "zip cseqs channels" response_receiver_new] distinct
    by (simp add: poll_response_receiver_def responses_arrive_def receiver_new_def response_receiver_new_def)
  have stream: "poll_stream M H (re_stream ?env) StreamPending (?new\<lparr>rc_response_receiver := Some ?pending\<rparr>) =
      Some (?new\<lparr>rc_uses := ?uses\<rparr>, [], Ok NotReady)"
  proof (cases "got = []")
    case True
    then show ?thesis using assms(2,3)
      by (simp add: responses_arrive_def poll_stream_def receiver_new_def response_receiver_new_def receiver_is_full_def)
  next
    case False
    have "\<not> receiver_is_full (?new\<lparr>rc_stream := False\<rparr>)"
      using False assms(4) by (cases got) (auto simp: receiver_is_full_def receiver_new_def fwd_is_full_def fwd_new_def)
    moreover have "\<forall>(cseq, r) \<in> set (zip cseqs got). response_cseq M r = Some cseq \<and> resp_status_code r \<noteq> Continue"
      using assms(2,5) by (auto simp: set_zip)
    ultimately show ?thesis
      using poll_stream_loop_responses [where rc = "?new\<lparr>rc_stream := False\<rparr>" and l = "rev (zip cseqs channels)" and cseqs = cseqs
          and channels = channels and rs = got and M = M and H = H and ch = ch and b = False and uses = "[]"]
        distinct assms(2,3)
      by (simp add: responses_arrive_def poll_stream_def receiver_new_def response_receiver_new_def)
  qed
  obtain b where b: "fold handle_codec_event events (?new\<lparr>rc_uses := ?uses\<rparr>) = ?new\<lparr>rc_uses := ?uses, rc_decoding_timer := b\<rparr>"
    using codec_events_keep by blast
  have "poll_receiving M H ?env ?new = Some (?new\<lparr>rc_uses := ?uses, rc_decoding_timer := b\<rparr>, [], NotReady)"
    using stream b unfolding poll_receiving_def responding
    by (simp add: responses_arrive_def poll_codec_events_def poll_decoding_timer_def)
  then have "receiver_poll M H S ?env ?new = Some (?new\<lparr>rc_uses := ?uses, rc_decoding_timer := b\<rparr>, [], NotReady)"
    by (simp add: receiver_poll_def poll_forwarding_def receiver_new_def is_request_receiver_shutdown_def fwd_new_def fwd_poll_def)
  then show thesis by (rule that) (simp_all add: receiver_new_def)
qed

subsection \<open>What encoding and decoding keep\<close>

lemma values_of_encoded:
  "\<not> hname_eq HeaderContentLength k \<Longrightarrow> values_of (encoded_headers l body) k = values_of l k"
  by (simp add: encoded_headers_def values_of_append values_of_filter)

lemma same_request_cseq:
  assumes "header_map_laws M" "message_same M (MessageRequest r) (MessageRequest r')"
  shows "request_cseq M r' = request_cseq M r"
  using assms(2) values_of_encoded [of cseq_header_name] answer_names(6)
  by (simp add: request_cseq_def typed_get_def typed_try_get_def header_map_lawsD(3) [OF assms(1)] cseq_header_name_def)

lemma decoded_content_length:
  assumes "header_map_laws M" "message_same M (MessageRequest r) (MessageRequest r')" "length (req_body r) \<le> MAX_CONTENT_LENGTH"
  shows "typed_get M content_length_header_name content_length_decode (req_headers r') =
    (if req_body r = [] then None else Some (ContentLength (length (req_body r))))"
proof -
  let ?c = "ContentLength (length (req_body r))"
  have "values_of (encoded_headers (map_iter M (req_headers r)) (req_body r)) HeaderContentLength =
      (if req_body r = [] then [] else content_length_encode ?c)"
    by (simp add: encoded_headers_def values_of_append values_of_filter content_length_encode_def)
  moreover have "content_length_decode (content_length_encode ?c) = Ok (Some ?c)"
    using assms(3) by (intro content_length_decode_encode) (simp add: content_length_valid_def)
  moreover have "content_length_decode [] = Ok None" by (simp add: content_length_decode_def)
  ultimately show ?thesis
    using assms(2)
    by (simp add: typed_get_def typed_try_get_def header_map_lawsD(3) [OF assms(1)] content_length_header_name_def)
qed

text \<open>The server's answer to what it decoded has the status that the sent request deserves.\<close>

lemma server_answer_status:
  assumes "header_map_laws M" "linked_set_laws L" "linked_set_laws R"
    and same: "message_same M (MessageRequest r) (MessageRequest r')" and "length (req_body r) \<le> MAX_CONTENT_LENGTH"
  shows "answer_form M (answer_status M R r) (answer_headers (answer_status M R r)) (server_answer M L R r')"
proof -
  have names: "\<not> hname_eq HeaderContentLength accept_ranges_header_name" "\<not> hname_eq HeaderContentLength HeaderContentType"
    using answer_names(10,11) by (simp_all add: accept_ranges_header_name_def)
  have kept_values: "values_of (map_iter M (req_headers r')) k = values_of (map_iter M (req_headers r)) k"
    if "\<not> hname_eq HeaderContentLength k" for k
    using same values_of_encoded [OF that] by simp
  have kept: "map_contains_key M (req_headers r') HeaderContentType = map_contains_key M (req_headers r) HeaderContentType"
    "setup_status M R (req_headers r') = setup_status M R (req_headers r)"
    using kept_values [OF names(1)] kept_values [OF names(2)]
    by (simp_all add: header_map_lawsD(3,5) [OF assms(1)] setup_status_def typed_try_get_def)
  obtain bad not_impl where canned: "BAD_REQUEST_RESPONSE M = Some bad" "answer_form M BadRequest [] bad"
    "NOT_IMPLEMENTED_RESPONSE M = Some not_impl" "answer_form M NotImplemented [] not_impl"
    using canned_form [OF assms(1), of BadRequest] canned_form [OF assms(1), of NotImplemented]
    by (auto simp: canned_response_defs is_status_extension_def)
  have no_headers: "answer_headers BadRequest = []" "answer_headers NotImplemented = []"
    by (simp_all add: answer_headers_def)
  obtain s where service: "answer_form M s (answer_headers s) (service_answer M L R r')"
    "s = (case req_method r' of
        Options \<Rightarrow> if uri_is_asterisk (req_uri r') then OK else NotFound
      | Setup \<Rightarrow> setup_status M R (req_headers r')
      | _ \<Rightarrow> NotImplemented)"
    using service_form [OF assms(1-3)] by blast
  have r': "req_method r' = req_method r" "req_uri r' = req_uri r" using same by simp_all
  have s: "s = (case req_method r of
        Options \<Rightarrow> if uri_is_asterisk (req_uri r) then OK else NotFound
      | Setup \<Rightarrow> setup_status M R (req_headers r)
      | _ \<Rightarrow> NotImplemented)" using service(2) r' kept(2) by (simp split: Method.split)
  show ?thesis
    using service(1) canned no_headers decoded_content_length [OF assms(1) same assms(5)] kept(1) r'
    by (simp add: server_answer_def answer_status_def s)
qed

lemma answer_status_range:
  "answer_status M R r \<in> {OK, NotFound, BadRequest, NotImplemented, HeaderFieldNotValidForResource}"
  by (auto simp: answer_status_def setup_status_def split: Method.split sum.split)

text \<open>One answer, numbered and dated, as the client decodes it.\<close>

definition dated_answer ::
  "'m header_map_ops \<Rightarrow> CSeq \<Rightarrow> HeaderValue \<Rightarrow> (bytes, 'm) Response \<Rightarrow> ('m, 'u) Message" where
  "dated_answer M cseq now response = add_date M (MessageResponse (number_response M cseq response), [now])"

lemma dated_answer_read:
  assumes "header_map_laws M" "answer_form M s (answer_headers s) r" "cseq_valid cseq" "date_line_ok now"
    and "s \<in> {OK, NotFound, BadRequest, NotImplemented, HeaderFieldNotValidForResource}"
  shows "message_encodable M U (dated_answer M cseq now r)"
    and "message_same M (dated_answer M cseq now r) m \<Longrightarrow>
      \<exists>got. m = MessageResponse got \<and> resp_status_code got = s \<and> response_cseq M got = Some cseq
        \<and> map_get_all M (resp_headers got) date_header_name = [now]"
proof -
  let ?r = "(number_response M cseq r)\<lparr>resp_headers :=
      typed_insert M date_header_name id [now] (resp_headers (number_response M cseq r))\<rparr>"
  have sent: "dated_answer M cseq now r = MessageResponse ?r" by (simp add: dated_answer_def add_date_def)
  have iter: "map_iter M (resp_headers ?r) = sent_headers s cseq now" using sent_iter [OF assms(1,2)] by simp
  have same: "resp_status_code ?r = s" "canonical_reason s = Some (resp_reason_phrase ?r)" "resp_version ?r = Rtsp2_0"
    "resp_body ?r = []" using assms(2) by (simp_all add: answer_form_def number_response_def)
  show "message_encodable M U (dated_answer M cseq now r)"
    unfolding message_encodable_def sent using sent_encodable [OF assms(5,3,4) same iter] by simp
  assume m: "message_same M (dated_answer M cseq now r) m"
  then obtain got where got: "m = MessageResponse got" "resp_status_code got = s"
    "map_iter M (resp_headers got) = encoded_headers (sent_headers s cseq now) []"
    unfolding sent using same iter by (cases m) auto
  have "values_of (encoded_headers (sent_headers s cseq now) []) HeaderCSeq = cseq_encode cseq"
    using values_of_encoded [OF answer_names(6)]
    by (simp add: sent_headers_def values_of_append answer_names cseq_encode_def)
  then have "response_cseq M got = Some cseq"
    using got(3) cseq_decode_encode [OF assms(3)]
    by (simp add: response_cseq_def typed_get_def typed_try_get_def header_map_lawsD(3) [OF assms(1)] cseq_header_name_def)
  moreover have "map_get_all M (resp_headers got) date_header_name = [now]"
    using got(3) values_of_encoded [OF answer_names(12)]
    by (simp add: header_map_lawsD(3) [OF assms(1)] sent_headers_def values_of_append answer_names date_header_name_def)
  ultimately show "\<exists>got. m = MessageResponse got \<and> resp_status_code got = s \<and> response_cseq M got = Some cseq
      \<and> map_get_all M (resp_headers got) date_header_name = [now]"
    using got(1,2) by blast
qed

text \<open>The two crossings of the connection.\<close>

lemma requests_cross:
  assumes "header_map_laws M" "list_all (request_encodable M U request_config_default) requests" "codec_ready M server"
  obtains server' arrived where
    "decode_stream M U (length requests) server (snd (encode_stream M U (map MessageRequest requests) client [])) =
       Some (server', [], map MessageRequest arrived)"
    "length arrived = length requests"
    "\<And>i. i < length requests \<Longrightarrow> message_same M (MessageRequest (requests ! i)) (MessageRequest (arrived ! i))"
proof -
  let ?ms = "map MessageRequest requests"
  have "list_all (message_encodable M U) ?ms"
    using assms(2) by (simp add: list_all_length message_encodable_def)
  from decode_stream_encoded [OF assms(1) this assms(3), of "[]"] obtain server' ms' where
    ms': "decode_stream M U (length requests) server (concat (map (message_bytes M U) ?ms)) = Some (server', [], ms')"
    "list_all2 (message_same M) ?ms ms'" by auto
  obtain client' where "encode_stream M U ?ms client [] = (client', concat (map (message_bytes M U) ?ms))"
    using encode_stream_bytes [of M U ?ms client "[]"] by auto
  moreover define arrived where "arrived = map (\<lambda>m. case m of MessageRequest r \<Rightarrow> r | _ \<Rightarrow> undefined) ms'"
  have "length arrived = length requests" using ms'(2) by (auto simp: arrived_def dest: list_all2_lengthD)
  moreover have one: "ms' ! i = MessageRequest (arrived ! i)" if "i < length requests" for i
  proof -
    have "message_same M (MessageRequest (requests ! i)) (ms' ! i)"
      using list_all2_nthD [OF ms'(2), of i] that by simp
    then show ?thesis using that ms'(2) by (cases "ms' ! i") (auto simp: arrived_def dest: list_all2_lengthD)
  qed
  moreover have "ms' = map MessageRequest arrived"
    using one \<open>length arrived = length requests\<close> ms'(2)
    by (intro nth_equalityI) (auto dest: list_all2_lengthD)
  moreover have "message_same M (MessageRequest (requests ! i)) (MessageRequest (arrived ! i))" if "i < length requests" for i
    using list_all2_nthD [OF ms'(2), of i] one [OF that] that by simp
  ultimately show thesis using that ms'(1) by simp
qed

lemma answers_cross:
  assumes "header_map_laws M" "codec_ready M client"
    and "\<And>i. i < n \<Longrightarrow> answer_form M (s i) (answer_headers (s i)) (r i)"
    and "\<And>i. i < n \<Longrightarrow> cseq_valid (cseq i)" "\<And>i. i < n \<Longrightarrow> date_line_ok (now i)"
    and "\<And>i. i < n \<Longrightarrow> s i \<in> {OK, NotFound, BadRequest, NotImplemented, HeaderFieldNotValidForResource}"
  obtains client' got where
    "decode_stream M U n client
       (snd (encode_stream M U (map (\<lambda>i. dated_answer M (cseq i) (now i) (r i)) [0..<n]) server [])) =
       Some (client', [], map MessageResponse got)"
    "length got = n"
    "\<And>i. i < n \<Longrightarrow> resp_status_code (got ! i) = s i \<and> response_cseq M (got ! i) = Some (cseq i)
       \<and> map_get_all M (resp_headers (got ! i)) date_header_name = [now i]"
proof -
  let ?ms = "map (\<lambda>i. dated_answer M (cseq i) (now i) (r i)) [0..<n]"
  have "message_encodable M U (dated_answer M (cseq i) (now i) (r i))" if "i < n" for i
    by (rule dated_answer_read(1) [OF assms(1) assms(3-6) [OF that]])
  then have "list_all (message_encodable M U) ?ms" by (simp add: list_all_length)
  from decode_stream_encoded [OF assms(1) this assms(2), of "[]"] obtain client' ms' where
    ms': "decode_stream M U n client (concat (map (message_bytes M U) ?ms)) = Some (client', [], ms')"
    "list_all2 (message_same M) ?ms ms'" by auto
  obtain server' where "encode_stream M U ?ms server [] = (server', concat (map (message_bytes M U) ?ms))"
    using encode_stream_bytes [of M U ?ms server "[]"] by auto
  moreover define got where "got = map (\<lambda>m. case m of MessageResponse r \<Rightarrow> r | _ \<Rightarrow> undefined) ms'"
  have len: "length ms' = n" using ms'(2) by (auto dest: list_all2_lengthD)
  then have "length got = n" by (simp add: got_def)
  moreover have one: "ms' ! i = MessageResponse (got ! i) \<and> resp_status_code (got ! i) = s i
      \<and> response_cseq M (got ! i) = Some (cseq i)
      \<and> map_get_all M (resp_headers (got ! i)) date_header_name = [now i]" if "i < n" for i
  proof -
    have "message_same M (dated_answer M (cseq i) (now i) (r i)) (ms' ! i)"
      using list_all2_nthD [OF ms'(2), of i] that by simp
    then show ?thesis
      using dated_answer_read(2) [OF assms(1) assms(3,4,5,6) [OF that]] that len by (fastforce simp: got_def)
  qed
  moreover have "ms' = map MessageResponse got" using one len \<open>length got = n\<close> by (intro nth_equalityI) auto
  ultimately show thesis using that ms'(1) by simp
qed

text \<open>The server between its two crossings: the receiver in one poll, the handler in one poll.\<close>

lemma server_handles:
  fixes U :: "'u uriparse_ops" and M :: "'m header_map_ops" and arrived :: "(bytes, 'm, 'u) Request list"
  assumes "unbounded_laws H" "never_closed H" "uri_normalize_laws U" "sink_laws S" "sink_takes_all S"
    and "cseq_valid c" "map (request_cseq M) arrived = map Some (cseqs_from c (length arrived))"
    and "length arrived \<le> request_buffer_size" "request_buffer_size < 1000000000"
    and "\<And>i. i < length arrived \<Longrightarrow> uri_valid U (req_uri (arrived ! i))"
    and "prompt K h" "hd_serviced_request h = None"
  obtains rc fr h' where
    "receiver_poll M H S (requests_arrive arrived ch events) (receiver_new tx handle request_buffer_size) = Some (rc, [], NotReady)"
    "rc_forwarding_receiver rc = Some fr"
    "sink_accepted S (fwd_tx_incoming_request fr) = sink_accepted S tx @ zip (cseqs_from c (length arrived)) arrived"
    "handler_poll M H (server_service M L R U K) timers (zip (cseqs_from c (length arrived)) arrived) DrainPending h =
       Some (h', [], NotReady)"
    "chan_sent H (hd_channel h') = chan_sent H (hd_channel h)
       @ map MessageResponse (map (\<lambda>(cseq, request). number_response M cseq (server_answer M L R request))
           (zip (cseqs_from c (length arrived)) arrived))"
proof -
  let ?incoming = "zip (cseqs_from c (length arrived)) arrived"
  obtain rc fr where receiver:
    "receiver_poll M H S (requests_arrive arrived ch events) (receiver_new tx handle request_buffer_size) = Some (rc, [], NotReady)"
    "rc_forwarding_receiver rc = Some fr"
    "sink_accepted S (fwd_tx_incoming_request fr) = sink_accepted S tx @ ?incoming"
    using receiver_new_numbered [OF assms(4-9), of H ch events tx handle] by auto
  have "\<forall>(cseq, request) \<in> set ?incoming. uri_valid U (req_uri request)"
    using assms(10) by (auto simp: set_zip)
  from handler_poll_prompt [OF assms(1-3,11) this, of M L R timers DrainPending]
  obtain h' where "handler_poll M H (server_service M L R U K) timers ?incoming DrainPending h = Some (h', [], NotReady)"
    "chan_sent H (hd_channel h') = chan_sent H (hd_channel h)
       @ map MessageResponse (map (\<lambda>(cseq, request). number_response M cseq (server_answer M L R request)) ?incoming)"
    using assms(12) by (auto simp: prompt_answer_def comp_def case_prod_unfold)
  with receiver that show thesis by blast
qed

lemma dates_written:
  assumes "\<forall>date \<in> set dates. \<exists>y m d h mi s. chrono_prints C date y m d h mi s" "i < length dates"
  shows "date_line_ok (from_string_unchecked (chrono_format C (dates ! i)))"
    "date_decode C [from_string_unchecked (chrono_format C (dates ! i))] = Some (Ok (Some (dates ! i)))"
proof -
  have "dates ! i \<in> set dates" using assms(2) by simp
  then obtain y m d h mi s where "chrono_prints C (dates ! i) y m d h mi s" using assms(1) by blast
  then show "date_line_ok (from_string_unchecked (chrono_format C (dates ! i)))"
    "date_decode C [from_string_unchecked (chrono_format C (dates ! i))] = Some (Ok (Some (dates ! i)))"
    using date_text_line date_written(2) by (auto simp: date_encode_def)
qed

text \<open>The client at the end: it decodes the answers and gives each to the channel that waits for it.\<close>

lemma client_hears:
  fixes U :: "'u uriparse_ops" and M :: "'m header_map_ops" and requests arrived :: "(bytes, 'm, 'u) Request list"
    and H :: "('h, ('m, 'u) Message) unbounded_ops" and channels :: "'ch list" and tx :: 'c
  assumes laws: "header_map_laws M" "linked_set_laws L" "linked_set_laws R"
    and numbered: "cseq_valid c"
    and room: "length requests \<le> request_buffer_size" "request_buffer_size < 1000000000"
    and ready: "codec_ready M client"
    and waiting: "length channels = length requests"
    and dates: "length dates = length requests" "\<forall>date \<in> set dates. \<exists>y m d h mi s. chrono_prints C date y m d h mi s"
    and len: "length arrived = length requests"
    and same: "\<And>i. i < length requests \<Longrightarrow> message_same M (MessageRequest (requests ! i)) (MessageRequest (arrived ! i))"
    and encodable: "\<And>i. i < length requests \<Longrightarrow> request_encodable M U request_config_default (requests ! i)"
  obtains client' got rc' where
    "decode_stream M U (length requests) client (snd (encode_stream M U
        (map (\<lambda>(r, date). add_date M (MessageResponse r, date_encode C date))
          (zip (map (\<lambda>(cseq, request). number_response M cseq (server_answer M L R request))
            (zip (cseqs_from c (length requests)) arrived)) dates)) server [])) =
       Some (client', [], map MessageResponse got)" "length got = length requests"
    "\<forall>i < length requests. response_cseq M (got ! i) = Some (cseqs_from c (length requests) ! i)
      \<and> resp_status_code (got ! i) = answer_status M R (requests ! i)
      \<and> date_decode C (map_get_all M (resp_headers (got ! i)) date_header_name) = Some (Ok (Some (dates ! i)))"
    "receiver_poll M H S (responses_arrive (zip (cseqs_from c (length requests)) channels) got ch events)
       (receiver_new tx handle request_buffer_size) = Some (rc', [], NotReady)"
    "rc_uses rc' = map (\<lambda>(tx, r). SentTo tx (PendingResponse r)) (zip channels got)"
proof -
  let ?n = "length requests" and ?cseqs = "cseqs_from c (length requests)"
  have valid: "cseq_valid (?cseqs ! i)" if "i < ?n" for i
    using that cseq_powers(1) [OF numbered] by (simp add: cseqs_from_def)
  let ?answers = "map (\<lambda>(cseq, request). number_response M cseq (server_answer M L R request)) (zip ?cseqs arrived)"
  have form: "answer_form M (answer_status M R (requests ! i)) (answer_headers (answer_status M R (requests ! i)))
      (server_answer M L R (arrived ! i))" if "i < ?n" for i
    using server_answer_status [OF laws(1-3) same [OF that]] encodable [OF that]
    by (simp add: request_encodable_def Let_def)
  let ?now = "\<lambda>i. from_string_unchecked (chrono_format C (dates ! i))"
  have sent: "map (\<lambda>(r, date). add_date M (MessageResponse r, date_encode C date)) (zip ?answers dates) =
      map (\<lambda>i. dated_answer M (?cseqs ! i) (?now i) (server_answer M L R (arrived ! i))) [0..<?n]"
    using len dates(1) by (intro nth_equalityI) (auto simp: dated_answer_def cseqs_from_def date_encode_def)
  note now = dates_written [OF dates(2), unfolded dates(1)]
  obtain client' got where returned:
    "decode_stream M U ?n client (snd (encode_stream M U
        (map (\<lambda>i. dated_answer M (?cseqs ! i) (?now i) (server_answer M L R (arrived ! i))) [0..<?n]) server [])) =
       Some (client', [], map MessageResponse got)" "length got = ?n"
    "\<And>i. i < ?n \<Longrightarrow> resp_status_code (got ! i) = answer_status M R (requests ! i)
       \<and> response_cseq M (got ! i) = Some (?cseqs ! i)
       \<and> map_get_all M (resp_headers (got ! i)) date_header_name = [?now i]"
    by (rule answers_cross [where M = M and U = U and client = client and server = server and n = "?n"
          and s = "\<lambda>i. answer_status M R (requests ! i)" and cseq = "\<lambda>i. ?cseqs ! i" and now = ?now
          and r = "\<lambda>i. server_answer M L R (arrived ! i)", OF laws(1) ready form valid now(1) answer_status_range])
       (assumption | rule that)+
  have met: "\<forall>i < ?n. response_cseq M (got ! i) = Some (?cseqs ! i)
      \<and> resp_status_code (got ! i) = answer_status M R (requests ! i)
      \<and> date_decode C (map_get_all M (resp_headers (got ! i)) date_header_name) = Some (Ok (Some (dates ! i)))"
    using returned(3) now(2) by simp
  have "response_cseq M (got ! i) = Some (?cseqs ! i) \<and> resp_status_code (got ! i) \<noteq> Continue" if "i < length got" for i
    using returned(2) returned(3) [of i] that answer_status_range [of M R "requests ! i"] by auto
  moreover have "distinct ?cseqs" using room by (intro cseqs_from_distinct numbered) simp
  moreover have "length ?cseqs = length got" "length channels = length got" "length got \<le> request_buffer_size"
    using returned(2) waiting room(1) by (simp_all add: cseqs_from_def)
  ultimately obtain rc' where delivered:
    "receiver_poll M H S (responses_arrive (zip ?cseqs channels) got ch events) (receiver_new tx handle request_buffer_size) =
       Some (rc', [], NotReady)"
    "rc_uses rc' = map (\<lambda>(tx, r). SentTo tx (PendingResponse r)) (zip channels got)"
    using responses_delivered [where M = M and H = H and S = S and cseqs = ?cseqs and channels = channels and got = got
        and size_limit = request_buffer_size and ch = ch and events = events and tx = tx and handle = handle] by blast
  from returned(1,2) met delivered show thesis unfolding sent [symmetric] by (rule that)
qed

subsection \<open>Properties\<close>

text \<open>
  C3. From the client's requests to the responses it reads. Requests that a client has numbered
  consecutively and that are within the limits of the decoder, written one after the other, are decoded
  by the server; one poll of a new receiver puts them all into the channel to the handler; one
  poll of the handler with the service of the server answers each of them; and when the sender has
  dated the answers and they have crossed the connection, the client decodes one response for each
  request, in order, under the request's sequence number, with the status that the request deserves.
  Nothing is left undecoded on either side. One poll of a new receiver of the client, to which the
  requests have been announced, then gives each response to the channel that waits for it, and to no other.
\<close>

theorem requests_answered_end_to_end:
  fixes U :: "'u uriparse_ops" and M :: "'m header_map_ops" and requests :: "(bytes, 'm, 'u) Request list"
  assumes laws: "header_map_laws M" "linked_set_laws L" "linked_set_laws R" "uri_normalize_laws U"
      "unbounded_laws H" "never_closed H" "sink_laws S" "sink_takes_all S"
    and numbered: "cseq_valid c" "map (request_cseq M) requests = map Some (cseqs_from c (length requests))"
      "list_all (request_encodable M U request_config_default) requests"
    and room: "length requests \<le> request_buffer_size" "request_buffer_size < 1000000000"
    and ends: "codec_ready M client" "codec_ready M server" "prompt K h" "hd_serviced_request h = None"
    and waiting: "length channels = length requests"
    and dates: "length dates = length requests" "\<forall>date \<in> set dates. \<exists>y m d h mi s. chrono_prints C date y m d h mi s"
  shows "\<exists>server' arrived rc fr incoming h' answers client' got rc'.
      decode_stream M U (length requests) server (snd (encode_stream M U (map MessageRequest requests) client [])) =
        Some (server', [], map MessageRequest arrived)
    \<and> receiver_poll M H S (requests_arrive arrived ch events) (receiver_new tx handle request_buffer_size) =
        Some (rc, [], NotReady)
    \<and> rc_forwarding_receiver rc = Some fr
    \<and> sink_accepted S (fwd_tx_incoming_request fr) = sink_accepted S tx @ incoming
    \<and> handler_poll M H (server_service M L R U K) timers incoming DrainPending h = Some (h', [], NotReady)
    \<and> chan_sent H (hd_channel h') = chan_sent H (hd_channel h) @ map MessageResponse answers
    \<and> decode_stream M U (length requests) client
        (snd (encode_stream M U (map (\<lambda>(r, date). add_date M (MessageResponse r, date_encode C date)) (zip answers dates))
          server [])) =
        Some (client', [], map MessageResponse got)
    \<and> length got = length requests
    \<and> (\<forall>i < length requests. response_cseq M (got ! i) = request_cseq M (requests ! i)
        \<and> resp_status_code (got ! i) = answer_status M R (requests ! i)
        \<and> date_decode C (map_get_all M (resp_headers (got ! i)) date_header_name) = Some (Ok (Some (dates ! i))))
    \<and> receiver_poll M H S (responses_arrive (zip (cseqs_from c (length requests)) channels) got ch events)
        (receiver_new tx handle request_buffer_size) = Some (rc', [], NotReady)
    \<and> rc_uses rc' = map (\<lambda>(tx, r). SentTo tx (PendingResponse r)) (zip channels got)"
proof -
  let ?n = "length requests"
  let ?cseqs = "cseqs_from c ?n"
  obtain server' arrived where cross:
    "decode_stream M U ?n server (snd (encode_stream M U (map MessageRequest requests) client [])) =
       Some (server', [], map MessageRequest arrived)" and len: "length arrived = ?n"
    and same: "\<And>i. i < ?n \<Longrightarrow> message_same M (MessageRequest (requests ! i)) (MessageRequest (arrived ! i))"
    using requests_cross [OF laws(1) numbered(3) ends(2)] by blast
  have cseq: "request_cseq M (requests ! i) = Some (?cseqs ! i) \<and> cseq_valid (?cseqs ! i)" if "i < ?n" for i
    using arg_cong [OF numbered(2), of "\<lambda>l. l ! i"] that cseq_powers(1) [OF numbered(1)] by (simp add: cseqs_from_def)
  have arrived: "map (request_cseq M) arrived = map Some (cseqs_from c (length arrived))"
    using same_request_cseq [OF laws(1) same] cseq len by (intro nth_equalityI) (auto simp: cseqs_from_def)
  have encodable: "request_encodable M U request_config_default (requests ! i)" if "i < ?n" for i
    using numbered(3) that by (simp add: list_all_length)
  have "uri_valid U (req_uri (arrived ! i))" if "i < length arrived" for i
    using encodable [of i] same [of i] len that by (auto simp: request_encodable_def Let_def intro: uri_try_from_valid)
  from server_handles [OF laws(5,6,4,7,8) numbered(1) arrived _ room(2) this ends(3,4), of ch events tx handle L R timers]
  obtain rc fr h' where served:
    "receiver_poll M H S (requests_arrive arrived ch events) (receiver_new tx handle request_buffer_size) = Some (rc, [], NotReady)"
    "rc_forwarding_receiver rc = Some fr"
    "sink_accepted S (fwd_tx_incoming_request fr) = sink_accepted S tx @ zip ?cseqs arrived"
    "handler_poll M H (server_service M L R U K) timers (zip ?cseqs arrived) DrainPending h = Some (h', [], NotReady)"
    "chan_sent H (hd_channel h') = chan_sent H (hd_channel h)
       @ map MessageResponse (map (\<lambda>(cseq, request). number_response M cseq (server_answer M L R request)) (zip ?cseqs arrived))"
    using room(1) len by auto
  obtain client' got rc' where heard:
    "decode_stream M U ?n client (snd (encode_stream M U (map (\<lambda>(r, date). add_date M (MessageResponse r, date_encode C date))
        (zip (map (\<lambda>(cseq, request). number_response M cseq (server_answer M L R request)) (zip ?cseqs arrived)) dates)) server [])) =
       Some (client', [], map MessageResponse got)" "length got = ?n"
    "\<forall>i < ?n. response_cseq M (got ! i) = Some (?cseqs ! i)
      \<and> resp_status_code (got ! i) = answer_status M R (requests ! i)
      \<and> date_decode C (map_get_all M (resp_headers (got ! i)) date_header_name) = Some (Ok (Some (dates ! i)))"
    "receiver_poll M H S (responses_arrive (zip ?cseqs channels) got ch events) (receiver_new tx handle request_buffer_size) =
       Some (rc', [], NotReady)"
    "rc_uses rc' = map (\<lambda>(tx, r). SentTo tx (PendingResponse r)) (zip channels got)"
    using client_hears [where H = H and S = S and U = U and server = server and ch = ch and events = events and tx = tx and handle = handle,
        OF laws(1-3) numbered(1) room ends(1) waiting dates len same encodable] by blast
  have "\<forall>i < ?n. response_cseq M (got ! i) = request_cseq M (requests ! i)
      \<and> resp_status_code (got ! i) = answer_status M R (requests ! i)
      \<and> date_decode C (map_get_all M (resp_headers (got ! i)) date_header_name) = Some (Ok (Some (dates ! i)))"
    using heard(3) cseq by simp
  with cross served heard(1,2,4,5) show ?thesis by blast
qed

definition second_request :: "(bytes, headers, bytes) Request" where
  "second_request = \<lparr>req_body = [], req_headers = [(HeaderCSeq, HeaderValue ''2'')], req_method = Options,
     req_uri = uri_asterisk, req_version = Rtsp2_0\<rparr>"

lemma second_request_encodable: "request_encodable list_headers plain_uris request_config_default second_request"
proof -
  have "encoded_headers [(HeaderCSeq, HeaderValue ''2'')] [] = [(HeaderCSeq, HeaderValue ''2'')]"
    "header_line_ok 100 2000 (HeaderCSeq, HeaderValue ''2'')" "keys_consistent [(HeaderCSeq, HeaderValue ''2'')]"
    by code_simp+
  then show ?thesis
    by (simp add: request_encodable_def second_request_def list_headers_def uri_asterisk_def uri_display_def
        request_config_default_def uri_try_from_def uri_try_from_result_def uri_try_from_reference_def plain_uris_def
        decoder_limits SP_def)
qed

theorem requests_answered_end_to_end_witness:
  "\<exists>server' arrived answers client' got.
      decode_stream list_headers plain_uris 2 (codec_new list_headers) (snd (encode_stream list_headers plain_uris
        [MessageRequest play_request, MessageRequest second_request] (codec_new list_headers) [])) =
        Some (server', [], map MessageRequest arrived)
    \<and> decode_stream list_headers plain_uris 2 (codec_new list_headers) (snd (encode_stream list_headers plain_uris
        (map (\<lambda>(r, date). add_date list_headers (MessageResponse r, date_encode gregorian date))
          (zip answers [1404983411, 951782400])) (codec_new list_headers) [])) =
        Some (client', [], map MessageResponse got)
    \<and> map (response_cseq list_headers) got = [Some (CSeq 1), Some (CSeq 2)]
    \<and> map resp_status_code got = [BadRequest, OK]"
proof -
  let ?H = "\<lparr>chan_send = \<lambda>l x. (l @ [x], True), chan_sent = \<lambda>l. l\<rparr> :: ((headers, bytes) Message list, (headers, bytes) Message) unbounded_ops"
  have H: "unbounded_laws ?H" "never_closed ?H" by (simp_all add: unbounded_laws_def never_closed_def)
  let ?h = "request_handler_new demo_connection_service [] None
    :: (nat connection_service, (bytes, headers) Response option, (headers, bytes) Message list) request_handler"
  have h: "prompt demo_clock ?h" "hd_serviced_request ?h = None"
    by (simp_all add: prompt_def request_handler_new_def demo_clock_in_range)
  have c: "cseq_valid (CSeq 1)" by code_simp
  have cseqs: "request_cseq list_headers play_request = Some (CSeq 1)"
    "request_cseq list_headers second_request = Some (CSeq 2)" "wrapping_increment (CSeq 1) = CSeq 2"
  proof -
    have char_2: "char_of (50 :: nat) = CHR ''2''" by code_simp
    have "cseq_encode (CSeq 1) = [HeaderValue ''1'']" "cseq_encode (CSeq 2) = [HeaderValue ''2'']"
      using char_2 by (simp_all add: cseq_encode_def from_string_unchecked_def decimal_1 decimal.simps [of 2])
    then have "cseq_decode [HeaderValue ''1''] = Ok (Some (CSeq 1))" "cseq_decode [HeaderValue ''2''] = Ok (Some (CSeq 2))"
      using cseq_decode_encode [of "CSeq 1"] cseq_decode_encode [of "CSeq 2"] by (simp_all add: cseq_valid_iff)
    then show "request_cseq list_headers play_request = Some (CSeq 1)" "request_cseq list_headers second_request = Some (CSeq 2)"
      by (simp_all add: request_cseq_def typed_get_def typed_try_get_def play_request_def second_request_def list_headers_def
          cseq_header_name_def hname_eq_def)
    show "wrapping_increment (CSeq 1) = CSeq 2" by code_simp
  qed
  then have numbered: "map (request_cseq list_headers) [play_request, second_request] =
      map Some (cseqs_from (CSeq 1) (length [play_request, second_request]))" by simp
  have encodable: "list_all (request_encodable list_headers plain_uris request_config_default) [play_request, second_request]"
    by (simp add: play_request_encodable second_request_encodable)
  have dates: "\<forall>date \<in> set [1404983411, 951782400]. \<exists>y m d h mi s. chrono_prints gregorian date y m d h mi s"
    using gregorian_prints by (simp, blast)
  have status: "answer_status list_headers list_set play_request = BadRequest"
    "answer_status list_headers (list_set :: (RangeFormat list, RangeFormat) linked_set_ops) second_request = OK"
    by (simp_all add: answer_status_def play_request_def second_request_def uri_asterisk_def uri_scheme_def uri_is_asterisk_def
        list_headers_def values_of_simps hname_eq_def)
  let ?requests = "[play_request, second_request]" and ?dates = "[1404983411, 951782400] :: int list"
  have lengths: "length ?requests \<le> 10" "(10 :: nat) < 1000000000" "length ?dates = length ?requests" by simp_all
  have waiting: "length [11, 12 :: nat] = length ?requests" by simp
  obtain server' arrived answers client' got where answered:
    "decode_stream list_headers plain_uris (length ?requests) (codec_new list_headers)
       (snd (encode_stream list_headers plain_uris (map MessageRequest ?requests) (codec_new list_headers) [])) =
        Some (server', [], map MessageRequest arrived)"
    "decode_stream list_headers plain_uris (length ?requests) (codec_new list_headers) (snd (encode_stream list_headers plain_uris
        (map (\<lambda>(r, date). add_date list_headers (MessageResponse r, date_encode gregorian date)) (zip answers ?dates))
        (codec_new list_headers) [])) = Some (client', [], map MessageResponse got)"
    "length got = length ?requests"
    "\<forall>i < length ?requests. response_cseq list_headers (got ! i) = request_cseq list_headers (?requests ! i)
        \<and> resp_status_code (got ! i) =
            answer_status list_headers (list_set :: (RangeFormat list, RangeFormat) linked_set_ops) (?requests ! i)
        \<and> date_decode gregorian (map_get_all list_headers (resp_headers (got ! i)) date_header_name) = Some (Ok (Some (?dates ! i)))"
    using requests_answered_end_to_end [where ch = 0 and events = "[]" and tx = "[]" and handle = "[]" and timers = "[]",
      OF list_headers_laws list_set_laws list_set_laws plain_uris_laws H
      endless_sink_laws c numbered encodable lengths(1,2) codec_ready_new(1) codec_ready_new(1) h waiting lengths(3) dates] by blast
  then have "response_cseq list_headers (got ! i) = [Some (CSeq 1), Some (CSeq 2)] ! i \<and> resp_status_code (got ! i) = [BadRequest, OK] ! i"
    if "i < 2" for i
    using that cseqs status by (auto simp: less_2_cases_iff)
  then have "map (response_cseq list_headers) got = [Some (CSeq 1), Some (CSeq 2)]" "map resp_status_code got = [BadRequest, OK]"
    using answered(3) by (auto intro!: nth_equalityI)
  moreover have "length ?requests = 2" "map MessageRequest ?requests = [MessageRequest play_request, MessageRequest second_request]"
    by simp_all
  note sent = answered(1,2) [unfolded this]
  ultimately show ?thesis
    by (intro exI [of _ server'] exI [of _ arrived] exI [of _ answers] exI [of _ client'] exI [of _ got] conjI sent)
qed

end
