(* ===== verification/Transport.thy ===== *)
theory Transport
  imports TokenLists
begin

text \<open>
  The parameters of a transport specification: \<^verbatim>\<open>rtsp-2/src/header/types/transport/\<close>. The
  enumerations and the modes of \<^verbatim>\<open>setup.rs\<close>, \<^verbatim>\<open>connection.rs\<close>,
  \<^verbatim>\<open>delivery_type.rs\<close>, \<^verbatim>\<open>mode.rs\<close> and \<^verbatim>\<open>layers.rs\<close>, and the channel numbers of
  \<^verbatim>\<open>interleaved.rs\<close>.
\<close>

subsection \<open>Setup, connection and delivery type\<close>

datatype Setup = SetupActive | SetupActPass | SetupPassive
datatype SetupError = SetupError

fun setup_as_str :: "Setup \<Rightarrow> bytes" where
  "setup_as_str SetupActive = ''active''"
| "setup_as_str SetupActPass = ''actpass''"
| "setup_as_str SetupPassive = ''passive''"

definition setup_default :: Setup where "setup_default = SetupActive"

definition setup_eq_bytes :: "Setup \<Rightarrow> bytes \<Rightarrow> bool" where
  "setup_eq_bytes s other = eq_ignore_ascii_case (setup_as_str s) other"

definition setup_try_from :: "bytes \<Rightarrow> SetupError + Setup" where
  "setup_try_from value =
     (if eq_ignore_ascii_case value ''active'' then Ok SetupActive
      else if eq_ignore_ascii_case value ''actpass'' then Ok SetupActPass
      else if eq_ignore_ascii_case value ''passive'' then Ok SetupPassive
      else Err SetupError)"

datatype TransportConnection = ConnectionExisting | ConnectionNew
datatype ConnectionError = ConnectionError

fun transport_connection_as_str :: "TransportConnection \<Rightarrow> bytes" where
  "transport_connection_as_str ConnectionExisting = ''existing''"
| "transport_connection_as_str ConnectionNew = ''new''"

definition transport_connection_default :: TransportConnection where
  "transport_connection_default = ConnectionExisting"

definition transport_connection_eq_bytes :: "TransportConnection \<Rightarrow> bytes \<Rightarrow> bool" where
  "transport_connection_eq_bytes c other = eq_ignore_ascii_case (transport_connection_as_str c) other"

definition transport_connection_try_from :: "bytes \<Rightarrow> ConnectionError + TransportConnection" where
  "transport_connection_try_from value =
     (if eq_ignore_ascii_case value ''existing'' then Ok ConnectionExisting
      else if eq_ignore_ascii_case value ''new'' then Ok ConnectionNew
      else Err ConnectionError)"

datatype DeliveryType = DeliveryMulticast | DeliveryUnicast
datatype DeliveryTypeError = DeliveryTypeError

fun delivery_type_as_str :: "DeliveryType \<Rightarrow> bytes" where
  "delivery_type_as_str DeliveryMulticast = ''multicast''"
| "delivery_type_as_str DeliveryUnicast = ''unicast''"

definition delivery_type_eq_bytes :: "DeliveryType \<Rightarrow> bytes \<Rightarrow> bool" where
  "delivery_type_eq_bytes d other = eq_ignore_ascii_case (delivery_type_as_str d) other"

definition delivery_type_try_from :: "bytes \<Rightarrow> DeliveryTypeError + DeliveryType" where
  "delivery_type_try_from value =
     (if eq_ignore_ascii_case value ''unicast'' then Ok DeliveryUnicast
      else if eq_ignore_ascii_case value ''multicast'' then Ok DeliveryMulticast
      else Err DeliveryTypeError)"

subsection \<open>Layers\<close>

datatype Layers = Layers (layers_value: "8 word")
datatype LayersError = LayersError

definition layers_default :: Layers where "layers_default = Layers 1"

definition layers_try_from :: "8 word \<Rightarrow> LayersError + Layers" where
  "layers_try_from value = (if value = 0 \<or> value > 9 then Err LayersError else Ok (Layers value))"

subsection \<open>Modes\<close>

datatype Mode = ModeExtension bytes | ModePlay

datatype ModeError = ModeEmpty | ModeInvalidCharacter | ModeMissingQuotes | ModeReserved

fun mode_as_str :: "Mode \<Rightarrow> bytes" where
  "mode_as_str ModePlay = ''PLAY''"
| "mode_as_str (ModeExtension extension) = extension"

definition mode_extension :: "bytes \<Rightarrow> ModeError + Mode" where
  "mode_extension value =
     (if value = [] then Err ModeEmpty
      else if eq_ignore_ascii_case value ''RECORD'' then Err ModeReserved
      else if \<not> is_token value then Err ModeInvalidCharacter
      else Ok (ModeExtension (upper value)))"

definition mode_default :: Mode where "mode_default = ModePlay"

definition mode_eq_bytes :: "Mode \<Rightarrow> bytes \<Rightarrow> bool" where
  "mode_eq_bytes m other = eq_ignore_ascii_case (mode_as_str m) other"

definition mode_try_from :: "bytes \<Rightarrow> ModeError + Mode" where
  "mode_try_from value = (if eq_ignore_ascii_case value ''PLAY'' then Ok ModePlay else mode_extension value)"

text \<open>The slice \<open>value[1..value.len() - 1]\<close> panics when its start is after its end.\<close>

definition parse_modes :: "('s, Mode) linked_set_ops \<Rightarrow> bytes \<Rightarrow> (ModeError + 's) option" where
  "parse_modes L value =
     (let value = trim_bytes_whitespace value in
      if \<not> starts_with value ''\"'' \<or> \<not> ends_with value ''\"'' then Some (Err ModeMissingQuotes)
      else if length value - 1 < 1 then None
      else
        (let value = drop 1 (take (length value - 1) value);
             parts = split_on (CHR '','') value
         in Some (insert_parts L mode_try_from trim_bytes_whitespace parts (set_new L))))"

subsection \<open>Interleaved channels\<close>

datatype Interleaved = Interleaved (interleaved_start: "8 word") (interleaved_end: "8 word")

datatype InterleavedError = InterleavedEmpty | InterleavedInvalidCharacter | InterleavedOverflow

definition interleaved_display :: "Interleaved \<Rightarrow> bytes" where
  "interleaved_display i =
     decimal (unat (interleaved_start i))
     @ (if interleaved_start i \<noteq> interleaved_end i then ''-'' @ decimal (unat (interleaved_end i)) else [])"

definition checked_mul :: "8 word \<Rightarrow> 8 word \<Rightarrow> 8 word option" where
  "checked_mul a b = (if unat a * unat b < 256 then Some (a * b) else None)"

definition checked_add :: "8 word \<Rightarrow> 8 word \<Rightarrow> 8 word option" where
  "checked_add a b = (if unat a + unat b < 256 then Some (a + b) else None)"

fun parse_channel_loop :: "bytes \<Rightarrow> 8 word \<Rightarrow> nat \<Rightarrow> bytes \<Rightarrow> InterleavedError + 8 word \<times> bytes" where
  "parse_channel_loop value channel digits_found [] =
     (if digits_found = 0 then Err InterleavedEmpty else Ok (channel, drop digits_found value))"
| "parse_channel_loop value channel digits_found (byte # bytes) =
     (case to_digit byte of
        None \<Rightarrow>
          if digits_found > 0 then Ok (channel, drop digits_found value) else Err InterleavedEmpty
      | Some digit \<Rightarrow>
          (case checked_mul channel 10 of
             None \<Rightarrow> Err InterleavedOverflow
           | Some channel \<Rightarrow>
               (case checked_add channel (word_of_nat digit) of
                  None \<Rightarrow> Err InterleavedOverflow
                | Some channel \<Rightarrow> parse_channel_loop value channel (Suc digits_found) bytes)))"

definition parse_channel :: "bytes \<Rightarrow> InterleavedError + 8 word \<times> bytes" where
  "parse_channel value = parse_channel_loop value 0 0 value"

definition interleaved_try_from :: "bytes \<Rightarrow> InterleavedError + Interleaved" where
  "interleaved_try_from value =
     (case parse_channel value of
        Err e \<Rightarrow> Err e
      | Ok (channel_start, value) \<Rightarrow>
          if value = [] then Ok (Interleaved channel_start channel_start)
          else
            (let value = trim_bytes_whitespace_left value in
             if \<not> starts_with value ''-'' then Err InterleavedInvalidCharacter
             else
               (case parse_channel (trim_bytes_whitespace_left (drop 1 value)) of
                  Err e \<Rightarrow> Err e
                | Ok (channel_end, value) \<Rightarrow>
                    if value \<noteq> [] then Err InterleavedInvalidCharacter
                    else Ok (Interleaved channel_start channel_end))))"

subsection \<open>Facts\<close>

lemmas fold_case_defs = eq_ignore_ascii_case_def

interpretation setup_param: wire_token setup_as_str setup_try_from "\<lambda>_. True"
proof unfold_locales
  show "setup_try_from (setup_as_str s) = Ok s" for s by (cases s; hypsubst; code_simp)
qed (auto simp: setup_try_from_def fold_case_defs split: if_splits)

interpretation transport_conn: wire_token transport_connection_as_str transport_connection_try_from "\<lambda>_. True"
proof unfold_locales
  show "transport_connection_try_from (transport_connection_as_str c) = Ok c" for c by (cases c; hypsubst; code_simp)
qed (auto simp: transport_connection_try_from_def fold_case_defs split: if_splits)

interpretation delivery: wire_token delivery_type_as_str delivery_type_try_from "\<lambda>_. True"
proof unfold_locales
  show "delivery_type_try_from (delivery_type_as_str d) = Ok d" for d by (cases d; hypsubst; code_simp)
qed (auto simp: delivery_type_try_from_def fold_case_defs split: if_splits)

lemma layers_exact: "layers_try_from w = Ok l \<longleftrightarrow> l = Layers w \<and> 1 \<le> unat w \<and> unat w \<le> 9"
proof -
  have "w = 0 \<longleftrightarrow> unat w = 0" by (simp add: unat_eq_0)
  then show ?thesis by (auto simp: layers_try_from_def word_less_nat_alt)
qed

text \<open>What the private constructor of \<open>ExtensionMode\<close> guarantees.\<close>

fun mode_valid :: "Mode \<Rightarrow> bool" where
  "mode_valid (ModeExtension s) \<longleftrightarrow> is_token s \<and> upper s = s \<and> s \<noteq> ''PLAY'' \<and> s \<noteq> ''RECORD''"
| "mode_valid ModePlay \<longleftrightarrow> True"

lemma eq_case_upper: "eq_ignore_ascii_case v w \<longleftrightarrow> upper v = upper w"
  unfolding eq_ignore_ascii_case_def by (metis map_lower_upper map_upper_lower)

lemma mode_names_upper: "upper ''PLAY'' = ''PLAY''" "upper ''RECORD'' = ''RECORD''"
  by code_simp+

lemma mode_try_from_Ok: "mode_try_from v = Ok m \<Longrightarrow> mode_valid m \<and> mode_as_str m = upper v"
  unfolding mode_try_from_def mode_extension_def eq_case_upper mode_names_upper
  by (cases m) (auto split: if_splits)

lemma mode_parse_print: "mode_valid m \<Longrightarrow> mode_try_from (mode_as_str m) = Ok m"
proof (cases m)
  case (ModeExtension s)
  then show "mode_valid m \<Longrightarrow> ?thesis"
    unfolding mode_try_from_def mode_extension_def eq_case_upper mode_names_upper by (simp add: is_token_iff)
next
  case ModePlay
  show ?thesis unfolding ModePlay by code_simp
qed

lemma mode_token: "mode_valid m \<Longrightarrow> is_token (mode_as_str m)"
proof (cases m)
  case ModePlay
  show ?thesis unfolding ModePlay by code_simp
qed simp

interpretation modes: token_list mode_as_str mode_try_from mode_valid
proof unfold_locales
  fix m v
  show "eq_ignore_ascii_case (mode_as_str m) v" if "mode_try_from v = Ok m"
    using mode_try_from_Ok [OF that] by (simp add: eq_ignore_ascii_case_def)
qed (auto simp: mode_parse_print mode_token dest: mode_try_from_Ok)

text \<open>
  The loop over the digits, as a number: its digits give the channel as long as no prefix exceeds 255.
\<close>

abbreviation is_digit :: "byte \<Rightarrow> bool" where "is_digit c \<equiv> to_digit c \<noteq> None"

definition channel_value :: "nat \<Rightarrow> bytes \<Rightarrow> nat" where
  "channel_value acc ds = foldl (\<lambda>n c. n * 10 + the (to_digit c)) acc ds"

lemma unat_u8: "unat (w :: 8 word) < 256"
  by (rule order_less_le_trans [OF unsigned_less]) simp

lemma channel_value_grows: "acc \<le> channel_value acc ds"
proof (induction ds arbitrary: acc)
  case (Cons c ds)
  have "acc \<le> acc * 10 + the (to_digit c)" by simp
  also have "\<dots> \<le> channel_value (acc * 10 + the (to_digit c)) ds" by (rule Cons.IH)
  finally show ?case by (simp add: channel_value_def)
qed (simp add: channel_value_def)

lemma parse_channel_loop_value:
  assumes "unat channel = acc"
  shows "parse_channel_loop value channel n s =
    (if n = 0 \<and> (s = [] \<or> \<not> is_digit (hd s)) then Err InterleavedEmpty
     else if channel_value acc (takeWhile is_digit s) > 255 then Err InterleavedOverflow
     else Ok (word_of_nat (channel_value acc (takeWhile is_digit s)), drop (n + length (takeWhile is_digit s)) value))"
  using assms
proof (induction "value" channel n s arbitrary: acc rule: parse_channel_loop.induct)
  case (1 "value" channel n)
  have "acc \<le> 255" using 1 unat_u8 [of channel] by simp
  with 1 show ?case by (auto simp: channel_value_def)
next
  case (2 "value" channel n c s)
  have le: "acc \<le> 255" using "2.prems" unat_u8 [of channel] by simp
  show ?case
  proof (cases "to_digit c")
    case None
    with 2 le show ?thesis by (auto simp: channel_value_def)
  next
    case (Some d)
    then have d: "d < 10" by (auto simp: to_digit_def split: if_splits)
    have val: "channel_value acc (takeWhile is_digit (c # s)) = channel_value (acc * 10 + d) (takeWhile is_digit s)"
      using Some by (simp add: channel_value_def)
    show ?thesis
    proof (cases "acc * 10 + d \<le> 255")
      case True
      have mul: "checked_mul channel 10 = Some (channel * 10)" "unat (channel * 10) = acc * 10"
        using True "2.prems" by (simp_all add: checked_mul_def unat_word_ariths)
      have dig: "unat (word_of_nat d :: 8 word) = d" using d by (simp add: unat_of_nat)
      have add: "checked_add (channel * 10) (word_of_nat d) = Some (channel * 10 + word_of_nat d)"
        "unat (channel * 10 + word_of_nat d) = acc * 10 + d"
        using True mul(2) dig by (simp_all add: checked_add_def unat_word_ariths)
      have IH: "parse_channel_loop value (channel * 10 + word_of_nat d) (Suc n) s =
          (if channel_value (acc * 10 + d) (takeWhile is_digit s) > 255 then Err InterleavedOverflow
           else Ok (word_of_nat (channel_value (acc * 10 + d) (takeWhile is_digit s)),
             drop (Suc n + length (takeWhile is_digit s)) value))"
        using "2.IH" [OF Some mul(1) add(1) add(2)] by simp
      show ?thesis using Some mul(1) add(1) IH val by (auto split: if_splits)
    next
      case False
      have "checked_mul channel 10 = None \<or>
          (checked_mul channel 10 = Some (channel * 10) \<and> checked_add (channel * 10) (word_of_nat d) = None)"
        using False "2.prems" d
        by (auto simp: checked_mul_def checked_add_def unat_word_ariths unat_of_nat)
      moreover have "channel_value acc (takeWhile is_digit (c # s)) > 255"
        unfolding val using False channel_value_grows [of "acc * 10 + d" "takeWhile is_digit s"] by simp
      ultimately show ?thesis using Some by auto
    qed
  qed
qed

text \<open>The reference: the digits in front, as one number.\<close>

lemma parse_channel_value:
  "parse_channel s =
    (let ds = takeWhile is_digit s; n = channel_value 0 ds in
     if ds = [] then Err InterleavedEmpty else if n > 255 then Err InterleavedOverflow
     else Ok (word_of_nat n, dropWhile is_digit s))"
proof -
  have "drop (length (takeWhile is_digit s)) s = dropWhile is_digit s"
    by (metis append_eq_conv_conj takeWhile_dropWhile_id)
  then show ?thesis
    using parse_channel_loop_value [of 0 0 s 0 s]
    by (cases s) (auto simp: parse_channel_def Let_def)
qed

lemma decimal_is_digit: "c \<in> set (decimal n) \<Longrightarrow> is_digit c"
  using decimal_digits [of c n] by (simp add: to_digit_def)

lemma channel_value_decimal: "channel_value 0 (decimal n) = n"
proof (induction n rule: decimal.induct)
  case (1 n)
  show ?case
  proof (cases "n < 10")
    case True
    then show ?thesis by (simp add: decimal.simps [of n] channel_value_def to_digit_char_of)
  next
    case False
    then have "channel_value 0 (decimal n) = channel_value 0 (decimal (n div 10)) * 10 + n mod 10"
      by (simp add: decimal.simps [of n] channel_value_def to_digit_char_of)
    then show ?thesis using 1 False by simp
  qed
qed

lemma parse_channel_decimal:
  assumes "s = [] \<or> \<not> is_digit (hd s)"
  shows "parse_channel (decimal (unat w) @ s) = Ok (w, s)"
proof -
  have "takeWhile is_digit (decimal (unat w) @ s) = decimal (unat w)"
    "dropWhile is_digit (decimal (unat w) @ s) = s"
    using assms decimal_is_digit by (auto simp: takeWhile_append dropWhile_append takeWhile_eq_Nil_iff dropWhile_eq_self_iff)
  then show ?thesis
    using unat_u8 [of w] by (simp add: parse_channel_value channel_value_decimal Let_def)
qed

subsection \<open>Properties\<close>

text \<open>
  C35. Interleaved channel numbers: printing a pair of channels and parsing the text gives the pair,
  for all pairs of bytes; and the checked 8-bit arithmetic of the parser computes the decimal number
  of the digits in front, or reports an overflow exactly when that number exceeds 255.
\<close>

theorem interleaved_roundtrip:
  "interleaved_try_from (interleaved_display i) = Ok i
   \<and> parse_channel s =
      (let ds = takeWhile is_digit s; n = channel_value 0 ds in
       if ds = [] then Err InterleavedEmpty else if n > 255 then Err InterleavedOverflow
       else Ok (word_of_nat n, dropWhile is_digit s))"
proof -
  obtain a b where i: "i = Interleaved a b" by (cases i)
  have minus: "\<not> is_digit (CHR ''-'')" "strip_left (CHR ''-'' # t) = CHR ''-'' # t" for t
    by (code_simp, rule strip_left_id, simp add: is_blank_def byte_consts)
  have digits: "strip_left (decimal n) = decimal n" for n
  proof (rule strip_left_id)
    have "48 \<le> u8 (hd (decimal n))" using decimal_digits [of "hd (decimal n)" n] by simp
    then show "decimal n = [] \<or> \<not> is_blank (hd (decimal n)) \<and> hd (decimal n) \<noteq> CR"
      by (auto simp: is_blank_def byte_consts)
  qed
  show ?thesis
  proof (cases "a = b")
    case True
    then show ?thesis
      using parse_channel_decimal [of "[]" a] parse_channel_value [of s]
      by (simp add: i interleaved_try_from_def interleaved_display_def)
  next
    case False
    then show ?thesis
      using parse_channel_decimal [of "CHR ''-'' # decimal (unat b)" a] parse_channel_decimal [of "[]" b]
        minus digits parse_channel_value [of s]
      by (simp add: i interleaved_try_from_def interleaved_display_def trim_eqs)
  qed
qed

text \<open>
  C36. Parsing a list of modes panics on exactly one input up to surrounding blanks, the lone quotation
  mark, whose slice of what is inside the quotes is out of order; every other input gives a result. A
  quoted list of modes parses to these modes in the same order.
\<close>

theorem parse_modes_exact:
  assumes "linked_set_laws L" "list_all mode_valid ms" "distinct ms" "ms \<noteq> []"
  shows "(parse_modes L v = None \<longleftrightarrow> trim_bytes_whitespace v = ''\"'')
    \<and> (\<exists>s. parse_modes L (''\"'' @ join '', '' (map mode_as_str ms) @ ''\"'') = Some (Ok s) \<and> set_iter L s = ms)"
proof
  let ?t = "trim_bytes_whitespace v"
  have "starts_with ?t ''\"'' \<and> ends_with ?t ''\"'' \<and> length ?t - 1 < 1 \<longleftrightarrow> ?t = ''\"''"
    by (cases ?t) (auto simp: starts_with_def ends_with_def)
  then show "parse_modes L v = None \<longleftrightarrow> ?t = ''\"''"
    by (auto simp: parse_modes_def Let_def)
  let ?j = "join '', '' (map mode_as_str ms)"
  have "trim_bytes_whitespace (''\"'' @ ?j @ ''\"'') = ''\"'' @ ?j @ ''\"''"
    by (simp add: trim_eqs trim_bytes_whitespace_def strip_left_id strip_right_id is_blank_def byte_consts)
  moreover have "\<exists>s. insert_parts L mode_try_from trim_bytes_whitespace (split_on (CHR '','') ?j) (set_new L) = Ok s
      \<and> set_iter L s = set_iter L (set_new L) @ ms"
    using assms linked_set_lawsD(1) [OF assms(1)]
    by (intro insert_parts_distinct [OF assms(1)] modes.in_bytes.parts_parse) (auto simp: list_all_iff)
  ultimately show "\<exists>s. parse_modes L (''\"'' @ ?j @ ''\"'') = Some (Ok s) \<and> set_iter L s = ms"
    using linked_set_lawsD(1) [OF assms(1)] by (auto simp: parse_modes_def Let_def ends_with_iff)
qed

lemma parse_modes_exact_witness:
  "parse_modes list_set ''\"'' = None
    \<and> (\<exists>s. parse_modes list_set ''\"PLAY, X\"'' = Some (Ok s) \<and> set_iter list_set s = [ModePlay, ModeExtension ''X''])"
proof -
  have ok: "list_all mode_valid [ModePlay, ModeExtension ''X'']" "trim_bytes_whitespace ''\"'' = ''\"''" by code_simp+
  from parse_modes_exact [OF list_set_laws ok(1), of "''\"''"] ok(2) show ?thesis by simp
qed

end
