(* ===== verification/Address.thy ===== *)
theory Address
  imports Transport
begin

text \<open>
  Transport addresses and key management data: \<^verbatim>\<open>rtsp-2/src/header/types/transport/address.rs\<close>
  and \<^verbatim>\<open>mikey.rs\<close>, and the regular expression of \<^verbatim>\<open>rtsp-2/src/syntax.rs\<close> that extension
  addresses have to match. The host and port parsers are those of the third-party \<open>uriparse\<close>, and
  base64 decoding is third-party too; they are parameters, and so is Unicode lower casing.
\<close>

text \<open>
  The pattern \<^verbatim>\<open>^(?:[ !#-\[\]-~]|[^[:ascii:]]|\\"|\\\\)*$\<close> as an automaton over the
  characters of the value.
\<close>

fun qdtext_chars :: "nat list \<Rightarrow> bool" where
  "qdtext_chars [] \<longleftrightarrow> True"
| "qdtext_chars (c # cs) \<longleftrightarrow>
     (if c = 92 then (case cs of d # ds \<Rightarrow> (d = 34 \<or> d = 92) \<and> qdtext_chars ds | [] \<Rightarrow> False)
      else (c = 32 \<or> c = 33 \<or> (35 \<le> c \<and> c \<le> 91) \<or> (93 \<le> c \<and> c \<le> 126) \<or> 128 \<le> c) \<and> qdtext_chars cs)"

definition is_qdtext :: "bytes \<Rightarrow> bool" where
  "is_qdtext value = (case utf8_chars value of None \<Rightarrow> False | Some cs \<Rightarrow> qdtext_chars cs)"

record 'host address_ops =
  host_try_from :: "bytes \<Rightarrow> 'host option"
  host_is_empty_name :: "'host \<Rightarrow> bool"
  host_display :: "'host \<Rightarrow> bytes"
  authority_parse_port :: "bytes \<Rightarrow> nat option option"
  str_to_lowercase :: "bytes \<Rightarrow> bytes"

record 'host HostPort =
  hp_host :: "'host option"
  hp_port :: "nat option"

datatype 'host Address = AddressExtension bytes | AddressHostPort "'host HostPort"

datatype AddressError = AddressError

definition address_extension :: "'host address_ops \<Rightarrow> bytes \<Rightarrow> AddressError + 'host Address" where
  "address_extension A value =
     (if \<not> is_qdtext value then Err AddressError else Ok (AddressExtension (str_to_lowercase A value)))"

definition address_try_from :: "'host address_ops \<Rightarrow> bytes \<Rightarrow> AddressError + 'host Address" where
  "address_try_from A value =
     (case (case position (\<lambda>byte. byte = CHR '':'') value of
              Some index \<Rightarrow> (take index value, Some (drop (index + 1) value))
            | None \<Rightarrow> (value, None)) of
        (host, port) \<Rightarrow>
          (case host_try_from A host of
             None \<Rightarrow> address_extension A value
           | Some host \<Rightarrow>
               (let host = (if host_is_empty_name A host then None else Some host)
                in case port of
                     None \<Rightarrow> Ok (AddressHostPort \<lparr>hp_host = host, hp_port = None\<rparr>)
                   | Some port \<Rightarrow>
                       (case authority_parse_port A port of
                          None \<Rightarrow> address_extension A value
                        | Some port \<Rightarrow> Ok (AddressHostPort \<lparr>hp_host = host, hp_port = port\<rparr>)))))"

definition host_port_display :: "'host address_ops \<Rightarrow> 'host HostPort \<Rightarrow> bytes" where
  "host_port_display A hp =
     (case hp_host hp of Some host \<Rightarrow> host_display A host | None \<Rightarrow> [])
     @ (case hp_port hp of Some port \<Rightarrow> '':'' @ decimal port | None \<Rightarrow> [])"

definition address_display :: "'host address_ops \<Rightarrow> 'host Address \<Rightarrow> bytes" where
  "address_display A a =
     (case a of AddressExtension extension \<Rightarrow> extension | AddressHostPort hp \<Rightarrow> host_port_display A hp)"

datatype MIKEY = MIKEY (mikey_bytes: bytes)

definition mikey_try_from :: "(bytes \<Rightarrow> 'e + bytes) \<Rightarrow> bytes \<Rightarrow> 'e + MIKEY" where
  "mikey_try_from base64_decode value = (case base64_decode value of Err e \<Rightarrow> Err e | Ok bytes \<Rightarrow> Ok (MIKEY bytes))"

subsection \<open>Facts\<close>

text \<open>
  What the program relies on: a host prints to text without a colon that parses to it and is not the
  empty name, the empty text parses to the empty name, a printed port parses to that port.
\<close>

definition address_laws :: "'host address_ops \<Rightarrow> ('host \<Rightarrow> bool) \<Rightarrow> bool" where
  "address_laws A plain \<longleftrightarrow>
     (\<forall>h. plain h \<longrightarrow> CHR '':'' \<notin> set (host_display A h) \<and> host_try_from A (host_display A h) = Some h
        \<and> \<not> host_is_empty_name A h)
     \<and> (\<exists>h. host_try_from A [] = Some h \<and> host_is_empty_name A h)
     \<and> (\<forall>n < 65536. authority_parse_port A (decimal n) = Some (Some n))"

lemma address_roundtrip_parts:
  assumes "address_laws A plain" "case host of Some h \<Rightarrow> plain h | None \<Rightarrow> True"
    "case port of Some n \<Rightarrow> n < 65536 | None \<Rightarrow> True"
  shows "address_try_from A (host_port_display A \<lparr>hp_host = host, hp_port = port\<rparr>)
    = Ok (AddressHostPort \<lparr>hp_host = host, hp_port = port\<rparr>)"
proof -
  let ?t = "case host of Some h \<Rightarrow> host_display A h | None \<Rightarrow> []"
  have colon: "\<forall>c \<in> set ?t. c \<noteq> CHR '':''"
    using assms(1,2) by (cases host) (auto simp: address_laws_def)
  obtain h where h: "host_try_from A ?t = Some h" "(if host_is_empty_name A h then None else Some h) = host"
    using assms(1,2) by (cases host) (auto simp: address_laws_def)
  show ?thesis
  proof (cases port)
    case None
    have "position (\<lambda>byte. byte = CHR '':'') ?t = None" using colon by (simp add: position_None_iff)
    with None h show ?thesis by (simp add: address_try_from_def host_port_display_def)
  next
    case (Some n)
    then have "authority_parse_port A (decimal n) = Some (Some n)"
      using assms(1,3) by (simp add: address_laws_def)
    moreover have "position (\<lambda>byte. byte = CHR '':'') (?t @ CHR '':'' # decimal n) = Some (length ?t)"
      using colon by (intro position_found) auto
    ultimately show ?thesis using Some h by (simp add: address_try_from_def host_port_display_def)
  qed
qed

text \<open>
  A host in brackets is never recognised: the first colon is inside the brackets, what is before it is
  no host, and the address becomes an extension.
\<close>

lemma address_brackets_extension:
  assumes "host_try_from A ''['' = None"
  shows "address_try_from A ''[::1]:8080'' = Ok (AddressExtension (str_to_lowercase A ''[::1]:8080''))"
proof -
  have "is_qdtext ''[::1]:8080''" by code_simp
  with assms show ?thesis by (simp add: address_try_from_def address_extension_def)
qed

end
