(* ===== verification/Accept.thy ===== *)
theory Accept
  imports TokenLists
begin

text \<open>
  The header that lists media types with their quality: \<^verbatim>\<open>rtsp-2/src/header/types/accept.rs\<close>. Parsing
  and printing a media type without its quality is the third-party \<open>mime\<close>, the parameter \<open>M\<close>. A
  32-bit float is its bits; reading and printing one as decimal text is the parameter \<open>F\<close>.
\<close>

datatype AcceptError = AcceptInvalidUtf8 | AcceptInvalidSyntax

record 'mime mime_ops =
  mime_parse :: "bytes \<Rightarrow> 'mime option"
  mime_display :: "'mime \<Rightarrow> bytes"

record f32_ops =
  f32_parse :: "bytes \<Rightarrow> 32 word option"
  f32_display :: "32 word \<Rightarrow> bytes"

text \<open>The comparisons with zero and one, on the bits; they are false for what is not a number.\<close>

definition f32_less_zero :: "32 word \<Rightarrow> bool" where
  "f32_less_zero b \<longleftrightarrow> 0x80000000 < b \<and> b \<le> 0xFF800000"

definition f32_greater_one :: "32 word \<Rightarrow> bool" where
  "f32_greater_one b \<longleftrightarrow> 0x3F800000 < b \<and> b \<le> 0x7F800000"

datatype QualityParam = QualityParam (quality_bits: "32 word")

definition quality_new :: "32 word \<Rightarrow> QualityParam" where
  "quality_new q_value =
     (let q_value = (if f32_less_zero q_value then 0 else if f32_greater_one q_value then 0x3F800000 else q_value)
      in QualityParam q_value)"

definition quality_try_from :: "f32_ops \<Rightarrow> bytes \<Rightarrow> AcceptError + QualityParam" where
  "quality_try_from F value =
     (case utf8_chars value of
        None \<Rightarrow> Err AcceptInvalidUtf8
      | Some _ \<Rightarrow>
          (let quality = last (split_on (CHR ''='') value)
           in case f32_parse F quality of
                None \<Rightarrow> Err AcceptInvalidSyntax
              | Some quality_param \<Rightarrow> Ok (quality_new quality_param)))"

definition quality_display :: "f32_ops \<Rightarrow> QualityParam \<Rightarrow> bytes" where
  "quality_display F q = ''q='' @ f32_display F (quality_bits q)"

record 'mime MediaType =
  m_type :: 'mime
  quality :: "QualityParam option"

definition media_type_new :: "'mime \<Rightarrow> QualityParam option \<Rightarrow> 'mime MediaType" where
  "media_type_new m q = \<lparr>m_type = m, quality = q\<rparr>"

definition media_type_display :: "'mime mime_ops \<Rightarrow> f32_ops \<Rightarrow> 'mime MediaType \<Rightarrow> bytes" where
  "media_type_display M F t =
     (case quality t of
        Some q \<Rightarrow> mime_display M (m_type t) @ '' ;'' @ quality_display F q
      | None \<Rightarrow> mime_display M (m_type t))"

definition media_type_try_from ::
  "'mime mime_ops \<Rightarrow> f32_ops \<Rightarrow> bytes \<Rightarrow> AcceptError + 'mime MediaType" where
  "media_type_try_from M F value =
     (case splitn_2 (CHR '';'') value of
        (mediatype, rest) \<Rightarrow>
          (case utf8_chars mediatype of
             None \<Rightarrow> Err AcceptInvalidUtf8
           | Some _ \<Rightarrow>
               (case mime_parse M mediatype of
                  None \<Rightarrow> Err AcceptInvalidSyntax
                | Some m \<Rightarrow>
                    (case rest of
                       Some q \<Rightarrow>
                         (case quality_try_from F q of
                            Err _ \<Rightarrow> Err AcceptInvalidSyntax
                          | Ok q \<Rightarrow> Ok \<lparr>m_type = m, quality = Some q\<rparr>)
                     | None \<Rightarrow> Ok \<lparr>m_type = m, quality = None\<rparr>))))"

definition accept_decode ::
  "('s, 'mime MediaType) linked_set_ops \<Rightarrow> 'mime mime_ops \<Rightarrow> f32_ops \<Rightarrow> HeaderValue list \<Rightarrow> AcceptError + 's option"
where
  "accept_decode L M F values = token_list_decode L (media_type_try_from M F) values"

definition accept_encode ::
  "('s, 'mime MediaType) linked_set_ops \<Rightarrow> 'mime mime_ops \<Rightarrow> f32_ops \<Rightarrow> 's \<Rightarrow> HeaderValue list"
where
  "accept_encode L M F s = token_list_encode L (media_type_display M F) s"

definition accept_header_name :: HeaderName where "accept_header_name = HeaderAccept"

subsection \<open>Facts\<close>

text \<open>The quality is clamped: what is kept is not below zero nor above one, and stays when it is set again.\<close>

lemma quality_clamped:
  "\<not> f32_less_zero (quality_bits (quality_new b))" "\<not> f32_greater_one (quality_bits (quality_new b))"
  "quality_new (quality_bits (quality_new b)) = quality_new b"
proof -
  have "\<not> f32_less_zero 0" "\<not> f32_greater_one 0" "\<not> f32_less_zero 0x3F800000" "\<not> f32_greater_one 0x3F800000"
    by (simp_all add: f32_less_zero_def f32_greater_one_def)
  then show "\<not> f32_less_zero (quality_bits (quality_new b))" "\<not> f32_greater_one (quality_bits (quality_new b))"
    "quality_new (quality_bits (quality_new b)) = quality_new b"
    by (simp_all add: quality_new_def Let_def)
qed

text \<open>A text of printable characters without blanks and separators.\<close>

definition graphic :: "byte \<Rightarrow> bool" where
  "graphic c \<longleftrightarrow> 33 \<le> u8 c \<and> u8 c \<le> 126"

definition simple_text :: "bytes \<Rightarrow> bool" where
  "simple_text s \<longleftrightarrow> s \<noteq> [] \<and> list_all graphic s
     \<and> CHR '','' \<notin> set s \<and> CHR '';'' \<notin> set s \<and> CHR ''='' \<notin> set s"

lemma graphic_facts: "graphic c \<Longrightarrow> \<not> is_blank c" "graphic c \<Longrightarrow> c \<noteq> CR" "graphic c \<Longrightarrow> c \<noteq> LF"
  "graphic c \<Longrightarrow> is_ascii c"
  by (auto simp: graphic_def is_blank_def byte_consts is_ascii_def)

lemma trim_graphic:
  assumes "s \<noteq> []" "graphic (hd s)" "graphic (last s)"
  shows "trim_whitespace s = s" "trim_whitespace (SP # s) = s"
proof -
  have "strip_left s = s" "strip_right s = s"
    using assms graphic_facts by (simp_all add: strip_left_id strip_right_id)
  then show "trim_whitespace s = s" "trim_whitespace (SP # s) = s"
    by (simp_all add: trim_eqs trim_whitespace_def is_blank_def)
qed

lemma simple_text_facts:
  assumes "simple_text s"
  shows "s \<noteq> []" "graphic (hd s)" "graphic (last s)" "\<forall>c \<in> set s. is_ascii c"
    "CHR '','' \<notin> set s" "CHR '';'' \<notin> set s" "CHR ''='' \<notin> set s"
  using assms graphic_facts(4) by (auto simp: simple_text_def list_all_iff)

lemma simple_utf8: "simple_text s \<Longrightarrow> \<exists>cs. utf8_chars s = Some cs" "simple_text s \<Longrightarrow> \<exists>cs. utf8_chars (s @ [SP]) = Some cs"
  "simple_text s \<Longrightarrow> \<exists>cs. utf8_chars (''q='' @ s) = Some cs"
  using simple_text_facts(4) [of s] by (auto simp: utf8_chars_ascii is_ascii_def SP_def)

text \<open>
  What a media type needs to survive: \<open>mime\<close> reads its own text, which has no parameters, also with the
  blank that \<open>Display\<close> puts before the semicolon, and the float reads its own text.
\<close>

definition media_type_valid :: "'mime mime_ops \<Rightarrow> f32_ops \<Rightarrow> 'mime MediaType \<Rightarrow> bool" where
  "media_type_valid M F t \<longleftrightarrow> simple_text (mime_display M (m_type t)) \<and>
     (case quality t of
        None \<Rightarrow> mime_parse M (mime_display M (m_type t)) = Some (m_type t)
      | Some q \<Rightarrow>
          mime_parse M (mime_display M (m_type t) @ [SP]) = Some (m_type t)
          \<and> simple_text (f32_display F (quality_bits q))
          \<and> f32_parse F (f32_display F (quality_bits q)) = Some (quality_bits q)
          \<and> quality_new (quality_bits q) = q)"

lemma media_type_display_ends:
  assumes "media_type_valid M F t"
  shows "media_type_display M F t \<noteq> []" "graphic (hd (media_type_display M F t))"
    "graphic (last (media_type_display M F t))" "CHR '','' \<notin> set (media_type_display M F t)"
  using assms simple_text_facts [of "mime_display M (m_type t)"]
    simple_text_facts [of "f32_display F (quality_bits (the (quality t)))"]
  by (auto simp: media_type_valid_def media_type_display_def quality_display_def split: option.splits)

lemma media_type_roundtrip:
  assumes "media_type_valid M F t"
  shows "media_type_try_from M F (media_type_display M F t) = Ok t"
proof (cases "quality t")
  case None
  then have "simple_text (mime_display M (m_type t))" "mime_parse M (mime_display M (m_type t)) = Some (m_type t)"
    using assms by (simp_all add: media_type_valid_def)
  then show ?thesis
    using None simple_utf8(1) [of "mime_display M (m_type t)"] simple_text_facts(6) [of "mime_display M (m_type t)"]
    by (auto simp: media_type_display_def media_type_try_from_def splitn_2_free)
next
  case (Some q)
  let ?t = "mime_display M (m_type t)" and ?d = "f32_display F (quality_bits q)"
  have simple: "simple_text ?t" "simple_text ?d" using assms Some by (simp_all add: media_type_valid_def)
  have whole: "media_type_display M F t = (?t @ [SP]) @ CHR '';'' # (''q='' @ ?d)"
    by (simp add: media_type_display_def Some quality_display_def SP_def)
  have "CHR '';'' \<notin> set (?t @ [SP])" using simple_text_facts(6) [OF simple(1)] by (simp add: SP_def)
  then have "splitn_2 (CHR '';'') (media_type_display M F t) = (?t @ [SP], Some (''q='' @ ?d))"
    unfolding whole by (rule splitn_2_append)
  moreover have "split_on (CHR ''='') (''q'' @ CHR ''='' # ?d) = [''q'', ?d]"
    using simple_text_facts(7) [OF simple(2)] by (subst split_on_append) (simp_all add: split_on_free)
  then have "quality_try_from F (''q='' @ ?d) = Ok q"
    using assms Some simple_utf8(3) [OF simple(2)] by (auto simp: quality_try_from_def media_type_valid_def)
  ultimately show ?thesis
    using assms Some simple_utf8(2) [OF simple(1)]
    by (cases t) (auto simp: media_type_valid_def media_type_try_from_def)
qed

lemma media_types_list: "header_list (media_type_display M F) (media_type_try_from M F) (media_type_valid M F)"
  by unfold_locales (simp_all add: trim_graphic media_type_display_ends media_type_roundtrip)

lemma split_on_mid: "split_on c (p @ c # s) = split_on c p @ split_on c s"
proof (induction p)
  case (Cons x p)
  then show ?case by (cases "split_on c p") simp_all
qed simp

text \<open>Parameters of a media type are not kept: whatever is before the last equals sign is skipped.\<close>

lemma media_type_parameters_dropped:
  assumes "CHR '';'' \<notin> set t" "CHR ''='' \<notin> set d" "\<forall>c \<in> set (p @ d). is_ascii c"
  shows "media_type_try_from M F (t @ CHR '';'' # p @ CHR ''='' # d) = media_type_try_from M F (t @ CHR '';'' # ''q='' @ d)"
proof -
  have "last (split_on (CHR ''='') (p @ CHR ''='' # d)) = d" for p
    using assms(2) by (simp add: split_on_mid split_on_free)
  from this [of p] this [of "''q''"] have "quality_try_from F (p @ CHR ''='' # d) = quality_try_from F (''q='' @ d)"
    using assms(3) by (simp add: quality_try_from_def utf8_chars_ascii is_ascii_def)
  then show ?thesis using assms(1)
    by (simp add: media_type_try_from_def splitn_2_append split: option.split)
qed

subsection \<open>Properties\<close>

text \<open>
  The header round trips for media types that survive being printed: a non-empty list of them encodes to
  a header that decodes to the same list; the qualities in it are between zero and one.
\<close>

theorem accept_roundtrip:
  assumes "linked_set_laws L" "\<forall>t \<in> set (set_iter L s). media_type_valid M F t" "set_iter L s \<noteq> []"
  shows "\<exists>s'. accept_decode L M F (accept_encode L M F s) = Ok (Some s') \<and> set_iter L s' = set_iter L s
    \<and> (\<forall>t \<in> set (set_iter L s'). \<forall>q. quality t = Some q \<longrightarrow>
        \<not> f32_less_zero (quality_bits q) \<and> \<not> f32_greater_one (quality_bits q))"
proof -
  obtain s' where s': "accept_decode L M F (accept_encode L M F s) = Ok (Some s')" "set_iter L s' = set_iter L s"
    using header_list.decode_encode [OF media_types_list assms] by (auto simp: accept_decode_def accept_encode_def)
  have "\<not> f32_less_zero (quality_bits q) \<and> \<not> f32_greater_one (quality_bits q)"
    if "t \<in> set (set_iter L s)" "quality t = Some q" for t q
  proof -
    have "quality_new (quality_bits q) = q" using assms(2) that by (auto simp: media_type_valid_def)
    then show ?thesis using quality_clamped(1,2) [of "quality_bits q"] by simp
  qed
  then show ?thesis using s' by auto
qed

text \<open>Media types as their text and a few floats, for the examples.\<close>

definition demo_mime :: "bytes mime_ops" where
  "demo_mime = \<lparr>mime_parse = (\<lambda>s. if s = [] then None else Some (takeWhile ((\<noteq>) SP) s)), mime_display = (\<lambda>m. m)\<rparr>"

definition demo_f32 :: f32_ops where
  "demo_f32 = \<lparr>f32_parse = (\<lambda>s. if s = ''0.5'' then Some 0x3F000000 else if s = ''1'' then Some 0x3F800000 else None),
     f32_display = (\<lambda>b. if b = 0x3F000000 then ''0.5'' else ''1'')\<rparr>"

theorem accept_roundtrip_witness:
  "\<exists>s'. accept_decode list_set demo_mime demo_f32 [HeaderValue ''*/*, video/mp4 ;q=0.5''] = Ok (Some s')
    \<and> set_iter list_set s' = [\<lparr>m_type = ''*/*'', quality = None\<rparr>, \<lparr>m_type = ''video/mp4'', quality = Some (QualityParam 0x3F000000)\<rparr>]"
proof -
  let ?a = "\<lparr>m_type = ''*/*'', quality = None\<rparr>" and ?b = "\<lparr>m_type = ''video/mp4'', quality = Some (QualityParam 0x3F000000)\<rparr>"
  have iter: "set_iter list_set [?a, ?b] = [?a, ?b]" by (simp add: list_set_def)
  have texts: "simple_text ''*/*''" "simple_text ''video/mp4''" "simple_text ''0.5''" by code_simp+
  have "quality_new 0x3F000000 = QualityParam 0x3F000000"
    by (simp add: quality_new_def f32_less_zero_def f32_greater_one_def)
  then have "media_type_valid demo_mime demo_f32 ?a" "media_type_valid demo_mime demo_f32 ?b"
    using texts by (simp_all add: media_type_valid_def demo_mime_def demo_f32_def SP_def)
  then have valid: "\<forall>t \<in> set (set_iter list_set [?a, ?b]). media_type_valid demo_mime demo_f32 t"
    unfolding iter by simp
  have nonempty: "set_iter list_set [?a, ?b] \<noteq> []" unfolding iter by simp
  have encoded: "accept_encode list_set demo_mime demo_f32 [?a, ?b] = [HeaderValue ''*/*, video/mp4 ;q=0.5'']"
    unfolding accept_encode_def token_list_encode_def iter
    by (simp add: media_type_display_def quality_display_def demo_mime_def demo_f32_def from_string_unchecked_def)
  from accept_roundtrip [OF list_set_laws valid nonempty] show ?thesis unfolding encoded iter by blast
qed

end
