(* ===== verification/Spec2Isabelle.thy ===== *)
theory Spec2Isabelle
  imports UriParts DecoderConfig Boundaries EndToEnd AcceptRanges Public SessionHeader Transport Address DateHeader Accept Server
begin

text \<open>
  A verification library for the crate \<^verbatim>\<open>rtsp-2\<close> (with \<^verbatim>\<open>rtsp-common\<close>), an implementation of the Real
  Time Streaming Protocol 2.0 over futures. File names are relative to \<^verbatim>\<open>src/\<close> and, where no crate is
  named, to \<^verbatim>\<open>src/rtsp-2/src/\<close>.

  \<^bold>\<open>The program.\<close> Both ends of a connection run the same parts. A \<^emph>\<open>codec\<close> turns bytes into messages
  with two incremental decoders and messages into bytes. A \<^emph>\<open>connection\<close> is a task that owns a
  \<^emph>\<open>receiver\<close> and a \<^emph>\<open>sender\<close> for the two halves of the transport and a \<^emph>\<open>shutdown handler\<close>. The
  receiver passes requests on in the order of their sequence numbers and matches responses with the
  channels of the requests that wait for them. Requests go over a bounded channel to a \<^emph>\<open>request
  handler\<close>, a task of its own that gives them one at a time to a \<^emph>\<open>service\<close>, and its responses go over
  an unbounded channel to the sender. A \<^emph>\<open>handle\<close> sends requests: it numbers them, announces them to
  the response receiver, and gives back a future with two timers. Client and server put these parts
  together; the service of the server answers \<open>OPTIONS\<close> and \<open>SETUP\<close>.

  \<^bold>\<open>Theories and code.\<close> A definition has the name of its Rust item, with a prefix for its type where
  names clash.
  \<^item> Shared: Prelude (bytes as \<^typ>\<open>char\<close>, results as sums, searching in lists), Std (what is used of the
    standard library: decimal printing and parsing, UTF-8), Syntax (\<^verbatim>\<open>syntax.rs\<close>), WireToken (the
    locale of token types), HeaderMap (\<^verbatim>\<open>header/map.rs\<close> and the locale of typed headers), Split,
    TokenLists (comma separated lists: three locales), Futures (polls, sinks, channels, timers, runs of
    step relations and the locale of invariants).
  \<^item> Values of messages: Version (\<^verbatim>\<open>rtsp-common/src/version.rs\<close>), Method (\<^verbatim>\<open>method.rs\<close>), Reason
    (\<^verbatim>\<open>reason.rs\<close>), Status (\<^verbatim>\<open>status.rs\<close>), HeaderName (\<^verbatim>\<open>header/name.rs\<close>), HeaderValue
    (\<^verbatim>\<open>header/value.rs\<close>), Uri and UriParts (\<^verbatim>\<open>uri/request.rs\<close>), Request (\<^verbatim>\<open>request.rs\<close>), Response
    (\<^verbatim>\<open>response.rs\<close>).
  \<^item> Typed headers, \<^verbatim>\<open>header/types/\<close>: CSeq (\<^verbatim>\<open>cseq.rs\<close>), ContentLength (\<^verbatim>\<open>content_length.rs\<close>),
    AcceptRanges (\<^verbatim>\<open>accept_ranges.rs\<close>), Public (\<^verbatim>\<open>public.rs\<close>), Accept (\<^verbatim>\<open>accept.rs\<close>), SessionHeader
    (\<^verbatim>\<open>session.rs\<close> here and at the top), Transport and Address (\<^verbatim>\<open>transport/\<close>), DateParse, DateText,
    DateSafe and DateHeader (\<^verbatim>\<open>../common/date.rs\<close>, \<^verbatim>\<open>date.rs\<close>, \<^verbatim>\<open>expires.rs\<close>).
  \<^item> Codec, \<^verbatim>\<open>protocol/codec/\<close>: Decoder (\<^verbatim>\<open>decoder/mod.rs\<close> and the locale of an incremental decoder),
    RequestDecoder, ResponseDecoder and DecoderConfig (\<^verbatim>\<open>decoder/request.rs\<close>, \<^verbatim>\<open>decoder/response.rs\<close>),
    Encoder (\<^verbatim>\<open>encoder/\<close>), Codec (\<^verbatim>\<open>mod.rs\<close>). A decoder is a record with its state, its builder and
    its limits; each \<open>decode_*\<close> function takes it with the buffer and returns both.
  \<^item> Connection, \<^verbatim>\<open>protocol/connection/\<close>: Forwarding, Responses, Receiver and Matching (\<^verbatim>\<open>receiver.rs\<close>),
    Sender (\<^verbatim>\<open>sender.rs\<close>), Pending (\<^verbatim>\<open>pending.rs\<close>), Handler (\<^verbatim>\<open>handler.rs\<close>), Shutdown
    (\<^verbatim>\<open>shutdown.rs\<close>), Connection (\<^verbatim>\<open>mod.rs\<close>). Each part is a record of its fields and a function
    \<open>poll\<close> from that record, with what its channels, timers and streams give in this poll, to the next
    record and the result.
  \<^item> Ends: ConnectionService (the service and the sessions of \<^verbatim>\<open>server.rs\<close>), Server (\<^verbatim>\<open>server.rs\<close>,
    \<^verbatim>\<open>client.rs\<close>, \<^verbatim>\<open>protocol/service.rs\<close>), Boundaries and EndToEnd (no further code: limits, and the parts composed).

  \<^bold>\<open>What the lemmas show.\<close> The properties are numbered C1 to C40 in the theories that prove them.
  \<^item> Wire format. What is encoded decodes to the same message, for one message and for any sequence on
    one stream (C2, C4, C5); decoding does not depend on how the bytes are cut (C1); decoders never
    panic, respect their limits, and stay in error (C26 to C29). Behind these stands the locale of Decoder, a
    contract between one decoding step and all the bytes to come, interpreted for both decoders. Names, values,
    numbers, methods and sessions parse exactly the language that is meant and print back.
  \<^item> Ordering and matching. Requests reach the handler consecutively and unchanged (C7, refined by the
    whole receiver in C8); they are answered one by one in order (C9, C10); what is sent reaches the transport in
    order (C11); a channel of a pending request is used at most once and for its own response (C13,
    C14), and is settled when the connection ends (C6). Where the code can stall or panic, that is
    proved as well (C20, C25).
  \<^item> Life cycle. Shutdown goes through its states once and sends one event (C12, C16, C17), and a
    connection that is told to shut down does (C18).
  \<^item> Composition. C3 follows requests from the client's encoder to the channels on which the client
    waits for the responses, through the models of codec, receiver, handler, service and sender.
  \<^item> Boundaries. What happens at the edges: limits that depend on how bytes arrive, signs in numbers,
    and polls that return without anything left to wake them, or wait longer than they have to.
  \<^item> Dates, lists, transport parameters (C34 to C39), with the inputs that the code mishandles.

  \<^bold>\<open>Results, errors and panics.\<close> A Rust \<open>Result\<close> is a sum, \<open>Inl\<close> the error. Where a function can
  panic (\<open>expect\<close>, \<open>unwrap\<close>, slices, debug assertions, an overflow in a debug build) an option
  around its result is \<^const>\<open>None\<close> in that case, so that the absence of panics is a statement about
  the model. The date parser has a panic of its own among its errors.

  \<^bold>\<open>Integers and bounds.\<close> A \<open>u32\<close> sequence number is a \<open>32 word\<close>, a float in a quality its 32 bits. A
  \<open>usize\<close> that counts bytes of a buffer in memory is a \<^typ>\<open>nat\<close>; where a number is parsed its bound is
  written out, for a target of 64 bits. The day, year and offset of dates are integers with the bounds of
  \<open>i32\<close> checked.

  \<^bold>\<open>Termination.\<close> No model uses fuel. Loops that are not structural have a measure: the bytes left for
  the decoding loops, trimming and splitting, the number of buffered requests for forwarding, a rank of
  the three states for the shutdown handler, and the events that the environment gives in a poll for the loops of
  receiver, sender and handler. \<open>decode_stream\<close> counts the messages that are asked for.

  \<^bold>\<open>Parameters.\<close> Code that is not in the repository is an argument of the definitions that use it, with
  its documented behaviour as a named hypothesis, and with an instance that is used in the witnesses:
  \<^item> \<open>uriparse\<close>: the syntax of URIs and hosts (\<open>uriparse_ops\<close>, \<open>uri_normalize_laws\<close>);
  \<^item> \<open>ordered_multimap\<close>: the header map (\<open>header_map_ops\<close>, \<open>header_map_laws\<close>);
  \<^item> \<open>linked_hash_set\<close> (\<open>linked_set_ops\<close>, \<open>linked_set_laws\<close>);
  \<^item> \<open>futures\<close> and \<open>tokio\<close>: sinks, bounded and unbounded channels (\<open>sink_laws\<close>, \<open>unbounded_laws\<close>);
    what channels, single-use channels, streams and timers give is an argument of every poll, so a
    statement for all arguments covers every interleaving of the tasks;
  \<^item> the service (\<open>service_ops\<close>), \<open>chrono\<close> (\<open>chrono_ops\<close>, with the Gregorian calendar as the instance), the
    clock of the sessions, \<open>mime\<close>, the decimal text of floats, \<open>base64\<close>, the lower case of Unicode, and
    the random choices of \<open>rand\<close>.

  \<^bold>\<open>Not modelled.\<close> \<^verbatim>\<open>media.rs\<close> has only enumerations and traits without operations. Opening sockets and
  spawning tasks belong to \<open>tokio\<close>; \<open>Display\<close> and \<open>description\<close> of errors give text for people;
  conversions that only delegate (\<open>From\<close> for strings, the \<open>with_*\<close> forms of setters, \<open>Infallible\<close>, references)
  are the function they call, and accessors are the fields of the records. Waking up tasks is not part
  of the model: a poll says what happens when the task runs, not that it runs. Atomics and mutexes are
  state that is passed on, and never poisoned. \<open>Hash\<close> only has to agree with equality for the third-party maps.
  Benchmarks and examples are not part of the library.
\<close>

end
